(* ===== verification/Rag_Prelude.thy ===== *)
theory Rag_Prelude
  imports
    Main
    "HOL-Library.Word"
    "HOL-Library.Multiset"
    "HOL-Library.Char_ord"
    "HOL-Library.List_Lexorder"
    "HOL-Library.Product_Lexorder"
begin

text \<open>
  Shared ground of the development: the names of the model's base types, the little-endian
  byte codec that every on-disk record of the program is built from, \<open>std::map\<close> as a sorted
  association list with the interface its clients rely on, and generic list facts.

  A C++ \<open>std::string\<close> is a byte string, so it is a HOL \<open>string\<close> (a list of 8-bit
  characters). Character and list order (\<open>Char_ord\<close>, \<open>List_Lexorder\<close>) are the unsigned
  byte-wise lexicographic order of \<open>std::string::operator<\<close>. Unsigned fields of fixed width
  are words; sizes of in-memory containers are natural numbers.
\<close>

type_synonym u8 = "8 word"
type_synonym u16 = "16 word"
type_synonym u32 = "32 word"
type_synonym u64 = "64 word"

named_theorems codec \<open>decode-after-encode equations of the byte codecs\<close>
named_theorems omap \<open>laws of ordered maps\<close>

subsection \<open>Little-endian bytes\<close>

primrec le_bytes :: "nat \<Rightarrow> nat \<Rightarrow> string" where
  "le_bytes 0 n = []"
| "le_bytes (Suc k) n = char_of n # le_bytes k (n div 256)"

primrec le_nat :: "string \<Rightarrow> nat" where
  "le_nat [] = 0"
| "le_nat (c # cs) = of_char c + 256 * le_nat cs"

lemma length_le_bytes [simp]: "length (le_bytes k n) = k"
  by (induction k arbitrary: n) auto

lemma le_nat_le_bytes [simp]: "le_nat (le_bytes k n) = n mod 256 ^ k"
proof (induction k arbitrary: n)
  case 0
  show ?case by simp
next
  case (Suc k)
  have "le_nat (le_bytes (Suc k) n) = n mod 256 + 256 * (n div 256 mod 256 ^ k)"
    using Suc.IH by simp
  also have "\<dots> = n mod (256 * 256 ^ k)"
    by (simp add: mod_mult2_eq)
  finally show ?case by simp
qed

lemma of_char_lt_256 [simp]: "(of_char c :: nat) < 256"
proof -
  have "(of_char c :: nat) mod 256 < 256" by simp
  then show ?thesis by (simp only: of_char_mod_256)
qed

lemma le_nat_less: "le_nat s < 256 ^ length s"
proof (induction s)
  case Nil
  show ?case by simp
next
  case (Cons c s)
  have "(of_char c :: nat) < 256" by simp
  with Cons.IH have "of_char c + 256 * le_nat s < 256 * 256 ^ length s" by linarith
  then show ?case by simp
qed

lemma char_of_of_char_add [simp]: "char_of (of_char c + 256 * n :: nat) = c"
  by (rule of_char_eqI [where 'a = nat]) simp

lemma le_bytes_le_nat [simp]: "le_bytes (length s) (le_nat s) = s"
  by (induction s) auto

subsection \<open>Ordered maps\<close>

text \<open>
  \<open>std::map\<close> iterates in ascending key order and holds each key once: a strictly
  key-sorted association list. \<open>omap_put\<close> is \<open>m[k] = v\<close>, \<open>omap_emplace\<close> is
  \<open>m.emplace(k, v)\<close> (which keeps an existing entry and reports whether it inserted),
  \<open>omap_del\<close> is \<open>m.erase(k)\<close>; \<open>m.find(k)\<close> is \<open>map_of\<close>.
\<close>

fun omap_put :: "'k::linorder \<Rightarrow> 'v \<Rightarrow> ('k \<times> 'v) list \<Rightarrow> ('k \<times> 'v) list" where
  "omap_put k v [] = [(k, v)]"
| "omap_put k v (p # m) =
     (if k < fst p then (k, v) # p # m
      else if k = fst p then (k, v) # m
      else p # omap_put k v m)"

definition omap_emplace :: "'k::linorder \<Rightarrow> 'v \<Rightarrow> ('k \<times> 'v) list \<Rightarrow> ('k \<times> 'v) list \<times> bool" where
  "omap_emplace k v m = (if map_of m k = None then (omap_put k v m, True) else (m, False))"

definition omap_del :: "'k \<Rightarrow> ('k \<times> 'v) list \<Rightarrow> ('k \<times> 'v) list" where
  "omap_del k m = filter (\<lambda>p. fst p \<noteq> k) m"

definition omap_wf :: "('k::linorder \<times> 'v) list \<Rightarrow> bool" where
  "omap_wf m = sorted_wrt (<) (map fst m)"

lemma omap_wf_Nil [simp]: "omap_wf []"
  by (simp add: omap_wf_def)

lemma omap_wf_Cons: "omap_wf (p # m) \<longleftrightarrow> (\<forall>q \<in> set m. fst p < fst q) \<and> omap_wf m"
  by (auto simp: omap_wf_def)

lemma omap_wf_distinct: "omap_wf m \<Longrightarrow> distinct (map fst m)"
  by (simp add: omap_wf_def strict_sorted_iff)

lemma set_omap_put: "set (omap_put k v m) \<subseteq> insert (k, v) (set m)"
  by (induction m) auto

lemma omap_wf_put [simp]: "omap_wf m \<Longrightarrow> omap_wf (omap_put k v m)"
proof (induction m)
  case Nil
  show ?case by (simp add: omap_wf_def)
next
  case (Cons p m)
  then show ?case
    using set_omap_put [of k v m] by (auto simp: omap_wf_Cons)
qed

lemma map_of_omap_put [simp]: "map_of (omap_put k v m) = (map_of m)(k \<mapsto> v)"
  by (induction m) (auto simp: fun_eq_iff)

lemma omap_wf_del [simp]: "omap_wf m \<Longrightarrow> omap_wf (omap_del k m)"
  by (induction m) (auto simp: omap_wf_Cons omap_del_def)

lemma map_of_omap_del [simp]: "map_of (omap_del k m) k' = (if k' = k then None else map_of m k')"
  by (induction m) (auto simp: omap_del_def)

lemma omap_wf_emplace [simp]: "omap_wf m \<Longrightarrow> omap_wf (fst (omap_emplace k v m))"
  by (simp add: omap_emplace_def)

lemma omap_put_above: "\<forall>q \<in> set m. fst q < k \<Longrightarrow> omap_put k v m = m @ [(k, v)]"
  by (induction m) auto

lemma omap_ext:
  assumes "omap_wf m" and "omap_wf m'" and "map_of m = map_of m'"
  shows "m = m'"
proof (rule map_sorted_distinct_set_unique [where f = fst])
  have d: "distinct (map fst m)" "distinct (map fst m')"
    using assms(1,2) by (auto dest: omap_wf_distinct)
  then show "distinct (map fst m)" "distinct (map fst m')" by simp_all
  show "sorted (map fst m)" "sorted (map fst m')"
    using assms(1,2) by (simp_all add: omap_wf_def strict_sorted_iff)
  show eq: "set m = set m'"
    using d assms(3) by (metis map_of_eq_Some_iff subset_antisym subrelI)
  show "inj_on fst (set m \<union> set m')"
    using d(1) eq by (simp add: distinct_map)
qed

text \<open>
  What a client of a map relies on. The container and the job log build their maps by a loop of
  assignments, so the lookup after such a loop is derived once, from the laws alone.
\<close>

locale kv_map =
  fixes get :: "'m \<Rightarrow> 'k \<Rightarrow> 'v option"
    and put :: "'k \<Rightarrow> 'v \<Rightarrow> 'm \<Rightarrow> 'm"
    and del :: "'k \<Rightarrow> 'm \<Rightarrow> 'm"
    and wf :: "'m \<Rightarrow> bool"
  assumes get_put: "wf m \<Longrightarrow> get (put k v m) k' = (if k' = k then Some v else get m k')"
    and get_del: "wf m \<Longrightarrow> get (del k m) k' = (if k' = k then None else get m k')"
    and wf_put: "wf m \<Longrightarrow> wf (put k v m)"
    and wf_del: "wf m \<Longrightarrow> wf (del k m)"
begin

lemma wf_puts: "wf m \<Longrightarrow> wf (fold (\<lambda>(k, v). put k v) kvs m)"
  by (induction kvs arbitrary: m) (auto simp: wf_put)

lemma get_puts:
  "wf m \<Longrightarrow> distinct (map fst kvs) \<Longrightarrow>
     get (fold (\<lambda>(k, v). put k v) kvs m) k =
       (case map_of kvs k of None \<Rightarrow> get m k | Some v \<Rightarrow> Some v)"
proof (induction kvs arbitrary: m)
  case Nil
  then show ?case by simp
next
  case (Cons p kvs)
  obtain a b where p: "p = (a, b)" by force
  show ?case
  proof (cases "k = a")
    case True
    with Cons.prems p have "map_of kvs k = None" by (simp add: map_of_eq_None_iff)
    with Cons p True show ?thesis by (simp add: wf_put get_put)
  next
    case False
    with Cons p show ?thesis by (simp add: wf_put get_put split: option.split)
  qed
qed

lemma put_del_get: "wf m \<Longrightarrow> get (put k v (del k m)) k' = get (put k v m) k'"
  by (simp add: get_put get_del wf_del)

end

interpretation om: kv_map "map_of :: ('k::linorder \<times> 'v) list \<Rightarrow> 'k \<rightharpoonup> 'v" omap_put omap_del omap_wf
  by unfold_locales auto

text \<open>Rebuilding a map by assigning a permutation of its entries gives it back.\<close>

lemma omap_rebuild:
  assumes "omap_wf m" and "mset kvs = mset m"
  shows "fold (\<lambda>(k, v). omap_put k v) kvs [] = m"
proof (rule omap_ext)
  have "mset (map fst kvs) = mset (map fst m)" using assms(2) by simp
  then have d: "distinct (map fst kvs)"
    using omap_wf_distinct [OF assms(1)] by (metis mset_eq_imp_distinct_iff)
  have "set kvs = set m" using assms(2) by (metis set_mset_mset)
  then have eq: "map_of kvs = map_of m"
    using d omap_wf_distinct [OF assms(1)] by (intro map_of_inject_set [THEN iffD2]) auto
  show "omap_wf (fold (\<lambda>(k, v). omap_put k v) kvs [])" by (rule om.wf_puts) simp
  show "omap_wf m" by (fact assms(1))
  show "map_of (fold (\<lambda>(k, v). omap_put k v) kvs []) = map_of m"
    using om.get_puts [OF _ d, of "[]"] eq by (auto simp: fun_eq_iff split: option.splits)
qed

subsection \<open>Lists\<close>

lemma take_len_append: "length a = n \<Longrightarrow> take n (a @ b) = a"
  by simp

lemma drop_len_append: "length a = n \<Longrightarrow> drop n (a @ b) = b"
  by simp

lemma find_SomeD: "find P xs = Some x \<Longrightarrow> P x \<and> x \<in> set xs"
  by (induction xs) (auto split: if_splits)

subsection \<open>Character classes\<close>

text \<open>\<open>std::isspace\<close> in the C locale.\<close>

definition is_space :: "char \<Rightarrow> bool" where
  "is_space ch \<longleftrightarrow> of_char ch = (32::nat) \<or> (9 \<le> (of_char ch :: nat) \<and> (of_char ch :: nat) \<le> 13)"

end
