(* ===== verification/Core_Types.thy ===== *)
theory Core_Types
  imports Rag_Prelude
begin

text \<open>
  The vocabulary of \<^verbatim>\<open>rag.cpp/include/rag/core/types.hpp\<close> and \<^verbatim>\<open>document.hpp\<close>: the closed
  error enumeration, \<open>Result<T>\<close> as a sum whose left side is the error, the 32-bit identifiers
  with their invalid value, and the document and chunk records.
\<close>

subsection \<open>Errors and results\<close>

datatype errc =
  Errc_ok | Errc_not_found | Errc_invalid_argument | Errc_dimension_mismatch | Errc_io_error
  | Errc_parse_error | Errc_transport_error | Errc_unavailable | Errc_empty_corpus
  | Errc_already_exists | Errc_corrupt_index

fun errc_to_string :: "errc \<Rightarrow> string" where
  "errc_to_string Errc_ok = ''ok''"
| "errc_to_string Errc_not_found = ''not_found''"
| "errc_to_string Errc_invalid_argument = ''invalid_argument''"
| "errc_to_string Errc_dimension_mismatch = ''dimension_mismatch''"
| "errc_to_string Errc_io_error = ''io_error''"
| "errc_to_string Errc_parse_error = ''parse_error''"
| "errc_to_string Errc_transport_error = ''transport_error''"
| "errc_to_string Errc_unavailable = ''unavailable''"
| "errc_to_string Errc_empty_corpus = ''empty_corpus''"
| "errc_to_string Errc_already_exists = ''already_exists''"
| "errc_to_string Errc_corrupt_index = ''corrupt_index''"

text \<open>The enumeration's integer values, used when an error code is stored in a job record.\<close>

definition errc_values :: "errc list" where
  "errc_values =
     [Errc_ok, Errc_not_found, Errc_invalid_argument, Errc_dimension_mismatch, Errc_io_error,
      Errc_parse_error, Errc_transport_error, Errc_unavailable, Errc_empty_corpus,
      Errc_already_exists, Errc_corrupt_index]"

fun errc_to_int :: "errc \<Rightarrow> int" where
  "errc_to_int Errc_ok = 0"
| "errc_to_int Errc_not_found = 1"
| "errc_to_int Errc_invalid_argument = 2"
| "errc_to_int Errc_dimension_mismatch = 3"
| "errc_to_int Errc_io_error = 4"
| "errc_to_int Errc_parse_error = 5"
| "errc_to_int Errc_transport_error = 6"
| "errc_to_int Errc_unavailable = 7"
| "errc_to_int Errc_empty_corpus = 8"
| "errc_to_int Errc_already_exists = 9"
| "errc_to_int Errc_corrupt_index = 10"

lemma errc_values_nth [simp]: "errc_values ! nat (errc_to_int e) = e"
  by (cases e) (simp_all add: errc_values_def)

lemma errc_to_int_bounds [simp]: "0 \<le> errc_to_int e" "errc_to_int e \<le> 10"
  by (cases e; simp)+

record error =
  err_code :: errc
  err_message :: string

type_synonym 'a result = "error + 'a"

definition fail :: "errc \<Rightarrow> string \<Rightarrow> 'a result" where
  "fail c msg = Inl \<lparr>err_code = c, err_message = (if msg = [] then errc_to_string c else msg)\<rparr>"

definition has_value :: "'a result \<Rightarrow> bool" where
  "has_value r = (case r of Inl _ \<Rightarrow> False | Inr _ \<Rightarrow> True)"

definition failed_with :: "errc \<Rightarrow> 'a result \<Rightarrow> bool" where
  "failed_with c r = (case r of Inl e \<Rightarrow> err_code e = c | Inr _ \<Rightarrow> False)"

lemma has_value_simps [simp]: "has_value (Inr x)" "\<not> has_value (Inl e)" "\<not> has_value (fail c m)"
  by (simp_all add: has_value_def fail_def)

lemma failed_with_simps [simp]:
  "failed_with c (fail c' m) = (c' = c)" "failed_with c (Inl e) = (err_code e = c)"
  "\<not> failed_with c (Inr x)"
  by (simp_all add: failed_with_def fail_def)

lemma fail_neq_Inr [simp]: "fail c m \<noteq> Inr x" "Inr x \<noteq> fail c m"
  by (simp_all add: fail_def)

lemma case_fail [simp]: "(case fail c m of Inl e \<Rightarrow> f e | Inr x \<Rightarrow> g x) =
    f \<lparr>err_code = c, err_message = (if m = [] then errc_to_string c else m)\<rparr>"
  by (simp add: fail_def)

text \<open>Early return on error, the shape \<open>if (!r) return unexpected(r.error());\<close>.\<close>

definition and_then :: "'a result \<Rightarrow> ('a \<Rightarrow> 'b result) \<Rightarrow> 'b result" where
  "and_then r f = (case r of Inl e \<Rightarrow> Inl e | Inr x \<Rightarrow> f x)"

lemma and_then_simps [simp]:
  "and_then (Inr x) f = f x" "and_then (Inl e) f = Inl e" "and_then (fail c m) f = fail c m"
  by (simp_all add: and_then_def fail_def)

lemma and_then_Inr: "and_then r f = Inr y \<longleftrightarrow> (\<exists>x. r = Inr x \<and> f x = Inr y)"
  by (cases r) auto

subsection \<open>Identifiers\<close>

type_synonym strong_id = u32

definition id_invalid :: strong_id where
  "id_invalid = 0xFFFFFFFF"

definition id_valid :: "strong_id \<Rightarrow> bool" where
  "id_valid i = (i \<noteq> id_invalid)"

subsection \<open>Documents and chunks\<close>

text \<open>
  \<open>float\<close> values are kept as their IEEE-754 binary32 bit patterns: what the program stores
  and copies is exact, and arithmetic on them, where a component needs it, is a parameter.
\<close>

type_synonym f32 = u32
type_synonym vec = "f32 list"
type_synonym metadata = "(string \<times> string) list"

record document =
  doc_id :: strong_id
  doc_uri :: string
  doc_title :: string
  doc_text :: string
  doc_meta :: metadata

record chunk =
  chunk_id :: strong_id
  chunk_doc :: strong_id
  chunk_text :: string
  chunk_context :: string
  chunk_start_line :: u32
  chunk_end_line :: u32
  chunk_embedding :: vec

definition indexed_text :: "chunk \<Rightarrow> string" where
  "indexed_text c =
     (if chunk_context c = [] then chunk_text c
      else chunk_context c @ [CHR 0x0A] @ chunk_text c)"

record hit =
  hit_chunk :: strong_id
  hit_score :: f32

text \<open>
  \<open>std::isfinite\<close> on a bit pattern: the exponent field is not all ones. The order of
  non-NaN floats is the order of their signed magnitudes, with the two zeros equal.
\<close>

unbundle bit_operations_syntax

definition f32_finite :: "f32 \<Rightarrow> bool" where
  "f32_finite x = (x AND 0x7F800000 \<noteq> 0x7F800000)"

definition f32_nan :: "f32 \<Rightarrow> bool" where
  "f32_nan x = (x AND 0x7F800000 = 0x7F800000 \<and> x AND 0x007FFFFF \<noteq> 0)"

definition f32_key :: "f32 \<Rightarrow> int" where
  "f32_key x = (if x AND 0x80000000 = 0 then uint (x AND 0x7FFFFFFF) else - uint (x AND 0x7FFFFFFF))"

definition f32_less :: "f32 \<Rightarrow> f32 \<Rightarrow> bool" where
  "f32_less x y = (\<not> f32_nan x \<and> \<not> f32_nan y \<and> f32_key x < f32_key y)"

definition f32_neq :: "f32 \<Rightarrow> f32 \<Rightarrow> bool" where
  "f32_neq x y = (f32_nan x \<or> f32_nan y \<or> f32_key x \<noteq> f32_key y)"

lemma f32_finite_not_nan: "f32_finite x \<Longrightarrow> \<not> f32_nan x"
  by (simp add: f32_finite_def f32_nan_def)

text \<open>A read that must succeed: \<open>if (!reader.u(x)) return fail(...);\<close>.\<close>

definition require :: "'a option \<Rightarrow> errc \<Rightarrow> string \<Rightarrow> 'a result" where
  "require r c msg = (case r of None \<Rightarrow> fail c msg | Some x \<Rightarrow> Inr x)"

lemma require_simps [simp]: "require (Some x) c m = Inr x" "require None c m = fail c m"
  by (simp_all add: require_def)

lemma require_Inr: "require r c m = Inr x \<longleftrightarrow> r = Some x"
  by (cases r) auto

end
