(* ===== verification/Core_Keys.thy ===== *)
theory Core_Keys
  imports Core_Types
begin

text \<open>
  \<^verbatim>\<open>rag.cpp/src/core/keys.cpp\<close>: newline normalisation, the FNV-1a hash, the stable chunk key
  and the document content hash. Shown here: normalisation is idempotent and removes every
  carriage return; the hash separates any two texts that differ in one byte; the byte string the
  content hash is taken over determines title, content and metadata; the chunk identity does so
  only for document keys without a newline.
\<close>

unbundle bit_operations_syntax

abbreviation CR :: char where "CR \<equiv> CHR 0x0D"
abbreviation LF :: char where "LF \<equiv> CHR 0x0A"

subsection \<open>Definitions\<close>

definition fnv_prime :: u64 where
  "fnv_prime = 1099511628211"

definition fnv_basis :: u64 where
  "fnv_basis = 1469598103934665603"

definition fnv_step :: "char \<Rightarrow> u64 \<Rightarrow> u64" where
  "fnv_step c h = (h XOR of_char c) * fnv_prime"

definition fnv1a :: "string \<Rightarrow> u64 \<Rightarrow> u64" where
  "fnv1a text hash = fold fnv_step text hash"

definition hex_digit :: "u64 \<Rightarrow> char" where
  "hex_digit v = ''0123456789abcdef'' ! unat (v AND 15)"

fun hex_loop :: "nat \<Rightarrow> u64 \<Rightarrow> string \<Rightarrow> string" where
  "hex_loop 0 v encoded = encoded"
| "hex_loop (Suc n) v encoded = hex_loop n (drop_bit 4 v) (hex_digit v # encoded)"

definition hex64 :: "u64 \<Rightarrow> string" where
  "hex64 v = hex_loop 16 v []"

text \<open>\<open>std::to_string\<close> on an unsigned integer.\<close>

fun to_dec :: "nat \<Rightarrow> string" where
  "to_dec n = (if n < 10 then [char_of (48 + n)] else to_dec (n div 10) @ [char_of (48 + n mod 10)])"

declare to_dec.simps [simp del]

definition hash_field :: "u64 \<Rightarrow> string \<Rightarrow> u64" where
  "hash_field h v =
     (let h = fnv1a (to_dec (length v)) h;
          h = fnv1a '':'' h;
          h = fnv1a v h
      in fnv1a [LF] h)"

fun normalize_source_text :: "string \<Rightarrow> string" where
  "normalize_source_text [] = []"
| "normalize_source_text (c # cs) =
     (if c \<noteq> CR then c # normalize_source_text cs
      else if cs \<noteq> [] \<and> hd cs = LF then normalize_source_text cs
      else LF # normalize_source_text cs)"

definition chunk_identity :: "string \<Rightarrow> u32 \<Rightarrow> u32 \<Rightarrow> string \<Rightarrow> string" where
  "chunk_identity document_key start_line end_line text =
     document_key @ [LF] @ to_dec (unat start_line) @ '':'' @ to_dec (unat end_line) @ [LF]
       @ normalize_source_text text"

definition stable_chunk_key :: "string \<Rightarrow> u32 \<Rightarrow> u32 \<Rightarrow> string \<Rightarrow> string" where
  "stable_chunk_key document_key start_line end_line text =
     ''chk_'' @ hex64 (fnv1a (chunk_identity document_key start_line end_line text) fnv_basis)"

definition document_content_hash :: "string \<Rightarrow> string \<Rightarrow> metadata \<Rightarrow> string" where
  "document_content_hash title content meta =
     (let h = hash_field fnv_basis title;
          h = hash_field h content;
          h = fold (\<lambda>(k, v) h. hash_field (hash_field h k) v) meta h
      in ''fnv1a64:'' @ hex64 h)"

subsection \<open>Newline normalisation\<close>

lemma normalize_no_CR [simp]: "CR \<notin> set (normalize_source_text s)"
  by (induction s rule: normalize_source_text.induct) auto

lemma normalize_CR_free [simp]: "CR \<notin> set s \<Longrightarrow> normalize_source_text s = s"
  by (induction s) auto

lemma normalize_length: "length (normalize_source_text s) \<le> length s"
  by (induction s) auto

lemma normalize_eq_Nil [simp]: "normalize_source_text s = [] \<longleftrightarrow> s = []"
  by (induction s) auto

text \<open>The three newline conventions: a list of CR-free lines joined by any of them.\<close>

definition with_newlines :: "string \<Rightarrow> string list \<Rightarrow> string" where
  "with_newlines nl lines = concat (map (\<lambda>l. l @ nl) lines)"

lemma normalize_append_CR_free:
  "CR \<notin> set l \<Longrightarrow> normalize_source_text (l @ s) = l @ normalize_source_text s"
  by (induction l) auto

lemma normalize_CRLF [simp]: "normalize_source_text (CR # LF # s) = LF # normalize_source_text s"
  by simp

lemma with_newlines_Cons [simp]: "with_newlines nl (l # lines) = l @ nl @ with_newlines nl lines"
  by (simp add: with_newlines_def)

lemma with_newlines_Nil [simp]: "with_newlines nl [] = []"
  by (simp add: with_newlines_def)

lemma with_CR_head:
  assumes "\<forall>l \<in> set lines. LF \<notin> set l" and "with_newlines [CR] lines \<noteq> []"
  shows "hd (with_newlines [CR] lines) \<noteq> LF"
proof (cases lines)
  case Nil
  with assms show ?thesis by simp
next
  case (Cons l ls)
  with assms show ?thesis by (cases l) auto
qed

lemma normalize_with_newlines:
  assumes "\<forall>l \<in> set lines. CR \<notin> set l \<and> LF \<notin> set l"
  shows "normalize_source_text (with_newlines [CR, LF] lines) = with_newlines [LF] lines"
    and "normalize_source_text (with_newlines [CR] lines) = with_newlines [LF] lines"
    and "normalize_source_text (with_newlines [LF] lines) = with_newlines [LF] lines"
  using assms
proof (induction lines)
  case (Cons l lines)
  {
    case 1
    with Cons show ?case by (simp add: normalize_append_CR_free)
  next
    case 2
    with Cons with_CR_head [of lines] show ?case by (auto simp: normalize_append_CR_free)
  next
    case 3
    with Cons show ?case by (simp add: normalize_append_CR_free)
  }
qed simp_all

subsection \<open>Decimal and hexadecimal\<close>

definition dec_value :: "string \<Rightarrow> nat" where
  "dec_value s = foldl (\<lambda>a c. 10 * a + (of_char c - 48)) 0 s"

lemma dec_value_to_dec [simp]: "dec_value (to_dec n) = n"
proof (induction n rule: to_dec.induct)
  case (1 n)
  show ?case
  proof (cases "n < 10")
    case True
    then show ?thesis by (simp add: to_dec.simps [of n] dec_value_def)
  next
    case False
    with 1 have "dec_value (to_dec (n div 10)) = n div 10" by simp
    with False show ?thesis by (simp add: to_dec.simps [of n] dec_value_def)
  qed
qed

lemma to_dec_inject [simp]: "to_dec m = to_dec n \<longleftrightarrow> m = n"
  by (metis dec_value_to_dec)

lemma to_dec_digits: "c \<in> set (to_dec n) \<Longrightarrow> (48::nat) \<le> of_char c \<and> (of_char c :: nat) < 58"
proof (induction n rule: to_dec.induct)
  case (1 n)
  then show ?case by (auto simp: to_dec.simps [of n] split: if_splits)
qed

lemma to_dec_not_sep [simp]: "CHR '':'' \<notin> set (to_dec n)" "LF \<notin> set (to_dec n)"
  using to_dec_digits [of _ n] by fastforce+

lemma length_hex_loop: "length (hex_loop n v acc) = n + length acc"
  by (induction n arbitrary: v acc) auto

lemma length_hex64 [simp]: "length (hex64 v) = 16"
  by (simp add: hex64_def length_hex_loop)

lemma hex_loop_append: "hex_loop n v acc = hex_loop n v [] @ acc"
proof (induction n arbitrary: v acc)
  case 0
  show ?case by simp
next
  case (Suc n)
  show ?case
    using Suc.IH [of "drop_bit 4 v" "hex_digit v # acc"] Suc.IH [of "drop_bit 4 v" "[hex_digit v]"]
    by simp
qed

lemma nibble_less: "unat (v AND 15 :: u64) < 16"
proof -
  have "unat (v AND 15) \<le> unat (15 :: u64)"
    by (rule word_and_le1 [THEN word_le_nat_alt [THEN iffD1]])
  then show ?thesis by simp
qed

lemma hex_digit_inject: "hex_digit v = hex_digit w \<longleftrightarrow> v AND 15 = w AND 15"
proof
  assume h: "hex_digit v = hex_digit w"
  have d: "distinct ''0123456789abcdef''" by simp
  from h nth_eq_iff_index_eq [OF d] nibble_less [of v] nibble_less [of w]
  have "unat (v AND 15) = unat (w AND 15)"
    by (simp add: hex_digit_def)
  then show "v AND 15 = w AND 15" by (simp only: word_unat_eq_iff)
qed (simp add: hex_digit_def)

lemma hex_loop_inject:
  "hex_loop n v [] = hex_loop n w [] \<Longrightarrow> take_bit (4 * n) v = take_bit (4 * n) w"
proof (induction n arbitrary: v w)
  case 0
  show ?case by simp
next
  case (Suc n)
  have "hex_loop n (drop_bit 4 v) [] @ [hex_digit v] = hex_loop n (drop_bit 4 w) [] @ [hex_digit w]"
    using Suc.prems hex_loop_append [of n "drop_bit 4 v" "[hex_digit v]"]
      hex_loop_append [of n "drop_bit 4 w" "[hex_digit w]"] by simp
  then have a: "hex_loop n (drop_bit 4 v) [] = hex_loop n (drop_bit 4 w) []"
    and b: "v AND 15 = w AND 15"
    by (simp_all add: hex_digit_inject)
  from Suc.IH [OF a] have hi: "take_bit (4 * n) (drop_bit 4 v) = take_bit (4 * n) (drop_bit 4 w)" .
  have lo: "bit v i = bit w i" if "i < 4" for i
  proof -
    have "bit (v AND 15) i = bit (w AND 15) i" by (simp only: b)
    moreover have "bit (15 :: u64) i" using that by (auto simp: numeral_eq_Suc less_Suc_eq)
    ultimately show ?thesis by (simp add: bit_and_iff)
  qed
  show ?case
  proof (rule bit_word_eqI)
    fix i assume "i < LENGTH(64)"
    show "bit (take_bit (4 * Suc n) v) i = bit (take_bit (4 * Suc n) w) i"
    proof (cases "i < 4")
      case True
      then show ?thesis using lo by (simp add: bit_take_bit_iff)
    next
      case False
      have "bit (take_bit (4 * n) (drop_bit 4 v)) (i - 4) = bit (take_bit (4 * n) (drop_bit 4 w)) (i - 4)"
        by (simp only: hi)
      with False show ?thesis
        by (auto simp: bit_take_bit_iff bit_drop_bit_eq)
    qed
  qed
qed

lemma hex64_inject [simp]: "hex64 v = hex64 w \<longleftrightarrow> v = w"
proof
  assume "hex64 v = hex64 w"
  then have "take_bit 64 v = take_bit 64 w"
    using hex_loop_inject [of 16 v w] by (simp add: hex64_def)
  then show "v = w" by (simp add: take_bit_word_eq_self)
qed simp

subsection \<open>The hash\<close>

lemma fnv1a_append [simp]: "fnv1a (a @ b) h = fnv1a b (fnv1a a h)"
  by (simp add: fnv1a_def)

lemma fnv_prime_inverse: "fnv_prime * 14886173955864302971 = 1"
  by (simp add: fnv_prime_def)

lemma fnv_mult_inject: "x * fnv_prime = y * fnv_prime \<longleftrightarrow> x = y"
proof
  assume "x * fnv_prime = y * fnv_prime"
  then have "x * fnv_prime * 14886173955864302971 = y * fnv_prime * 14886173955864302971"
    by (rule arg_cong)
  then show "x = y" by (simp only: mult.assoc fnv_prime_inverse mult_1_right)
qed simp

lemma xor_cancel: "(x :: u64) XOR a = y XOR a \<longleftrightarrow> x = y"
proof
  assume "x XOR a = y XOR a"
  then have "(x XOR a) XOR a = (y XOR a) XOR a" by (rule arg_cong)
  then show "x = y" by (simp only: xor.assoc xor_self_eq xor.right_neutral)
qed simp

lemma fnv_step_inject_hash: "fnv_step c x = fnv_step c y \<longleftrightarrow> x = y"
  by (simp add: fnv_step_def fnv_mult_inject xor_cancel)

lemma of_char_u64_inject: "(of_char c :: u64) = of_char d \<longleftrightarrow> c = d"
proof
  assume "(of_char c :: u64) = of_char d"
  then have "(of_nat (of_char c) :: u64) = of_nat (of_char d)" by (simp add: of_nat_of_char)
  moreover have "(of_char c :: nat) < 2 ^ LENGTH(64)" "(of_char d :: nat) < 2 ^ LENGTH(64)"
    by (rule less_trans [OF of_char_lt_256], simp)+
  ultimately have "(of_char c :: nat) = of_char d"
    by (metis of_nat_inverse)
  then show "c = d" by simp
qed simp

lemma fnv_step_inject_char: "fnv_step c h = fnv_step d h \<longleftrightarrow> c = d"
  by (simp add: fnv_step_def fnv_mult_inject xor.commute [of h] xor_cancel of_char_u64_inject)

lemma fnv1a_inject_hash: "fnv1a s x = fnv1a s y \<longleftrightarrow> x = y"
  by (induction s arbitrary: x y) (auto simp: fnv1a_def fnv_step_inject_hash)

text \<open>
  Changing one byte of a text always changes its 64-bit FNV-1a value, whatever the bytes
  around it and the starting value: every hash step is injective in the byte and in the hash.
\<close>

theorem fnv1a_separates_one_byte:
  "c \<noteq> d \<Longrightarrow> fnv1a (pre @ c # post) h \<noteq> fnv1a (pre @ d # post) h"
proof
  assume "c \<noteq> d" and "fnv1a (pre @ c # post) h = fnv1a (pre @ d # post) h"
  then have "fnv1a post (fnv_step c (fnv1a pre h)) = fnv1a post (fnv_step d (fnv1a pre h))"
    by (simp add: fnv1a_def)
  then have "c = d" by (simp only: fnv1a_inject_hash fnv_step_inject_char)
  with \<open>c \<noteq> d\<close> show False ..
qed

theorem fnv1a_separates_one_byte_witness:
  "fnv1a (''a'' @ CHR ''b'' # ''c'') fnv_basis \<noteq> fnv1a (''a'' @ CHR ''x'' # ''c'') fnv_basis"
  by (rule fnv1a_separates_one_byte) simp

subsection \<open>The content hash is taken over an unambiguous encoding\<close>

definition field_bytes :: "string \<Rightarrow> string" where
  "field_bytes v = to_dec (length v) @ '':'' @ v @ [LF]"

definition content_identity :: "string \<Rightarrow> string \<Rightarrow> metadata \<Rightarrow> string" where
  "content_identity title content meta =
     concat (map field_bytes (title # content # concat (map (\<lambda>(k, v). [k, v]) meta)))"

lemma hash_field_eq: "hash_field h v = fnv1a (field_bytes v) h"
  by (simp add: hash_field_def field_bytes_def Let_def fnv1a_def)

lemma fold_hash_fields:
  "fold (\<lambda>(k, v) h. hash_field (hash_field h k) v) meta h =
     fnv1a (concat (map field_bytes (concat (map (\<lambda>(k, v). [k, v]) meta)))) h"
proof (induction meta arbitrary: h)
  case Nil
  show ?case by (simp add: fnv1a_def)
next
  case (Cons p meta)
  obtain k v where "p = (k, v)" by force
  with Cons show ?case by (simp add: hash_field_eq)
qed

lemma document_content_hash_eq:
  "document_content_hash title content meta =
     ''fnv1a64:'' @ hex64 (fnv1a (content_identity title content meta) fnv_basis)"
  by (simp add: document_content_hash_def Let_def fold_hash_fields content_identity_def)
    (simp add: hash_field_eq)

lemma append_sep_inject:
  assumes "a @ c # x = b @ c # y" and "c \<notin> set a" and "c \<notin> set b"
  shows "a = b \<and> x = y"
proof -
  have ta: "takeWhile (\<lambda>d. d \<noteq> c) (a @ c # x) = a"
    using assms(2) by (induction a) auto
  have tb: "takeWhile (\<lambda>d. d \<noteq> c) (b @ c # y) = b"
    using assms(3) by (induction b) auto
  from ta tb assms(1) have "a = b" by simp
  with assms(1) show ?thesis by simp
qed

lemma field_bytes_inject: "field_bytes a @ x = field_bytes b @ y \<longleftrightarrow> a = b \<and> x = y"
proof
  assume "field_bytes a @ x = field_bytes b @ y"
  then have "to_dec (length a) @ CHR '':'' # (a @ [LF] @ x) = to_dec (length b) @ CHR '':'' # (b @ [LF] @ y)"
    by (simp add: field_bytes_def)
  then have "to_dec (length a) = to_dec (length b)" and r: "a @ [LF] @ x = b @ [LF] @ y"
    by (auto dest!: append_sep_inject)
  then have "length a = length b" by simp
  with r show "a = b \<and> x = y" by simp
qed simp

lemma field_bytes_neq_Nil [simp]: "field_bytes a \<noteq> []"
  by (simp add: field_bytes_def)

lemma concat_field_bytes_inject:
  "concat (map field_bytes xs) = concat (map field_bytes ys) \<longleftrightarrow> xs = ys"
proof (induction xs arbitrary: ys)
  case Nil
  show ?case by (cases ys) auto
next
  case (Cons x xs)
  show ?case by (cases ys) (auto simp: field_bytes_inject Cons.IH)
qed

lemma concat_pairs_inject:
  "concat (map (\<lambda>(k, v). [k, v]) m) = concat (map (\<lambda>(k, v). [k, v]) m') \<longleftrightarrow> m = m'"
proof (induction m arbitrary: m')
  case Nil
  show ?case by (cases m') auto
next
  case (Cons p m)
  show ?case by (cases p; cases m') (auto simp: Cons.IH)
qed

lemma content_identity_inject:
  "content_identity t c m = content_identity t' c' m' \<longleftrightarrow> t = t' \<and> c = c' \<and> m = m'"
  unfolding content_identity_def concat_field_bytes_inject by (simp add: concat_pairs_inject)

subsection \<open>Chunk identities\<close>

lemma chunk_identity_inject:
  assumes "LF \<notin> set k" and "LF \<notin> set k'"
  shows "chunk_identity k s e t = chunk_identity k' s' e' t' \<longleftrightarrow>
    k = k' \<and> s = s' \<and> e = e' \<and> normalize_source_text t = normalize_source_text t'"
proof
  assume "chunk_identity k s e t = chunk_identity k' s' e' t'"
  then have eq: "k @ LF # (to_dec (unat s) @ CHR '':'' # (to_dec (unat e) @ LF # normalize_source_text t)) =
     k' @ LF # (to_dec (unat s') @ CHR '':'' # (to_dec (unat e') @ LF # normalize_source_text t'))"
    by (simp add: chunk_identity_def)
  from append_sep_inject [OF eq assms] have k: "k = k'"
    and r1: "to_dec (unat s) @ CHR '':'' # (to_dec (unat e) @ LF # normalize_source_text t) =
       to_dec (unat s') @ CHR '':'' # (to_dec (unat e') @ LF # normalize_source_text t')" by auto
  from append_sep_inject [OF r1] have s: "s = s'"
    and r2: "to_dec (unat e) @ LF # normalize_source_text t = to_dec (unat e') @ LF # normalize_source_text t'"
    by (auto simp: word_unat_eq_iff)
  from append_sep_inject [OF r2] have "e = e'" "normalize_source_text t = normalize_source_text t'"
    by (auto simp: word_unat_eq_iff)
  with k s show "k = k' \<and> s = s' \<and> e = e' \<and> normalize_source_text t = normalize_source_text t'" by simp
qed (simp add: chunk_identity_def)

subsection \<open>Properties\<close>

text \<open>
  C10: the document content hash is the FNV-1a value of a byte string that determines the title,
  the content and the metadata: two documents get the same hash exactly when FNV-1a itself
  collides on two different canonical encodings.
\<close>

theorem content_hash_canonical:
  "(document_content_hash t c m = document_content_hash t' c' m') =
     (fnv1a (content_identity t c m) fnv_basis = fnv1a (content_identity t' c' m') fnv_basis) \<and>
   (content_identity t c m = content_identity t' c' m') = (t = t' \<and> c = c' \<and> m = m')"
  by (simp add: document_content_hash_eq content_identity_inject)

text \<open>
  C11: a document written with CRLF, with CR or with LF line ends normalises to the same text, so
  its chunk keys do not depend on the convention; normalising twice changes nothing.
\<close>

theorem newline_convention_irrelevant:
  assumes "\<forall>l \<in> set lines. CR \<notin> set l \<and> LF \<notin> set l"
    and "nl = [CR, LF] \<or> nl = [CR] \<or> nl = [LF]"
  shows "normalize_source_text (with_newlines nl lines) = with_newlines [LF] lines \<and>
    stable_chunk_key d s e (with_newlines nl lines) = stable_chunk_key d s e (with_newlines [LF] lines) \<and>
    normalize_source_text (normalize_source_text x) = normalize_source_text x"
proof -
  have n: "normalize_source_text (with_newlines nl lines) = with_newlines [LF] lines"
    using assms(2) normalize_with_newlines [OF assms(1)] by auto
  then have "stable_chunk_key d s e (with_newlines nl lines) = stable_chunk_key d s e (with_newlines [LF] lines)"
    using normalize_with_newlines(3) [OF assms(1)] by (simp add: stable_chunk_key_def chunk_identity_def)
  with n show ?thesis by simp
qed

theorem newline_convention_irrelevant_witness:
  "normalize_source_text (with_newlines [CR, LF] [''ab'', [], ''c'']) = with_newlines [LF] [''ab'', [], ''c''] \<and>
   stable_chunk_key ''doc'' 0 2 (with_newlines [CR, LF] [''ab'', [], ''c'']) =
     stable_chunk_key ''doc'' 0 2 (with_newlines [LF] [''ab'', [], ''c''])"
  using newline_convention_irrelevant [of "[''ab'', [], ''c'']" "[CR, LF]" "''doc''" 0 2] by simp

text \<open>
  C12: for document keys without a newline the string a chunk key is hashed from identifies the
  document, the line range and the normalised text.
\<close>

theorem chunk_key_canonical:
  assumes "LF \<notin> set k" and "LF \<notin> set k'"
  shows "(stable_chunk_key k s e t = stable_chunk_key k' s' e' t') =
      (fnv1a (chunk_identity k s e t) fnv_basis = fnv1a (chunk_identity k' s' e' t') fnv_basis) \<and>
    (chunk_identity k s e t = chunk_identity k' s' e' t') =
      (k = k' \<and> s = s' \<and> e = e' \<and> normalize_source_text t = normalize_source_text t')"
  using chunk_identity_inject [OF assms] by (simp add: stable_chunk_key_def)

theorem chunk_key_canonical_witness:
  "(chunk_identity ''a.md'' 1 2 ''x'' = chunk_identity ''b.md'' 1 2 ''x'') = False"
  using chunk_key_canonical [of "''a.md''" "''b.md''" 1 2 "''x''" 1 2 "''x''"] by simp

text \<open>
  A newline in a document key breaks that: the document \<open>d\<close> with the chunk text
  \<open>1:2\<close>, newline, \<open>x\<close> at lines 0-0 and the document named \<open>d\<close>, newline, \<open>0:0\<close> with the
  text \<open>x\<close> at lines 1-2 share their chunk key although their document keys differ.
\<close>

theorem chunk_key_newline_collision:
  "stable_chunk_key ''d'' 0 0 (''1:2'' @ [LF] @ ''x'') = stable_chunk_key (''d'' @ [LF] @ ''0:0'') 1 2 ''x'' \<and>
   ''d'' \<noteq> ''d'' @ [LF] @ ''0:0''"
proof -
  have "to_dec 0 = ''0''" "to_dec 1 = ''1''" "to_dec 2 = ''2''" by code_simp+
  then show ?thesis by (simp add: stable_chunk_key_def chunk_identity_def)
qed

end
