(* ===== verification/Store_Format.thy ===== *)
theory Store_Format
  imports Core_Types
begin

text \<open>
  \<^verbatim>\<open>rag.cpp/include/rag/store/format.hpp\<close> (limits, section tags, the byte \<open>Writer\<close> and
  \<open>Reader\<close>) and the CRC-32 of \<^verbatim>\<open>rag.cpp/src/store/container.cpp\<close>. A reader is the string it
  still has to read: a read returns the value with the rest, or \<open>None\<close> where the C++ read
  returns false; every caller stops at the first false. Shown here: each read inverts its write;
  the table-driven CRC equals the bit-by-bit shift register; a checksum can be taken in parts;
  no two texts that differ in one byte share a checksum.
\<close>

unbundle bit_operations_syntax

text \<open>The file system: contents by path.\<close>

type_synonym fs = "string \<rightharpoonup> string"

subsection \<open>Limits and tags\<close>

definition kMagic :: string where
  "kMagic = ''RAGDB'' @ [CHR 0x00, CHR 0x00, CHR 0x00]"

definition kFormatMajor :: u16 where "kFormatMajor = 1"
definition kFormatMinor :: u16 where "kFormatMinor = 2"
definition kMaxSections :: nat where "kMaxSections = 64"
definition kMaxDocuments :: nat where "kMaxDocuments = 10000000"
definition kMaxChunks :: nat where "kMaxChunks = 100000000"
definition kMaxMetadataEntries :: nat where "kMaxMetadataEntries = 1000000"
definition kMaxVectorDimension :: nat where "kMaxVectorDimension = 1000000"
definition kMaxWalRecords :: nat where "kMaxWalRecords = 10000000"
definition kMaxWalRecordBytes :: nat where "kMaxWalRecordBytes = 64 * 1024 * 1024"

definition kHasHnsw :: u32 where "kHasHnsw = 1"
definition kHasEmbeddings :: u32 where "kHasEmbeddings = 2"

datatype tag = Tag_meta | Tag_docs | Tag_chunks | Tag_embed | Tag_bm25 | Tag_hnsw | Tag_tomb | Tag_runtime

fun tag_value :: "tag \<Rightarrow> u32" where
  "tag_value Tag_meta = 0x4154454D"
| "tag_value Tag_docs = 0x53434F44"
| "tag_value Tag_chunks = 0x4B4E4843"
| "tag_value Tag_embed = 0x42444D45"
| "tag_value Tag_bm25 = 0x35324D42"
| "tag_value Tag_hnsw = 0x57534E48"
| "tag_value Tag_tomb = 0x424D4F54"
| "tag_value Tag_runtime = 0x454D5452"

lemma tag_value_inject [simp]: "tag_value a = tag_value b \<longleftrightarrow> a = b"
  by (cases a; cases b; simp)

subsection \<open>Writer and Reader\<close>

definition wr_u :: "'a::len word \<Rightarrow> string" where
  "wr_u v = le_bytes (LENGTH('a) div 8) (unat v)"

definition wr_str :: "string \<Rightarrow> string" where
  "wr_str s = wr_u (of_nat (length s) :: u32) @ s"

definition rd_u :: "string \<Rightarrow> ('a::len word \<times> string) option" where
  "rd_u s =
     (let n = LENGTH('a) div 8
      in if length s < n then None else Some (of_nat (le_nat (take n s)), drop n s))"

definition rd_bytes :: "nat \<Rightarrow> string \<Rightarrow> (string \<times> string) option" where
  "rd_bytes n s = (if length s < n then None else Some (take n s, drop n s))"

definition rd_str :: "string \<Rightarrow> (string \<times> string) option" where
  "rd_str s =
     (case rd_u s of
        None \<Rightarrow> None
      | Some (n :: u32, s) \<Rightarrow> rd_bytes (unat n) s)"

lemma length_wr_u [simp]:
  "length (wr_u (v :: u8)) = 1" "length (wr_u (w :: u16)) = 2"
  "length (wr_u (x :: u32)) = 4" "length (wr_u (y :: u64)) = 8"
  by (simp_all add: wr_u_def)

lemma length_wr_str [simp]: "length (wr_str s) = 4 + length s"
  by (simp add: wr_str_def)

lemma rd_u_wr_u:
  assumes "LENGTH('a) = 8 * n"
  shows "rd_u (wr_u (v :: 'a::len word) @ s) = Some (v, s)"
proof -
  have n: "LENGTH('a) div 8 = n" using assms by simp
  have "(256::nat) ^ n = 2 ^ LENGTH('a)" by (simp add: assms power_mult)
  then have "unat v mod 256 ^ n = unat v" by simp
  then show ?thesis by (simp add: rd_u_def wr_u_def n)
qed

lemma rd_u8 [codec, simp]: "rd_u (wr_u (v :: u8) @ s) = Some (v, s)"
  by (rule rd_u_wr_u [where n = 1]) simp

lemma rd_u16 [codec, simp]: "rd_u (wr_u (v :: u16) @ s) = Some (v, s)"
  by (rule rd_u_wr_u [where n = 2]) simp

lemma rd_u32 [codec, simp]: "rd_u (wr_u (v :: u32) @ s) = Some (v, s)"
  by (rule rd_u_wr_u [where n = 4]) simp

lemma rd_u64 [codec, simp]: "rd_u (wr_u (v :: u64) @ s) = Some (v, s)"
  by (rule rd_u_wr_u [where n = 8]) simp

lemma rd_u_end [simp]: "rd_u (wr_u (x :: u32)) = Some (x, [])" "rd_u (wr_u (y :: u64)) = Some (y, [])"
  using rd_u32 [of x "[]"] rd_u64 [of y "[]"] by simp_all

lemma rd_bytes_append [codec, simp]: "rd_bytes (length a) (a @ s) = Some (a, s)"
  by (simp add: rd_bytes_def)

lemma rd_bytes_len: "length a = n \<Longrightarrow> rd_bytes n (a @ s) = Some (a, s)"
  by (simp add: rd_bytes_def)

lemma unat_of_nat_u32: "n < 2 ^ 32 \<Longrightarrow> unat (of_nat n :: u32) = n"
  by (simp add: unat_of_nat take_bit_nat_eq_self)

lemma unat_of_nat_u64: "n < 2 ^ 64 \<Longrightarrow> unat (of_nat n :: u64) = n"
  by (simp add: unat_of_nat take_bit_nat_eq_self)

lemma rd_str_wr_str [codec, simp]: "length a < 2 ^ 32 \<Longrightarrow> rd_str (wr_str a @ s) = Some (a, s)"
  by (simp add: rd_str_def wr_str_def unat_of_nat_u32)

lemma rd_u_length: "rd_u s = Some (v :: 'a::len word, r) \<Longrightarrow> length s = LENGTH('a) div 8 + length r"
  by (auto simp: rd_u_def Let_def split: if_splits)

lemma rd_u_None: "rd_u s = (None :: ('a::len word \<times> string) option) \<longleftrightarrow> length s < LENGTH('a) div 8"
  by (simp add: rd_u_def Let_def)

lemma wr_u_rd_u:
  assumes "LENGTH('a) = 8 * n" and "rd_u s = Some (v :: 'a::len word, r)"
  shows "s = wr_u v @ r"
proof -
  have n: "LENGTH('a) div 8 = n" using assms(1) by simp
  have l: "n \<le> length s" and v: "v = of_nat (le_nat (take n s))" and r: "r = drop n s"
    using assms(2) by (auto simp: rd_u_def Let_def n split: if_splits)
  have "le_nat (take n s) < 256 ^ n" using le_nat_less [of "take n s"] l by simp
  also have "(256::nat) ^ n = 2 ^ LENGTH('a)" by (simp add: assms(1) power_mult)
  finally have "unat v = le_nat (take n s)" by (simp add: v unat_of_nat take_bit_nat_eq_self)
  then have "wr_u v = take n s"
    using le_bytes_le_nat [of "take n s"] l by (simp add: wr_u_def n)
  then show ?thesis by (simp add: r)
qed

subsection \<open>CRC-32\<close>

definition crc_bit :: "u32 \<Rightarrow> u32" where
  "crc_bit current =
     (if current AND 1 \<noteq> 0 then 0xEDB88320 XOR drop_bit 1 current else drop_bit 1 current)"

definition crc_table :: "u32 list" where
  "crc_table = map (\<lambda>i. (crc_bit ^^ 8) (of_nat i)) [0..<256]"

definition crc_update :: "string \<Rightarrow> u32 \<Rightarrow> u32" where
  "crc_update data v =
     fold (\<lambda>byte v. crc_table ! unat ((v XOR of_char byte) AND 0xFF) XOR drop_bit 8 v) data v"

definition crc_finish :: "u32 \<Rightarrow> u32" where
  "crc_finish v = v XOR 0xFFFFFFFF"

definition crc32 :: "string \<Rightarrow> u32" where
  "crc32 data = crc_finish (crc_update data 0xFFFFFFFF)"

lemma crc_update_append: "crc_update (a @ b) v = crc_update b (crc_update a v)"
  by (simp add: crc_update_def)

text \<open>The shift register the table stands for, one bit of the message at a time.\<close>

definition crc_ref :: "string \<Rightarrow> u32" where
  "crc_ref data = fold (\<lambda>byte v. (crc_bit ^^ 8) (v XOR of_char byte)) data 0xFFFFFFFF XOR 0xFFFFFFFF"

lemma crc_bit_alt: "crc_bit x = drop_bit 1 x XOR (if bit x 0 then 0xEDB88320 else 0)"
proof -
  have "x AND 1 \<noteq> 0 \<longleftrightarrow> bit x 0" by (simp add: and_one_eq bit_0 odd_iff_mod_2_eq_one)
  then show ?thesis by (simp add: crc_bit_def xor.commute)
qed

lemma crc_bit_xor: "crc_bit (a XOR b) = crc_bit a XOR crc_bit b"
proof -
  have "bit (a XOR b) 0 = (bit a 0 \<noteq> bit b 0)" by (simp add: bit_xor_iff)
  then show ?thesis
    by (cases "bit a 0"; cases "bit b 0") (simp_all add: crc_bit_alt drop_bit_xor ac_simps)
qed

lemma crc_bits_xor: "(crc_bit ^^ n) (a XOR b) = (crc_bit ^^ n) a XOR (crc_bit ^^ n) b"
  by (induction n) (simp_all add: crc_bit_xor)

lemma crc_bit_push:
  assumes "k < 8" and "\<And>j. 24 \<le> j \<Longrightarrow> \<not> bit (y :: u32) j"
  shows "crc_bit (push_bit (Suc k) y) = push_bit k y"
proof (rule bit_word_eqI)
  fix i assume "i < LENGTH(32)"
  have "\<not> bit (push_bit (Suc k) y) 0" by (simp only: bit_push_bit_iff) simp
  then have "crc_bit (push_bit (Suc k) y) = drop_bit 1 (push_bit (Suc k) y)" by (simp add: crc_bit_alt)
  moreover have "\<not> bit y (31 - k)" using assms by simp
  ultimately show "bit (crc_bit (push_bit (Suc k) y)) i = bit (push_bit k y) i"
    using \<open>i < LENGTH(32)\<close>
    by (cases "i = 31") (auto simp: bit_drop_bit_eq bit_push_bit_iff simp del: push_bit_Suc)
qed

lemma crc_bits_push:
  assumes "k \<le> 8" and "\<And>j. 24 \<le> j \<Longrightarrow> \<not> bit (y :: u32) j"
  shows "(crc_bit ^^ k) (push_bit k y) = y"
  using assms(1)
proof (induction k)
  case 0
  show ?case by simp
next
  case (Suc k)
  have "(crc_bit ^^ Suc k) (push_bit (Suc k) y) = (crc_bit ^^ k) (crc_bit (push_bit (Suc k) y))"
    by (simp add: funpow_swap1)
  also have "\<dots> = (crc_bit ^^ k) (push_bit k y)"
    using Suc.prems assms(2) by (subst crc_bit_push) auto
  finally show ?case using Suc by simp
qed

lemma byte_split: "x = (x AND 0xFF) XOR push_bit 8 (drop_bit 8 (x :: u32))"
proof (rule bit_word_eqI)
  fix i assume "i < LENGTH(32)"
  have m: "(0xFF :: u32) = mask 8" by (simp add: mask_eq_exp_minus_1)
  show "bit x i = bit ((x AND 0xFF) XOR push_bit 8 (drop_bit 8 x)) i"
    using \<open>i < LENGTH(32)\<close>
    by (auto simp: m bit_xor_iff bit_and_iff bit_push_bit_iff bit_drop_bit_eq bit_mask_iff)
qed

lemma crc_table_nth: "crc_table ! unat (x AND 0xFF) = (crc_bit ^^ 8) (x AND 0xFF)"
proof -
  have "unat (x AND 0xFF) \<le> unat (0xFF :: u32)"
    by (rule word_and_le1 [THEN word_le_nat_alt [THEN iffD1]])
  then have "unat (x AND 0xFF) < 256" by simp
  then show ?thesis unfolding crc_table_def by (subst nth_map) (simp_all add: nth_upt)
qed

lemma crc_eight_bits:
  "(crc_bit ^^ 8) x = crc_table ! unat (x AND 0xFF) XOR drop_bit 8 x"
proof -
  have high: "\<not> bit (drop_bit 8 x) j" if "24 \<le> j" for j
    using that bit_imp_le_length [of x "8 + j"] by (auto simp: bit_drop_bit_eq)
  have p: "(crc_bit ^^ 8) (push_bit 8 (drop_bit 8 x)) = drop_bit 8 x"
    by (rule crc_bits_push [OF order_refl]) (rule high)
  have "(crc_bit ^^ 8) x = (crc_bit ^^ 8) ((x AND 0xFF) XOR push_bit 8 (drop_bit 8 x))"
    using byte_split [of x] by simp
  also have "\<dots> = (crc_bit ^^ 8) (x AND 0xFF) XOR drop_bit 8 x"
    by (simp only: crc_bits_xor p)
  finally show ?thesis by (simp only: crc_table_nth)
qed

lemma unat_of_char_u32: "unat (of_char c :: u32) < 256"
proof -
  have "(of_char c :: u32) = of_nat (of_char c)" by (simp add: of_nat_of_char)
  moreover have "unat (of_nat (of_char c) :: u32) = of_char c"
    by (rule unat_of_nat_u32) (rule less_trans [OF of_char_lt_256], simp)
  ultimately show ?thesis by simp
qed

lemma drop_bit_byte [simp]: "drop_bit 8 (of_char c :: u32) = 0"
  using unat_of_char_u32 [of c]
  by (simp only: word_unat_eq_iff unat_drop_bit_eq drop_bit_eq_div) (simp add: unat_div)

lemma crc_update_eq: "crc_update data v = fold (\<lambda>byte v. (crc_bit ^^ 8) (v XOR of_char byte)) data v"
  unfolding crc_update_def by (rule fold_cong) (simp_all add: crc_eight_bits)

lemma crc_bit_top: "bit (crc_bit x) 31 = bit x 0"
proof -
  have "\<not> bit (drop_bit 1 x) 31"
    using bit_imp_le_length [of x 32] by (auto simp: bit_drop_bit_eq)
  moreover have "bit (0xEDB88320 :: u32) 31" by simp
  ultimately show ?thesis by (simp add: crc_bit_alt bit_xor_iff)
qed

lemma crc_bit_inject: "crc_bit x = crc_bit y \<longleftrightarrow> x = y"
proof
  assume eq: "crc_bit x = crc_bit y"
  have zero: "bit x 0 = bit y 0" by (simp only: eq flip: crc_bit_top)
  have "drop_bit 1 x = crc_bit x XOR (if bit x 0 then 0xEDB88320 else 0)"
    and "drop_bit 1 y = crc_bit y XOR (if bit y 0 then 0xEDB88320 else 0)"
    by (simp_all add: crc_bit_alt xor.assoc)
  then have d: "drop_bit 1 x = drop_bit 1 y" using eq zero by simp
  show "x = y"
  proof (rule bit_word_eqI)
    fix i assume "i < LENGTH(32)"
    show "bit x i = bit y i"
    proof (cases i)
      case 0
      with zero show ?thesis by simp
    next
      case (Suc j)
      have "bit (drop_bit 1 x) j = bit (drop_bit 1 y) j" by (simp only: d)
      with Suc show ?thesis by (simp add: bit_drop_bit_eq)
    qed
  qed
qed simp

lemma crc_bits_inject: "(crc_bit ^^ n) x = (crc_bit ^^ n) y \<longleftrightarrow> x = y"
  by (induction n) (simp_all add: crc_bit_inject)

lemma xor_cancel_u32: "(x :: u32) XOR a = y XOR a \<longleftrightarrow> x = y"
proof
  assume "x XOR a = y XOR a"
  then have "(x XOR a) XOR a = (y XOR a) XOR a" by (rule arg_cong)
  then show "x = y" by (simp only: xor.assoc xor_self_eq xor.right_neutral)
qed simp

lemma of_char_u32_inject: "(of_char c :: u32) = of_char d \<longleftrightarrow> c = d"
proof
  assume "(of_char c :: u32) = of_char d"
  then have "unat (of_nat (of_char c) :: u32) = unat (of_nat (of_char d) :: u32)"
    by (simp add: of_nat_of_char)
  moreover have "(of_char c :: nat) < 2 ^ 32" "(of_char d :: nat) < 2 ^ 32"
    by (rule less_trans [OF of_char_lt_256], simp)+
  ultimately have "(of_char c :: nat) = of_char d" by (simp only: unat_of_nat_u32)
  then show "c = d" by simp
qed simp

lemma crc_update_inject: "crc_update s x = crc_update s y \<longleftrightarrow> x = y"
  unfolding crc_update_eq
  by (induction s arbitrary: x y) (simp_all add: crc_bits_inject xor_cancel_u32)

lemma crc32_one_byte: "c \<noteq> d \<Longrightarrow> crc32 (pre @ c # post) \<noteq> crc32 (pre @ d # post)"
proof
  assume "c \<noteq> d" and "crc32 (pre @ c # post) = crc32 (pre @ d # post)"
  then have "crc_update [c] (crc_update pre 0xFFFFFFFF) = crc_update [d] (crc_update pre 0xFFFFFFFF)"
    using crc_update_append [of pre "[c] @ post"] crc_update_append [of pre "[d] @ post"]
      crc_update_append [of "[c]" post] crc_update_append [of "[d]" post]
    by (simp add: crc32_def crc_finish_def xor_cancel_u32 crc_update_inject)
  then have "(of_char c :: u32) = of_char d"
    by (simp add: crc_update_eq crc_bits_inject xor.commute [of "fold _ pre _"] xor_cancel_u32)
  with \<open>c \<noteq> d\<close> show False by (simp add: of_char_u32_inject)
qed

subsection \<open>Properties\<close>


text \<open>No single corrupted byte goes unnoticed by the checksum, wherever it is.\<close>

theorem crc32_detects_one_byte:
  "c \<noteq> d \<Longrightarrow> crc32 (pre @ c # post) \<noteq> crc32 (pre @ d # post)"
  by (rule crc32_one_byte)

theorem crc32_detects_one_byte_witness:
  "crc32 (''pay'' @ CHR ''l'' # ''oad'') \<noteq> crc32 (''pay'' @ CHR ''1'' # ''oad'')"
  by (rule crc32_detects_one_byte) simp

subsection \<open>Checksummed frames\<close>

text \<open>
  Both append-only logs (\<^verbatim>\<open>wal.cpp\<close>, \<^verbatim>\<open>job_store.cpp\<close>) frame a payload with a magic number, its
  length and its checksum, and read the 12-byte header back from the unread rest of the log.
\<close>

definition kHeaderBytes :: nat where "kHeaderBytes = 12"

definition frame :: "u32 \<Rightarrow> string \<Rightarrow> string" where
  "frame magic payload =
     wr_u magic @ wr_u (of_nat (length payload) :: u32) @ wr_u (crc32 payload) @ payload"

definition frame_header :: "string \<Rightarrow> (u32 \<times> u32 \<times> u32) option" where
  "frame_header s =
     (case rd_u (take kHeaderBytes s) of None \<Rightarrow> None
      | Some (magic, r) \<Rightarrow> (case rd_u r of None \<Rightarrow> None
        | Some (len, r) \<Rightarrow> (case rd_u r of None \<Rightarrow> None
          | Some (crc, r) \<Rightarrow> Some (magic, len, crc))))"

lemma length_frame [simp]: "length (frame m p) = kHeaderBytes + length p"
  by (simp add: frame_def kHeaderBytes_def)

lemma frame_header_words:
  "frame_header (wr_u m @ wr_u l @ wr_u c @ s) = Some (m, l, c)"
proof -
  have "take kHeaderBytes (wr_u m @ wr_u l @ wr_u c @ s) = wr_u m @ wr_u l @ wr_u c"
    by (simp add: kHeaderBytes_def)
  then show ?thesis by (simp add: frame_header_def)
qed

lemma frame_header_frame [simp]:
  "frame_header (frame m p @ s) = Some (m, of_nat (length p), crc32 p)"
  by (simp add: frame_def frame_header_words)

lemma frame_header_total: "kHeaderBytes \<le> length s \<Longrightarrow> \<exists>m l c. frame_header s = Some (m, l, c)"
  by (auto simp: frame_header_def rd_u_def Let_def kHeaderBytes_def)

lemma take_12_eq: "take 12 a = take 12 b \<Longrightarrow> 12 \<le> length a \<Longrightarrow> frame_header a = frame_header b"
  by (simp add: frame_header_def kHeaderBytes_def)

lemma drop_frame [simp]: "drop kHeaderBytes (frame m p) = p"
  by (simp add: frame_def kHeaderBytes_def)

lemma frame_neq_Nil [simp]: "frame m p \<noteq> []"
  by (metis length_frame list.size(3) kHeaderBytes_def add_is_0 zero_neq_numeral)

lemma frame_header_cut:
  assumes "kHeaderBytes \<le> n" and "n < length (frame m p)"
  shows "frame_header (take n (frame m p)) = Some (m, of_nat (length p), crc32 p)"
    and "length (drop kHeaderBytes (take n (frame m p))) < length p"
proof -
  have "take kHeaderBytes (take n (frame m p)) = take kHeaderBytes (frame m p @ [])"
    using assms by (simp add: min_def)
  then have "frame_header (take n (frame m p)) = frame_header (frame m p @ [])"
    by (simp only: frame_header_def)
  then show "frame_header (take n (frame m p)) = Some (m, of_nat (length p), crc32 p)"
    by (simp only: frame_header_frame)
  show "length (drop kHeaderBytes (take n (frame m p))) < length p"
    using assms by simp
qed

text \<open>
  What a reader of such a log promises frame by frame, and what follows for a whole log and for a
  log cut inside its last frame. The write-ahead log and the two readers of the job log are
  instances; \<open>size\<close> counts the frames read so far, which the readers bound by \<open>cap\<close>.
\<close>

locale framed_log =
  fixes scan :: "string \<Rightarrow> 'st \<Rightarrow> 'r"
    and fr :: "'rec \<Rightarrow> string"
    and good :: "'rec \<Rightarrow> bool"
    and add :: "'rec \<Rightarrow> 'st \<Rightarrow> 'st"
    and ret :: "'st \<Rightarrow> 'r"
    and size :: "'st \<Rightarrow> nat"
    and cap :: nat
  assumes scan_frame: "good r \<Longrightarrow> size st < cap \<Longrightarrow> scan (fr r @ s) st = scan s (add r st)"
    and scan_torn: "good r \<Longrightarrow> size st < cap \<Longrightarrow> n < length (fr r) \<Longrightarrow> scan (take n (fr r)) st = ret st"
    and scan_end: "scan [] st = ret st"
    and size_add: "size (add r st) = Suc (size st)"
begin

lemma scan_log:
  "\<forall>r \<in> set rs. good r \<Longrightarrow> size st + length rs \<le> cap \<Longrightarrow>
     scan (concat (map fr rs) @ s) st = scan s (fold add rs st)"
proof (induction rs arbitrary: st)
  case (Cons r rs)
  then show ?case using scan_frame [of r st "concat (map fr rs) @ s"] by (simp add: size_add)
qed simp

lemma scan_log_torn:
  assumes "\<forall>r \<in> set rs. good r" and "good r" and "size st + length rs < cap"
  shows "scan (concat (map fr rs) @ take n (fr r)) st =
    ret (fold add (if n < length (fr r) then rs else rs @ [r]) st)"
proof -
  have sz: "size (fold add rs st) = size st + length rs" for rs
    by (induction rs arbitrary: st) (simp_all add: size_add)
  have "scan (concat (map fr rs) @ take n (fr r)) st = scan (take n (fr r)) (fold add rs st)"
    using assms by (intro scan_log) simp_all
  moreover have "scan (take n (fr r)) (fold add rs st) =
      ret (fold add (if n < length (fr r) then rs else rs @ [r]) st)"
    using assms sz [of rs] scan_torn [of r "fold add rs st" n] scan_frame [of r "fold add rs st" "[]"]
    by (simp add: scan_end)
  ultimately show ?thesis by simp
qed

end

end
