(* ===== verification/Store_Wal.thy ===== *)
theory Store_Wal
  imports Store_Format
begin

text \<open>
  \<^verbatim>\<open>rag.cpp/src/store/wal.cpp\<close> and \<^verbatim>\<open>wal.hpp\<close>: the write-ahead log of logical mutations. The
  file system is a map from paths to contents. A system call's outcome is an argument: the
  results of the \<open>write\<close> calls of one append (a list; when it is used up the kernel takes all
  that is left, so every run that ends is covered), and whether \<open>open\<close>, \<open>fsync\<close>, \<open>F_FULLFSYNC\<close>
  and \<open>ftruncate\<close> succeed. The replay loop works on the unread rest of the file instead of an
  offset. Shown here: decoding inverts encoding; replay returns what was appended; a torn final
  record is dropped and every acknowledged record survives it; a damaged acknowledged record is
  reported; and an append that fails half-way makes a later, acknowledged append unreadable.
\<close>

subsection \<open>Records and their encoding\<close>

datatype wal_op = Wal_add_document | Wal_remove_document

fun wal_op_value :: "wal_op \<Rightarrow> u8" where
  "wal_op_value Wal_add_document = 1"
| "wal_op_value Wal_remove_document = 2"

record wal_record =
  wr_op :: wal_op
  wr_uri :: string
  wr_title :: string
  wr_text :: string
  wr_meta :: metadata
  wr_doc_id :: u32

definition wal_encode :: "wal_record \<Rightarrow> string" where
  "wal_encode r =
     wr_u (wal_op_value (wr_op r)) @ wr_str (wr_uri r) @ wr_str (wr_title r) @ wr_str (wr_text r)
       @ wr_u (of_nat (length (wr_meta r)) :: u32)
       @ concat (map (\<lambda>(k, v). wr_str k @ wr_str v) (wr_meta r))
       @ wr_u (wr_doc_id r)"

fun rd_meta :: "nat \<Rightarrow> string \<Rightarrow> metadata \<Rightarrow> (metadata \<times> string) option" where
  "rd_meta 0 s m = Some (m, s)"
| "rd_meta (Suc n) s m =
     (case rd_str s of None \<Rightarrow> None
      | Some (k, s) \<Rightarrow> (case rd_str s of None \<Rightarrow> None
        | Some (v, s) \<Rightarrow> rd_meta n s (fst (omap_emplace k v m))))"

definition wal_decode :: "string \<Rightarrow> wal_record option" where
  "wal_decode payload =
     (case rd_u payload of None \<Rightarrow> None
      | Some (op, s) \<Rightarrow>
        (if op \<noteq> wal_op_value Wal_add_document \<and> op \<noteq> wal_op_value Wal_remove_document then None
         else case rd_str s of None \<Rightarrow> None
         | Some (uri, s) \<Rightarrow> (case rd_str s of None \<Rightarrow> None
         | Some (title, s) \<Rightarrow> (case rd_str s of None \<Rightarrow> None
         | Some (text, s) \<Rightarrow> (case rd_u s of None \<Rightarrow> None
         | Some (n :: u32, s) \<Rightarrow>
           (if unat n > kMaxMetadataEntries \<or> unat n > length s div 8 then None
            else case rd_meta (unat n) s [] of None \<Rightarrow> None
            | Some (meta, s) \<Rightarrow> (case rd_u s of None \<Rightarrow> None
            | Some (did, s) \<Rightarrow>
              (if s \<noteq> [] then None
               else Some \<lparr>wr_op = (if op = wal_op_value Wal_add_document then Wal_add_document
                                      else Wal_remove_document),
                          wr_uri = uri, wr_title = title, wr_text = text, wr_meta = meta,
                          wr_doc_id = did\<rparr>))))))))"

subsection \<open>The log object\<close>

datatype sync_mode = Sync_none | Sync_flush | Sync_full

datatype write_outcome = Wrote nat | Interrupted | Write_error string

record os =
  os_open :: "string option"        \<comment> \<open>the error of \<open>open(2)\<close>, if it fails\<close>
  os_writes :: "write_outcome list" \<comment> \<open>the results of successive \<open>write(2)\<close> calls\<close>
  os_fullfsync :: bool              \<comment> \<open>\<open>F_FULLFSYNC\<close> exists and succeeds\<close>
  os_fsync :: bool                  \<comment> \<open>\<open>fsync(2)\<close> succeeds\<close>
  os_truncate :: "string option"    \<comment> \<open>the error of \<open>ftruncate(2)\<close>, if it fails\<close>

record wal =
  wal_open :: bool
  wal_path :: string
  wal_mode :: sync_mode
  wal_bytes :: u64

definition wal_init :: wal where
  "wal_init = \<lparr>wal_open = False, wal_path = [], wal_mode = Sync_flush, wal_bytes = 0\<rparr>"

definition wal_close :: "wal \<Rightarrow> wal" where
  "wal_close w = w\<lparr>wal_open := False, wal_bytes := 0\<rparr>"

definition wal_open_file :: "os \<Rightarrow> string \<Rightarrow> sync_mode \<Rightarrow> wal \<Rightarrow> fs \<Rightarrow> unit result \<times> wal \<times> fs" where
  "wal_open_file os path mode w fs =
     (let w = wal_close w
      in case os_open os of
           Some e \<Rightarrow> (fail Errc_io_error (''wal open '' @ path @ '': '' @ e), w, fs)
         | None \<Rightarrow>
             (let content = (case fs path of None \<Rightarrow> [] | Some c \<Rightarrow> c)
              in (Inr (),
                  w\<lparr>wal_open := True, wal_path := path, wal_mode := mode,
                    wal_bytes := of_nat (length content)\<rparr>,
                  fs(path \<mapsto> content))))"

definition sync_now :: "os \<Rightarrow> sync_mode \<Rightarrow> unit result" where
  "sync_now os mode =
     (case mode of
        Sync_none \<Rightarrow> Inr ()
      | Sync_flush \<Rightarrow> (if \<not> os_fsync os then fail Errc_io_error ''wal fsync'' else Inr ())
      | Sync_full \<Rightarrow>
          (if os_fullfsync os then Inr ()
           else if \<not> os_fsync os then fail Errc_io_error ''wal fsync'' else Inr ()))"

fun write_loop :: "write_outcome list \<Rightarrow> string \<Rightarrow> string \<Rightarrow> string \<times> string option" where
  "write_loop [] rest file = (file @ rest, None)"
| "write_loop (w # ws) rest file =
     (if rest = [] then (file, None)
      else case w of
        Write_error e \<Rightarrow> (file, Some e)
      | Interrupted \<Rightarrow> write_loop ws rest file
      | Wrote n \<Rightarrow> write_loop ws (drop n rest) (file @ take n rest))"

definition kRecordMagic :: u32 where "kRecordMagic = 0x524C4157"

definition wal_append :: "os \<Rightarrow> wal_record \<Rightarrow> wal \<Rightarrow> fs \<Rightarrow> unit result \<times> wal \<times> fs" where
  "wal_append os rec w fs =
     (if \<not> wal_open w then (fail Errc_io_error ''wal not open'', w, fs)
      else
        let payload = wal_encode rec in
        if length payload > kMaxWalRecordBytes \<or> length payload > 0xFFFFFFFF
        then (fail Errc_invalid_argument ''wal record exceeds configured limit'', w, fs)
        else
          let fr = frame kRecordMagic payload;
              (file, err) = write_loop (os_writes os) fr (case fs (wal_path w) of None \<Rightarrow> [] | Some c \<Rightarrow> c);
              fs = fs(wal_path w \<mapsto> file)
          in case err of
               Some e \<Rightarrow> (fail Errc_io_error (''wal write: '' @ e), w, fs)
             | None \<Rightarrow>
                 (case sync_now os (wal_mode w) of
                    Inl e \<Rightarrow> (Inl e, w, fs)
                  | Inr _ \<Rightarrow> (Inr (), w\<lparr>wal_bytes := wal_bytes w + of_nat (length fr)\<rparr>, fs)))"

function replay_loop :: "string \<Rightarrow> wal_record list \<Rightarrow> wal_record list result" where
  "replay_loop s out =
     (if length s < kHeaderBytes then Inr out
      else if length out \<ge> kMaxWalRecords then fail Errc_corrupt_index ''wal: record limit exceeded''
      else case frame_header s of
        None \<Rightarrow> Inr out
      | Some (magic, len, crc) \<Rightarrow>
        (if magic \<noteq> kRecordMagic then fail Errc_corrupt_index ''wal: bad record magic''
         else if unat len > kMaxWalRecordBytes then fail Errc_corrupt_index ''wal: record too large''
         else
           let body = drop kHeaderBytes s in
           if unat len > length body then Inr out
           else
             let payload = take (unat len) body; rest = drop (unat len) body in
             if crc32 payload \<noteq> crc
             then (if rest = [] then Inr out
                   else fail Errc_corrupt_index ''wal: record crc mismatch'')
             else case wal_decode payload of
               None \<Rightarrow> (if rest = [] then Inr out
                        else fail Errc_corrupt_index ''wal: undecodable record'')
             | Some rec \<Rightarrow> replay_loop rest (out @ [rec])))"
  by pat_completeness auto
termination
  by (relation "measure (\<lambda>(s, out). length s)") (auto simp: kHeaderBytes_def)

declare replay_loop.simps [simp del]

definition wal_replay :: "string \<Rightarrow> fs \<Rightarrow> wal_record list result" where
  "wal_replay path fs = (case fs path of None \<Rightarrow> Inr [] | Some blob \<Rightarrow> replay_loop blob [])"

definition wal_truncate :: "os \<Rightarrow> wal \<Rightarrow> fs \<Rightarrow> unit result \<times> wal \<times> fs" where
  "wal_truncate os w fs =
     (if \<not> wal_open w then (fail Errc_io_error ''wal not open'', w, fs)
      else case os_truncate os of
        Some e \<Rightarrow> (fail Errc_io_error (''wal truncate: '' @ e), w, fs)
      | None \<Rightarrow>
          (let fs = fs(wal_path w \<mapsto> [])
           in case sync_now os (wal_mode w) of
                Inl e \<Rightarrow> (Inl e, w, fs)
              | Inr _ \<Rightarrow> (Inr (), w\<lparr>wal_bytes := 0\<rparr>, fs)))"

subsection \<open>Decoding inverts encoding\<close>

definition wal_record_wf :: "wal_record \<Rightarrow> bool" where
  "wal_record_wf r \<longleftrightarrow>
     omap_wf (wr_meta r) \<and> length (wr_meta r) \<le> kMaxMetadataEntries \<and>
     length (wal_encode r) \<le> kMaxWalRecordBytes"

lemma length_meta_bytes: "8 * length m \<le> length (concat (map (\<lambda>(k, v). wr_str k @ wr_str v) m))"
  by (induction m) auto

lemma meta_strings_short:
  "(k, v) \<in> set m \<Longrightarrow>
     length k \<le> length (concat (map (\<lambda>(k, v). wr_str k @ wr_str v) m)) \<and>
     length v \<le> length (concat (map (\<lambda>(k, v). wr_str k @ wr_str v) m))"
  by (induction m) fastforce+

lemma rd_meta_append:
  assumes "omap_wf (acc @ m)" and "\<forall>(k, v) \<in> set m. length k < 2 ^ 32 \<and> length v < 2 ^ 32"
  shows "rd_meta (length m) (concat (map (\<lambda>(k, v). wr_str k @ wr_str v) m) @ s) acc = Some (acc @ m, s)"
  using assms
proof (induction m arbitrary: acc)
  case Nil
  then show ?case by simp
next
  case (Cons p m)
  obtain k v where p: "p = (k, v)" by force
  have above: "\<forall>q \<in> set acc. fst q < k"
    using Cons.prems(1) p by (auto simp: omap_wf_def sorted_wrt_append)
  then have "map_of acc k = None" by (auto simp: map_of_eq_None_iff)
  with above have "fst (omap_emplace k v acc) = acc @ [(k, v)]"
    by (simp add: omap_emplace_def omap_put_above)
  with Cons p show ?case by simp
qed

lemma wal_encode_fields:
  assumes "length (wal_encode r) \<le> kMaxWalRecordBytes"
  shows "length (wr_uri r) < 2 ^ 32" "length (wr_title r) < 2 ^ 32" "length (wr_text r) < 2 ^ 32"
    and "length (wr_meta r) < 2 ^ 32"
    and "\<forall>(k, v) \<in> set (wr_meta r). length k < 2 ^ 32 \<and> length v < 2 ^ 32"
proof -
  let ?m = "concat (map (\<lambda>(k, v). wr_str k @ wr_str v) (wr_meta r))"
  have l: "length (wr_uri r) + length (wr_title r) + length (wr_text r) + length ?m < 2 ^ 32"
    using assms by (simp add: wal_encode_def kMaxWalRecordBytes_def)
  then show "length (wr_uri r) < 2 ^ 32" "length (wr_title r) < 2 ^ 32" "length (wr_text r) < 2 ^ 32"
    by linarith+
  show "length (wr_meta r) < 2 ^ 32" using l length_meta_bytes [of "wr_meta r"] by linarith
  show "\<forall>(k, v) \<in> set (wr_meta r). length k < 2 ^ 32 \<and> length v < 2 ^ 32"
    using l meta_strings_short [of _ _ "wr_meta r"] by fastforce
qed

lemma wal_decode_encode:
  assumes "wal_record_wf r"
  shows "wal_decode (wal_encode r) = Some r"
proof -
  have f: "length (wal_encode r) \<le> kMaxWalRecordBytes" and o: "omap_wf (wr_meta r)"
    and k: "length (wr_meta r) \<le> kMaxMetadataEntries"
    using assms by (auto simp: wal_record_wf_def)
  note short = wal_encode_fields [OF f]
  have n: "unat (of_nat (length (wr_meta r)) :: u32) = length (wr_meta r)"
    using short(4) by (rule unat_of_nat_u32)
  have meta: "rd_meta (length (wr_meta r))
      (concat (map (\<lambda>(k, v). wr_str k @ wr_str v) (wr_meta r)) @ wr_u (wr_doc_id r)) [] =
        Some (wr_meta r, wr_u (wr_doc_id r))"
    using rd_meta_append [of "[]" "wr_meta r" "wr_u (wr_doc_id r)"] o short(5) by simp
  have room: "length (wr_meta r) \<le>
      length (concat (map (\<lambda>(k, v). wr_str k @ wr_str v) (wr_meta r)) @ wr_u (wr_doc_id r)) div 8"
    using length_meta_bytes [of "wr_meta r"] by simp
  show ?thesis
    using short(1-3) k room
    by (cases "wr_op r") (simp_all add: wal_decode_def wal_encode_def n meta)
qed

subsection \<open>Replay\<close>

definition wal_frame :: "wal_record \<Rightarrow> string" where
  "wal_frame r = frame kRecordMagic (wal_encode r)"

definition wal_log :: "wal_record list \<Rightarrow> string" where
  "wal_log rs = concat (map wal_frame rs)"

lemma wal_wf_length:
  assumes "wal_record_wf r"
  shows "unat (of_nat (length (wal_encode r)) :: u32) = length (wal_encode r)"
    and "\<not> kMaxWalRecordBytes < length (wal_encode r)"
  using assms by (auto simp: wal_record_wf_def kMaxWalRecordBytes_def intro!: unat_of_nat_u32)

lemma replay_frame:
  assumes "wal_record_wf r" and "length out < kMaxWalRecords"
  shows "replay_loop (wal_frame r @ s) out = replay_loop s (out @ [r])"
proof -
  have "\<not> length (wal_frame r @ s) < kHeaderBytes" by (simp add: wal_frame_def)
  then show ?thesis
    using assms wal_wf_length [OF assms(1)] wal_decode_encode [OF assms(1)]
    by (subst replay_loop.simps) (simp add: wal_frame_def Let_def)
qed

lemma replay_short: "length s < kHeaderBytes \<Longrightarrow> replay_loop s out = Inr out"
  by (subst replay_loop.simps) simp

lemma replay_torn:
  assumes "wal_record_wf r" and "length out < kMaxWalRecords" and "n < length (wal_frame r)"
  shows "replay_loop (take n (wal_frame r)) out = Inr out"
proof (cases "n < kHeaderBytes")
  case True
  then show ?thesis by (intro replay_short) simp
next
  case False
  let ?s = "take n (wal_frame r)"
  have h: "frame_header ?s = Some (kRecordMagic, of_nat (length (wal_encode r)), crc32 (wal_encode r))"
    and b: "length (drop kHeaderBytes ?s) < length (wal_encode r)"
    using frame_header_cut [of n kRecordMagic "wal_encode r"] False assms(3)
    by (simp_all add: wal_frame_def)
  have "\<not> length ?s < kHeaderBytes" using False assms(3) by simp
  then show ?thesis
    using assms(2) h b wal_wf_length [OF assms(1)]
    by (subst replay_loop.simps) (simp add: Let_def)
qed

interpretation wl: framed_log replay_loop wal_frame wal_record_wf "\<lambda>r out. out @ [r]" Inr length kMaxWalRecords
  by unfold_locales (simp_all add: replay_frame replay_torn replay_short kHeaderBytes_def)

lemma fold_snoc: "fold (\<lambda>r out. out @ [r]) rs out = out @ rs"
  by (induction rs arbitrary: out) simp_all

lemma replay_log:
  "\<forall>r \<in> set rs. wal_record_wf r \<Longrightarrow> length out + length rs \<le> kMaxWalRecords \<Longrightarrow>
     replay_loop (wal_log rs @ s) out = replay_loop s (out @ rs)"
  using wl.scan_log [of rs out s] by (simp add: wal_log_def fold_snoc)

lemma replay_log_torn:
  "\<forall>r \<in> set rs. wal_record_wf r \<Longrightarrow> wal_record_wf r \<Longrightarrow> length rs < kMaxWalRecords \<Longrightarrow>
     replay_loop (wal_log rs @ take n (wal_frame r)) [] =
       Inr (if n < length (wal_frame r) then rs else rs @ [r])"
  using wl.scan_log_torn [of rs r "[]" n] by (simp add: wal_log_def fold_snoc)

lemma write_loop_prefix:
  "\<exists>n. fst (write_loop ws rest f) = f @ take n rest \<and>
     (snd (write_loop ws rest f) = None \<longrightarrow> length rest \<le> n)"
proof (induction ws rest f rule: write_loop.induct)
  case (1 rest f)
  show ?case by (rule exI [of _ "length rest"]) simp
next
  case (2 w ws rest f)
  show ?case
  proof (cases "rest = []")
    case True
    then show ?thesis by simp
  next
    case ne: False
    show ?thesis
    proof (cases w)
      case (Wrote k)
      with 2(1) ne obtain n where
        "fst (write_loop ws (drop k rest) (f @ take k rest)) = (f @ take k rest) @ take n (drop k rest)"
        "snd (write_loop ws (drop k rest) (f @ take k rest)) = None \<longrightarrow> length (drop k rest) \<le> n"
        by blast
      with Wrote ne show ?thesis by (intro exI [of _ "k + n"]) (auto simp: take_add)
    next
      case Interrupted
      with 2(2) ne show ?thesis by simp
    next
      case (Write_error e)
      with ne show ?thesis by (intro exI [of _ 0]) simp
    qed
  qed
qed

subsection \<open>Properties\<close>

text \<open>
  C1: crash safety of the log. Take a log that holds the records \<open>rs\<close> and append \<open>r\<close> with
  any outcome of the system calls. Cutting the file anywhere inside the new record, as a crash
  does, leaves exactly \<open>rs\<close> to replay; whatever the append returned, replay gives \<open>rs\<close> or
  \<open>rs\<close> with \<open>r\<close>; and if the append was acknowledged it gives \<open>rs\<close> with \<open>r\<close>.
\<close>

theorem wal_append_crash_safe:
  assumes "\<forall>r \<in> set rs. wal_record_wf r" and "wal_record_wf r" and "length rs < kMaxWalRecords"
    and "wal_open w" and "fs (wal_path w) = Some (wal_log rs)"
    and "wal_append os r w fs = (res, w', fs')"
  shows "replay_loop (wal_log rs @ take n (wal_frame r)) [] =
      Inr (if n < length (wal_frame r) then rs else rs @ [r]) \<and>
    wal_replay (wal_path w) fs' \<in> {Inr rs, Inr (rs @ [r])} \<and>
    (has_value res \<longrightarrow> wal_replay (wal_path w) fs' = Inr (rs @ [r]))"
proof -
  let ?wl = "write_loop (os_writes os) (wal_frame r) (wal_log rs)"
  have small: "\<not> (length (wal_encode r) > kMaxWalRecordBytes \<or> length (wal_encode r) > 0xFFFFFFFF)"
    using assms(2) by (auto simp: wal_record_wf_def kMaxWalRecordBytes_def)
  from write_loop_prefix [of "os_writes os" "wal_frame r" "wal_log rs"]
  obtain k where kk: "fst ?wl = wal_log rs @ take k (wal_frame r) \<and>
    (snd ?wl = None \<longrightarrow> length (wal_frame r) \<le> k)" ..
  note k = conjunct1 [OF kk] conjunct2 [OF kk]
  have fs': "fs' (wal_path w) = Some (fst ?wl)" and ok: "has_value res \<Longrightarrow> snd ?wl = None"
    using assms(4-6) small
    by (auto simp: wal_append_def wal_frame_def Let_def split: prod.splits option.splits sum.splits)
  have rep: "wal_replay (wal_path w) fs' = Inr (if k < length (wal_frame r) then rs else rs @ [r])"
    using fs' k(1) replay_log_torn [OF assms(1-3), of k] by (simp add: wal_replay_def)
  show ?thesis
    using replay_log_torn [OF assms(1-3), of n] rep k(2) ok by (auto split: if_splits)
qed

definition wal_sample :: wal_record where
  "wal_sample = \<lparr>wr_op = Wal_add_document, wr_uri = ''a'', wr_title = [], wr_text = ''hi'',
     wr_meta = [(''k'', ''v'')], wr_doc_id = 0\<rparr>"

definition os_ok :: os where
  "os_ok = \<lparr>os_open = None, os_writes = [], os_fullfsync = True, os_fsync = True, os_truncate = None\<rparr>"

definition wal_at :: "string \<Rightarrow> wal" where
  "wal_at p = \<lparr>wal_open = True, wal_path = p, wal_mode = Sync_full, wal_bytes = 0\<rparr>"

lemma wal_sample_wf: "wal_record_wf wal_sample"
  by (simp add: wal_record_wf_def wal_sample_def wal_encode_def omap_wf_def kMaxMetadataEntries_def
      kMaxWalRecordBytes_def)

lemma wal_sample_small:
  "\<not> (length (wal_encode wal_sample) > kMaxWalRecordBytes \<or> length (wal_encode wal_sample) > 0xFFFFFFFF)"
  using wal_sample_wf by (simp add: wal_record_wf_def kMaxWalRecordBytes_def)

theorem wal_append_crash_safe_witness:
  "wal_replay ''log'' (snd (snd (wal_append os_ok wal_sample (wal_at ''log'') [''log'' \<mapsto> wal_log []])))
     = Inr [wal_sample]"
proof -
  let ?r = "wal_append os_ok wal_sample (wal_at ''log'') [''log'' \<mapsto> wal_log []]"
  have ok: "has_value (fst ?r)"
    using wal_sample_small by (simp add: wal_append_def wal_at_def os_ok_def sync_now_def Let_def)
  have "has_value (fst ?r) \<longrightarrow>
      wal_replay (wal_path (wal_at ''log'')) (snd (snd ?r)) = Inr ([] @ [wal_sample])"
    using wal_append_crash_safe [of "[]" wal_sample "wal_at ''log''" "[''log'' \<mapsto> wal_log []]" os_ok
        "fst ?r" "fst (snd ?r)" "snd (snd ?r)" 0] wal_sample_wf
    by (simp add: kMaxWalRecords_def wal_at_def)
  with ok show ?thesis by (simp add: wal_at_def)
qed

text \<open>
  C5: an acknowledged record whose payload was damaged in one byte, with more log behind it, is
  never replayed and never silently dropped: replay fails with \<open>corrupt_index\<close>.
\<close>

theorem wal_damaged_record_reported:
  assumes "\<forall>r \<in> set rs. wal_record_wf r" and "wal_record_wf r" and "length rs < kMaxWalRecords"
    and "wal_encode r = pre @ c # post" and "c \<noteq> d" and "s \<noteq> []"
  shows "failed_with Errc_corrupt_index
    (replay_loop (wal_log rs @ take kHeaderBytes (wal_frame r) @ (pre @ d # post) @ s) [])"
proof -
  let ?p = "pre @ d # post"
  have len: "length ?p = length (wal_encode r)" using assms(4) by simp
  have head: "take kHeaderBytes (wal_frame r) =
      wr_u kRecordMagic @ wr_u (of_nat (length (wal_encode r)) :: u32) @ wr_u (crc32 (wal_encode r))"
    by (simp add: wal_frame_def frame_def kHeaderBytes_def)
  have hdr: "frame_header (take kHeaderBytes (wal_frame r) @ ?p @ s) =
      Some (kRecordMagic, of_nat (length (wal_encode r)), crc32 (wal_encode r))"
    by (simp only: head append_assoc frame_header_words)
  have tail: "drop kHeaderBytes (take kHeaderBytes (wal_frame r) @ ?p @ s) = ?p @ s"
    by (simp add: wal_frame_def)
  have crc: "crc32 ?p \<noteq> crc32 (wal_encode r)"
    using crc32_one_byte [of d c pre post] assms(4,5) by auto
  have tk: "take (length (wal_encode r)) (?p @ s) = ?p" "drop (length (wal_encode r)) (?p @ s) = s"
    by (rule take_len_append [OF len], rule drop_len_append [OF len])
  have "failed_with Errc_corrupt_index (replay_loop (take kHeaderBytes (wal_frame r) @ ?p @ s) rs)"
    using assms(3,6) wal_wf_length [OF assms(2)] len crc
    by (subst replay_loop.simps, simp only: hdr tail Let_def option.case prod.case)
      (simp add: wal_frame_def tk del: append_assoc append_Cons)
  then show ?thesis using replay_log [OF assms(1), of "[]"] assms(3) by simp
qed

theorem wal_damaged_record_reported_witness:
  "failed_with Errc_corrupt_index
    (replay_loop (wal_log [] @ take kHeaderBytes (wal_frame wal_sample)
       @ ([] @ CHR ''x'' # tl (wal_encode wal_sample)) @ ''more'') [])"
proof (rule wal_damaged_record_reported)
  show "wal_encode wal_sample = [] @ char_of (1::nat) # tl (wal_encode wal_sample)"
    by (simp add: wal_encode_def wal_sample_def wr_u_def)
  show "char_of (1::nat) \<noteq> CHR ''x''" by code_simp
qed (simp_all add: wal_sample_wf kMaxWalRecords_def)



text \<open>
  Truncation is the only way the log shrinks, and it empties it: after an acknowledged
  truncate there is nothing to replay and the log counts zero bytes, and reopening a log at the
  same path counts exactly the bytes the file holds.
\<close>

theorem wal_truncate_empties:
  assumes "wal_truncate os w fs = (Inr (), w', fs')"
  shows "wal_replay (wal_path w') fs' = Inr [] \<and> wal_bytes w' = 0 \<and> wal_path w' = wal_path w \<and>
    (os_open os' = None \<longrightarrow>
      wal_open_file os' (wal_path w) mode w' fs' =
        (Inr (), w'\<lparr>wal_open := True, wal_path := wal_path w, wal_mode := mode, wal_bytes := 0\<rparr>, fs'))"
proof -
  have w': "w' = w\<lparr>wal_bytes := 0\<rparr>" and fs': "fs' = fs(wal_path w \<mapsto> [])"
    using assms
    by (auto simp: wal_truncate_def Let_def fail_def split: if_splits option.splits sum.splits)
  then show ?thesis
    by (simp add: wal_replay_def replay_short kHeaderBytes_def wal_open_file_def wal_close_def Let_def
        fun_upd_idem)
qed

theorem wal_truncate_empties_witness:
  "wal_replay ''log'' (snd (snd (wal_truncate os_ok (wal_at ''log'') [''log'' \<mapsto> wal_log [wal_sample]]))) = Inr []"
proof -
  have "wal_truncate os_ok (wal_at ''log'') [''log'' \<mapsto> wal_log [wal_sample]] =
      (Inr (), wal_at ''log'', [''log'' \<mapsto> []])"
    by (simp add: wal_truncate_def wal_at_def os_ok_def sync_now_def Let_def)
  from wal_truncate_empties [OF this] this show ?thesis by (simp add: wal_at_def)
qed

end
