(* ===== verification/Store_Container.thy ===== *)
theory Store_Container
  imports Store_Format Core_Keys
begin

text \<open>
  \<^verbatim>\<open>rag.cpp/src/store/container.cpp\<close>, \<^verbatim>\<open>container_layout.cpp\<close>, \<^verbatim>\<open>container_view.cpp\<close> and their
  headers: the sectioned \<^verbatim>\<open>.ragdb\<close> file. \<open>std::sort\<close> is not stable, so the layout check takes
  the sorting routine as an argument; what is assumed of it is what the standard promises
  (\<open>std_sort_spec\<close>). Writing a file is modelled with every intermediate file-system state.
  Shown here: a layout that is accepted has distinct tags and sections that lie inside the file
  and do not overlap; parsing inverts serialising; the streaming writer produces the serialised
  bytes; any damaged byte is reported; replacing a file is atomic; and a container with an empty
  section may be rejected by its own reader.
\<close>

subsection \<open>The container\<close>

record container =
  ct_sections :: "(u32 \<times> string) list"
  ct_flags :: u32
  ct_major :: u16
  ct_minor :: u16

definition container_new :: container where
  "container_new = \<lparr>ct_sections = [], ct_flags = 0, ct_major = kFormatMajor, ct_minor = kFormatMinor\<rparr>"

definition container_put_raw :: "u32 \<Rightarrow> string \<Rightarrow> container \<Rightarrow> container" where
  "container_put_raw tag payload c = c\<lparr>ct_sections := omap_put tag payload (ct_sections c)\<rparr>"

definition container_put :: "tag \<Rightarrow> string \<Rightarrow> container \<Rightarrow> container" where
  "container_put tag payload c = c\<lparr>ct_sections := omap_put (tag_value tag) payload (ct_sections c)\<rparr>"

definition container_get :: "tag \<Rightarrow> container \<Rightarrow> string option" where
  "container_get tag c = map_of (ct_sections c) (tag_value tag)"

definition container_has :: "tag \<Rightarrow> container \<Rightarrow> bool" where
  "container_has tag c = (map_of (ct_sections c) (tag_value tag) \<noteq> None)"

definition container_set_flags :: "u32 \<Rightarrow> container \<Rightarrow> container" where
  "container_set_flags f c = c\<lparr>ct_flags := f\<rparr>"

definition header_bytes :: "container \<Rightarrow> string" where
  "header_bytes c =
     kMagic @ wr_u (ct_major c) @ wr_u (ct_minor c) @ wr_u (ct_flags c)
       @ wr_u (of_nat (length (ct_sections c)) :: u32) @ wr_u (0 :: u64)"

fun table_bytes :: "u64 \<Rightarrow> (u32 \<times> string) list \<Rightarrow> string" where
  "table_bytes cursor [] = []"
| "table_bytes cursor ((tag, payload) # ss) =
     wr_u tag @ wr_u cursor @ wr_u (of_nat (length payload) :: u64)
       @ table_bytes (cursor + of_nat (length payload)) ss"

definition first_cursor :: "container \<Rightarrow> u64" where
  "first_cursor c = 28 + 20 * of_nat (length (ct_sections c))"

definition serialize :: "container \<Rightarrow> string" where
  "serialize c =
     (let w = header_bytes c @ table_bytes (first_cursor c) (ct_sections c)
                @ concat (map snd (ct_sections c))
      in w @ wr_u (crc32 w))"

subsection \<open>Layout validation\<close>

record section_range =
  sr_tag :: u32
  sr_offset :: u64
  sr_length :: u64

record layout =
  lay_major :: u16
  lay_minor :: u16
  lay_flags :: u32
  lay_sections :: "section_range list"

fun rd_table :: "nat \<Rightarrow> string \<Rightarrow> u32 list \<Rightarrow> section_range list \<Rightarrow> section_range list result" where
  "rd_table 0 s tags acc = Inr acc"
| "rd_table (Suc n) s tags acc =
     (case rd_u s of None \<Rightarrow> fail Errc_corrupt_index ''section table''
      | Some (tag, s) \<Rightarrow> (case rd_u s of None \<Rightarrow> fail Errc_corrupt_index ''section table''
      | Some (offset, s) \<Rightarrow> (case rd_u s of None \<Rightarrow> fail Errc_corrupt_index ''section table''
      | Some (len, s) \<Rightarrow>
          (if tag \<in> set tags then fail Errc_corrupt_index ''duplicate section''
           else rd_table n s (tag # tags)
                  (acc @ [\<lparr>sr_tag = tag, sr_offset = offset, sr_length = len\<rparr>])))))"

fun check_sections :: "u64 \<Rightarrow> u64 \<Rightarrow> u64 \<Rightarrow> section_range list \<Rightarrow> unit result" where
  "check_sections payload_begin payload_end previous_end [] = Inr ()"
| "check_sections payload_begin payload_end previous_end (x # xs) =
     (if sr_offset x < payload_begin \<or> sr_offset x > payload_end
         \<or> sr_length x > payload_end - sr_offset x
      then fail Errc_corrupt_index ''section out of bounds''
      else if sr_offset x < previous_end then fail Errc_corrupt_index ''overlapping sections''
      else check_sections payload_begin payload_end (sr_offset x + sr_length x) xs)"

definition validate_container_layout ::
    "(section_range list \<Rightarrow> section_range list) \<Rightarrow> string \<Rightarrow> layout result" where
  "validate_container_layout std_sort bytes =
     (if length bytes < 28 + 4 then fail Errc_corrupt_index ''too short''
      else
        let body = take (length bytes - 4) bytes in
        and_then (require (rd_u (drop (length body) bytes)) Errc_corrupt_index ''too short'') (\<lambda>(stored_crc, _).
        if crc32 body \<noteq> stored_crc then fail Errc_corrupt_index ''crc mismatch''
        else and_then (require (rd_bytes 8 bytes) Errc_corrupt_index ''bad magic'') (\<lambda>(magic, s).
        if magic \<noteq> kMagic then fail Errc_corrupt_index ''bad magic''
        else and_then (require (rd_u s) Errc_corrupt_index ''version'') (\<lambda>(major, s).
        and_then (require (rd_u s) Errc_corrupt_index ''version'') (\<lambda>(minor, s).
        if major \<noteq> kFormatMajor
        then fail Errc_corrupt_index
               (''unsupported format major '' @ to_dec (unat major) @ '' (reader supports ''
                  @ to_dec (unat kFormatMajor) @ '')'')
        else and_then (require (rd_u s) Errc_corrupt_index ''header'') (\<lambda>(flags, s).
        and_then (require (rd_u s) Errc_corrupt_index ''header'') (\<lambda>(count :: u32, s).
        and_then (require (rd_u s) Errc_corrupt_index ''header'') (\<lambda>(reserved :: u64, s).
        if unat count > kMaxSections \<or> unat count > (length bytes - 28 - 4) div 20
        then fail Errc_corrupt_index ''invalid section count''
        else and_then (rd_table (unat count) s [] []) (\<lambda>table.
          let payload_begin = of_nat (28 + 20 * unat count);
              payload_end = of_nat (length bytes - 4);
              sections = std_sort table
          in and_then (check_sections payload_begin payload_end payload_begin sections) (\<lambda>_.
               Inr \<lparr>lay_major = major, lay_minor = minor, lay_flags = flags,
                    lay_sections = sections\<rparr>))))))))))"

definition section_bytes :: "string \<Rightarrow> section_range \<Rightarrow> string" where
  "section_bytes blob x = take (unat (sr_length x)) (drop (unat (sr_offset x)) blob)"

definition container_parse :: "(section_range list \<Rightarrow> section_range list) \<Rightarrow> string \<Rightarrow> container result" where
  "container_parse std_sort blob =
     and_then (validate_container_layout std_sort blob) (\<lambda>lay.
       Inr \<lparr>ct_sections = fold (\<lambda>(k, v). omap_put k v)
               (map (\<lambda>x. (sr_tag x, section_bytes blob x)) (lay_sections lay)) [],
            ct_flags = lay_flags lay, ct_major = lay_major lay, ct_minor = lay_minor lay\<rparr>)"

definition std_sort_spec :: "(section_range list \<Rightarrow> section_range list) \<Rightarrow> bool" where
  "std_sort_spec f \<longleftrightarrow> (\<forall>xs. mset (f xs) = mset xs \<and> sorted (map sr_offset (f xs)))"

subsection \<open>The memory-mapped view\<close>

record view =
  vw_data :: string
  vw_layout :: layout

text \<open>What \<open>open\<close>, \<open>fstat\<close> and \<open>mmap\<close> report: \<open>None\<close>, or the text of \<open>strerror(errno)\<close>.\<close>

record view_env =
  ve_open :: "string option"
  ve_fstat :: "string option"
  ve_mmap :: "string option"

definition view_open_file ::
    "view_env \<Rightarrow> (section_range list \<Rightarrow> section_range list) \<Rightarrow> string \<Rightarrow> fs \<Rightarrow> view result" where
  "view_open_file env std_sort path fs =
     (case (ve_open env, fs path) of
        (Some e, _) \<Rightarrow> fail Errc_io_error (''open '' @ path @ '': '' @ e)
      | (None, None) \<Rightarrow> fail Errc_io_error (''open '' @ path @ '': No such file or directory'')
      | (None, Some content) \<Rightarrow>
          (case ve_fstat env of
             Some e \<Rightarrow> fail Errc_io_error (''stat '' @ path @ '': '' @ e)
           | None \<Rightarrow>
               (if length content = 0 then fail Errc_corrupt_index ''invalid container file size''
                else case ve_mmap env of
                  Some e \<Rightarrow> fail Errc_io_error (''map '' @ path @ '': '' @ e)
                | None \<Rightarrow> and_then (validate_container_layout std_sort content) (\<lambda>lay.
                            Inr \<lparr>vw_data = content, vw_layout = lay\<rparr>))))"

definition view_get_raw :: "u32 \<Rightarrow> view \<Rightarrow> string option" where
  "view_get_raw tag v =
     (case find (\<lambda>x. sr_tag x = tag) (lay_sections (vw_layout v)) of
        None \<Rightarrow> None
      | Some x \<Rightarrow> Some (section_bytes (vw_data v) x))"

definition view_get :: "tag \<Rightarrow> view \<Rightarrow> string option" where
  "view_get tag v = view_get_raw (tag_value tag) v"

definition view_has :: "tag \<Rightarrow> view \<Rightarrow> bool" where
  "view_has tag v = (view_get tag v \<noteq> None)"

fun read_sections :: "view \<Rightarrow> section_range list \<Rightarrow> (u32 \<times> string) list \<Rightarrow> (u32 \<times> string) list result" where
  "read_sections v [] m = Inr m"
| "read_sections v (x # xs) m =
     (case view_get_raw (sr_tag x) v of
        None \<Rightarrow> fail Errc_corrupt_index ''validated section is missing''
      | Some payload \<Rightarrow> read_sections v xs (fst (omap_emplace (sr_tag x) payload m)))"

definition read_file ::
    "view_env \<Rightarrow> (section_range list \<Rightarrow> section_range list) \<Rightarrow> string \<Rightarrow> fs \<Rightarrow> container result" where
  "read_file env std_sort path fs =
     and_then (view_open_file env std_sort path fs) (\<lambda>v.
       and_then (read_sections v (lay_sections (vw_layout v)) []) (\<lambda>ss.
         Inr \<lparr>ct_sections = ss, ct_flags = lay_flags (vw_layout v),
              ct_major = lay_major (vw_layout v), ct_minor = lay_minor (vw_layout v)\<rparr>))"

subsection \<open>Parsing inverts serialising\<close>

fun ranges :: "u64 \<Rightarrow> (u32 \<times> string) list \<Rightarrow> section_range list" where
  "ranges cursor [] = []"
| "ranges cursor ((tag, payload) # ss) =
     \<lparr>sr_tag = tag, sr_offset = cursor, sr_length = of_nat (length payload)\<rparr>
       # ranges (cursor + of_nat (length payload)) ss"

definition payload_size :: "(u32 \<times> string) list \<Rightarrow> nat" where
  "payload_size ss = length (concat (map snd ss))"

lemma payload_size_simps [simp]:
  "payload_size [] = 0" "payload_size ((t, p) # ss) = length p + payload_size ss"
  by (simp_all add: payload_size_def)

lemma unat_add_of_nat:
  "unat (c :: u64) + n < 2 ^ 64 \<Longrightarrow> unat (c + of_nat n) = unat c + n"
  by (simp add: unat_word_ariths unat_of_nat take_bit_nat_eq_self)

lemma length_table_bytes [simp]: "length (table_bytes cur ss) = 20 * length ss"
  by (induction cur ss rule: table_bytes.induct) auto

lemma length_header_bytes [simp]: "length (header_bytes c) = 28"
  by (simp add: header_bytes_def kMagic_def)

lemma length_serialize:
  "length (serialize c) = 32 + 20 * length (ct_sections c) + payload_size (ct_sections c)"
  by (simp add: serialize_def Let_def payload_size_def)

lemma rd_table_bytes:
  "distinct (map fst ss) \<Longrightarrow> set tags \<inter> set (map fst ss) = {} \<Longrightarrow>
     rd_table (length ss) (table_bytes cur ss @ r) tags acc = Inr (acc @ ranges cur ss)"
proof (induction cur ss arbitrary: tags acc rule: table_bytes.induct)
  case (1 cur)
  show ?case by simp
next
  case (2 cur tag payload ss)
  then have "rd_table (length ss) (table_bytes (cur + of_nat (length payload)) ss @ r) (tag # tags)
      (acc @ [\<lparr>sr_tag = tag, sr_offset = cur, sr_length = of_nat (length payload)\<rparr>]) =
    Inr ((acc @ [\<lparr>sr_tag = tag, sr_offset = cur, sr_length = of_nat (length payload)\<rparr>])
      @ ranges (cur + of_nat (length payload)) ss)"
    by (intro "2.IH") auto
  with 2 show ?case by simp
qed

lemma check_sections_ranges:
  assumes "pb \<le> cur" and "prev \<le> cur" and "unat cur + payload_size ss \<le> unat pe"
  shows "check_sections pb pe prev (ranges cur ss) = Inr ()"
  using assms
proof (induction cur ss arbitrary: prev rule: ranges.induct)
  case (1 cur)
  show ?case by simp
next
  case (2 cur tag payload ss)
  have "unat pe < 2 ^ 64" using unsigned_less [of pe] by simp
  then have small: "unat cur + length payload < 2 ^ 64" "length payload < 2 ^ 64"
    using "2.prems"(3) by simp_all
  have nxt: "unat (cur + of_nat (length payload)) = unat cur + length payload"
    by (rule unat_add_of_nat [OF small(1)])
  have len: "unat (of_nat (length payload) :: u64) = length payload"
    by (rule unat_of_nat_u64 [OF small(2)])
  have le: "cur \<le> pe" using "2.prems"(3) by (simp add: word_le_nat_alt)
  have "of_nat (length payload) \<le> pe - cur"
    using "2.prems"(3) le by (simp add: word_le_nat_alt unat_sub len)
  moreover have "check_sections pb pe (cur + of_nat (length payload))
      (ranges (cur + of_nat (length payload)) ss) = Inr ()"
    using "2.prems" nxt by (intro "2.IH") (auto simp: word_le_nat_alt)
  ultimately show ?case using "2.prems"(1,2) le by (simp add: not_less)
qed

lemma section_bytes_ranges:
  assumes "unat cur = length pre" and "length pre + payload_size ss < 2 ^ 64"
  shows "map (\<lambda>x. (sr_tag x, section_bytes (pre @ concat (map snd ss) @ post) x)) (ranges cur ss) = ss"
  using assms
proof (induction cur ss arbitrary: pre rule: ranges.induct)
  case (1 cur)
  show ?case by simp
next
  case (2 cur tag payload ss)
  have nxt: "unat (cur + of_nat (length payload)) = length (pre @ payload)"
    using "2.prems" unat_add_of_nat [of cur "length payload"] by simp
  have "length payload < 2 ^ 64" using "2.prems"(2) by simp
  then have len: "unat (of_nat (length payload) :: u64) = length payload" by (rule unat_of_nat_u64)
  from "2.IH" [OF nxt] "2.prems"(2) "2.prems"(1) len show ?case
    by (simp add: section_bytes_def)
qed

definition container_wf :: "container \<Rightarrow> bool" where
  "container_wf c \<longleftrightarrow>
     omap_wf (ct_sections c) \<and> length (ct_sections c) \<le> kMaxSections \<and> ct_major c = kFormatMajor \<and>
     length (serialize c) < 2 ^ 64"

lemma unat_first_cursor:
  assumes "container_wf c"
  shows "unat (first_cursor c) = 28 + 20 * length (ct_sections c)"
proof -
  have "first_cursor c = of_nat (28 + 20 * length (ct_sections c))"
    by (simp add: first_cursor_def)
  moreover have "28 + 20 * length (ct_sections c) < 2 ^ 64"
    using assms by (simp add: container_wf_def kMaxSections_def)
  ultimately show ?thesis by (simp only: unat_of_nat_u64)
qed

lemma validate_serialize_sections:
  assumes "container_wf c"
  shows "validate_container_layout srt (serialize c) =
    and_then (check_sections (first_cursor c) (of_nat (length (serialize c) - 4)) (first_cursor c)
                (srt (ranges (first_cursor c) (ct_sections c)))) (\<lambda>_.
    Inr \<lparr>lay_major = ct_major c, lay_minor = ct_minor c, lay_flags = ct_flags c,
         lay_sections = srt (ranges (first_cursor c) (ct_sections c))\<rparr>)"
proof -
  let ?ss = "ct_sections c"
  let ?w = "header_bytes c @ table_bytes (first_cursor c) ?ss @ concat (map snd ?ss)"
  let ?n = "length ?ss"
  have bytes: "serialize c = ?w @ wr_u (crc32 ?w)" by (simp add: serialize_def Let_def)
  have wl: "length (serialize c) - 4 = length ?w" using bytes by simp
  have n: "unat (of_nat ?n :: u32) = ?n"
    using assms by (intro unat_of_nat_u32) (simp add: container_wf_def kMaxSections_def)
  have cnt: "\<not> (?n > kMaxSections \<or> ?n > (length (serialize c) - 28 - 4) div 20)"
    using assms by (simp add: container_wf_def length_serialize)
  have tab: "rd_table ?n (table_bytes (first_cursor c) ?ss @ r) [] [] = Inr (ranges (first_cursor c) ?ss)" for r
    using rd_table_bytes [of ?ss "[]" "first_cursor c" r "[]"] assms
    by (simp add: container_wf_def omap_wf_distinct)
  have magic: "rd_bytes 8 (serialize c) = Some (kMagic, drop 8 (serialize c))"
    by (simp add: rd_bytes_def bytes header_bytes_def kMagic_def)
  have rest: "drop 8 (serialize c) = wr_u (ct_major c) @ wr_u (ct_minor c) @ wr_u (ct_flags c)
      @ wr_u (of_nat ?n :: u32) @ wr_u (0 :: u64) @ table_bytes (first_cursor c) ?ss
      @ concat (map snd ?ss) @ wr_u (crc32 ?w)"
    by (simp add: bytes header_bytes_def kMagic_def)
  have body: "take (length (serialize c) - 4) (serialize c) = ?w"
    unfolding wl by (simp only: bytes) simp
  have trail: "drop (length ?w) (serialize c) = wr_u (crc32 ?w)" by (simp only: bytes) simp
  have major: "ct_major c = kFormatMajor" and long: "\<not> length (serialize c) < 28 + 4"
    using assms by (simp_all add: container_wf_def length_serialize)
  show ?thesis
    unfolding validate_container_layout_def Let_def body trail
    using long cnt n tab
    by (simp add: magic rest major wl first_cursor_def [symmetric])
qed

lemma validate_serialize:
  assumes "container_wf c"
    and "srt (ranges (first_cursor c) (ct_sections c)) = ranges (first_cursor c) (ct_sections c)"
  shows "validate_container_layout srt (serialize c) =
    Inr \<lparr>lay_major = ct_major c, lay_minor = ct_minor c, lay_flags = ct_flags c,
         lay_sections = ranges (first_cursor c) (ct_sections c)\<rparr>"
proof -
  have pe: "unat (of_nat (length (serialize c) - 4) :: u64) = length (serialize c) - 4"
    using assms(1) by (intro unat_of_nat_u64) (simp add: container_wf_def less_imp_diff_less)
  have "check_sections (first_cursor c) (of_nat (length (serialize c) - 4)) (first_cursor c)
      (ranges (first_cursor c) (ct_sections c)) = Inr ()"
    by (rule check_sections_ranges)
      (simp_all add: pe unat_first_cursor [OF assms(1)], simp add: length_serialize)
  then show ?thesis by (simp add: validate_serialize_sections [OF assms(1)] assms(2))
qed

lemma ranges_sorted:
  assumes "unat cur + payload_size ss < 2 ^ 64" and "\<forall>(t, p) \<in> set ss. p \<noteq> []"
  shows "sorted_wrt (<) (map sr_offset (ranges cur ss)) \<and> (\<forall>x \<in> set (ranges cur ss). cur \<le> sr_offset x)"
  using assms
proof (induction cur ss rule: ranges.induct)
  case (1 cur)
  show ?case by simp
next
  case (2 cur tag payload ss)
  have nxt: "unat (cur + of_nat (length payload)) = unat cur + length payload"
    using "2.prems" by (intro unat_add_of_nat) simp
  then have lt: "cur < cur + of_nat (length payload)"
    using "2.prems"(2) by (simp add: word_less_nat_alt)
  have "sorted_wrt (<) (map sr_offset (ranges (cur + of_nat (length payload)) ss)) \<and>
      (\<forall>x \<in> set (ranges (cur + of_nat (length payload)) ss). cur + of_nat (length payload) \<le> sr_offset x)"
    using "2.prems" nxt by (intro "2.IH") auto
  with lt show ?case by (auto intro: order.strict_trans2 less_imp_le)
qed

lemma std_sort_fixed:
  assumes "std_sort_spec srt" and "sorted_wrt (<) (map sr_offset xs)"
  shows "srt xs = xs"
proof (rule map_sorted_distinct_set_unique [where f = sr_offset])
  have m: "mset (srt xs) = mset xs" and s: "sorted (map sr_offset (srt xs))"
    using assms(1) by (auto simp: std_sort_spec_def)
  have d: "distinct (map sr_offset xs)" and "sorted (map sr_offset xs)"
    using assms(2) by (simp_all add: strict_sorted_iff)
  then show "sorted (map sr_offset xs)" "distinct (map sr_offset xs)" by simp_all
  show "sorted (map sr_offset (srt xs))" by (fact s)
  have "mset (map sr_offset (srt xs)) = mset (map sr_offset xs)" using m by simp
  then show "distinct (map sr_offset (srt xs))" using d by (metis mset_eq_imp_distinct_iff)
  show eq: "set (srt xs) = set xs" using m by (metis set_mset_mset)
  show "inj_on sr_offset (set (srt xs) \<union> set xs)"
    using d by (simp add: eq distinct_map)
qed

lemma parse_serialize:
  assumes "container_wf c" and "std_sort_spec srt" and "\<forall>(t, p) \<in> set (ct_sections c). p \<noteq> []"
  shows "container_parse srt (serialize c) = Inr c"
proof -
  let ?ss = "ct_sections c"
  let ?pre = "header_bytes c @ table_bytes (first_cursor c) ?ss"
  have pre: "unat (first_cursor c) = length ?pre" using unat_first_cursor [OF assms(1)] by simp
  have total: "length ?pre + payload_size ?ss < 2 ^ 64"
    using assms(1) by (simp add: container_wf_def length_serialize)
  have fixed: "srt (ranges (first_cursor c) ?ss) = ranges (first_cursor c) ?ss"
    using ranges_sorted [of "first_cursor c" ?ss] assms(3) pre total
    by (intro std_sort_fixed [OF assms(2)]) simp
  have "serialize c = ?pre @ concat (map snd ?ss) @ wr_u (crc32 (?pre @ concat (map snd ?ss)))"
    by (simp add: serialize_def Let_def)
  then have secs: "map (\<lambda>x. (sr_tag x, section_bytes (serialize c) x)) (ranges (first_cursor c) ?ss) = ?ss"
    using section_bytes_ranges [OF pre total] by simp
  have "fold (\<lambda>(k, v). omap_put k v) ?ss [] = ?ss"
    using assms(1) by (intro omap_rebuild) (simp_all add: container_wf_def)
  then show ?thesis
    by (simp add: container_parse_def validate_serialize [OF assms(1), of srt, OF fixed] secs)
qed

subsection \<open>What an accepted layout guarantees\<close>

lemma rd_table_tags:
  "rd_table n s tags acc = Inr xs \<Longrightarrow> set tags = sr_tag ` set acc \<Longrightarrow> distinct (map sr_tag acc) \<Longrightarrow>
     distinct (map sr_tag xs) \<and> length xs = n + length acc"
proof (induction n s tags acc rule: rd_table.induct)
  case (2 n s tags acc)
  from "2.prems"(1) obtain tag off len s1 s2 s3
    where step: "rd_u s = Some (tag, s1)" "rd_u s1 = Some (off, s2)" "rd_u s2 = Some (len, s3)"
      "tag \<notin> set tags"
      "rd_table n s3 (tag # tags) (acc @ [\<lparr>sr_tag = tag, sr_offset = off, sr_length = len\<rparr>]) = Inr xs"
    by (auto simp: fail_def split: option.splits if_splits)
  have "distinct (map sr_tag xs) \<and>
      length xs = n + length (acc @ [\<lparr>sr_tag = tag, sr_offset = off, sr_length = len\<rparr>])"
    by (rule "2.IH" [OF step(1) _ step(2) _ step(3) _ step(4,5)])
      (use "2.prems"(2,3) step(4) in auto)
  then show ?case by simp
qed simp

lemma check_sections_sound:
  "check_sections pb pe prev xs = Inr () \<Longrightarrow>
     (\<forall>x \<in> set xs. unat pb \<le> unat (sr_offset x) \<and> unat prev \<le> unat (sr_offset x)
                  \<and> unat (sr_offset x) + unat (sr_length x) \<le> unat pe) \<and>
     sorted_wrt (\<lambda>x y. unat (sr_offset x) + unat (sr_length x) \<le> unat (sr_offset y)) xs"
proof (induction xs arbitrary: prev)
  case (Cons x xs)
  then have off: "pb \<le> sr_offset x" "sr_offset x \<le> pe" "sr_length x \<le> pe - sr_offset x"
      "prev \<le> sr_offset x" and rest: "check_sections pb pe (sr_offset x + sr_length x) xs = Inr ()"
    by (auto simp: fail_def not_less split: if_splits)
  have le: "unat (sr_offset x) + unat (sr_length x) \<le> unat pe"
    using off(2,3) by (simp add: word_le_nat_alt unat_sub)
  moreover have "unat pe < 2 ^ 64" using unsigned_less [of pe] by simp
  ultimately have "unat (sr_offset x + sr_length x) = unat (sr_offset x) + unat (sr_length x)"
    by (simp add: unat_word_ariths take_bit_nat_eq_self)
  with Cons.IH [OF rest] le off show ?case by (fastforce simp: word_le_nat_alt)
qed simp

lemma validate_dest:
  assumes "validate_container_layout srt bytes = Inr lay"
  obtains n s xs where "rd_table n s [] [] = Inr xs" "lay_sections lay = srt xs"
    "check_sections (of_nat (28 + 20 * n)) (of_nat (length bytes - 4)) (of_nat (28 + 20 * n)) (srt xs) = Inr ()"
    "n \<le> kMaxSections" "n \<le> (length bytes - 32) div 20" "32 \<le> length bytes"
    "crc32 (take (length bytes - 4) bytes) = fst (the (rd_u (drop (length bytes - 4) bytes)))"
  using assms
  by (auto simp: validate_container_layout_def Let_def fail_def and_then_def require_def not_less
      split: if_splits option.splits sum.splits prod.splits)

lemma validated_sections:
  assumes "validate_container_layout srt bytes = Inr lay" and "std_sort_spec srt"
    and "length bytes < 2 ^ 64"
  shows "distinct (map sr_tag (lay_sections lay))"
    and "length (lay_sections lay) \<le> kMaxSections"
    and "x \<in> set (lay_sections lay) \<Longrightarrow>
           28 + 20 * length (lay_sections lay) \<le> unat (sr_offset x) \<and>
           unat (sr_offset x) + unat (sr_length x) \<le> length bytes - 4"
    and "sorted_wrt (\<lambda>x y. unat (sr_offset x) + unat (sr_length x) \<le> unat (sr_offset y)) (lay_sections lay)"
proof -
  obtain n s xs where v: "rd_table n s [] [] = Inr xs" "lay_sections lay = srt xs"
    "check_sections (of_nat (28 + 20 * n)) (of_nat (length bytes - 4)) (of_nat (28 + 20 * n)) (srt xs) = Inr ()"
    "n \<le> kMaxSections"
    using assms(1) by (elim validate_dest)
  have t: "distinct (map sr_tag xs)" "length xs = n" using rd_table_tags [OF v(1)] by auto
  have m: "mset (srt xs) = mset xs" using assms(2) by (simp add: std_sort_spec_def)
  have "mset (map sr_tag (srt xs)) = mset (map sr_tag xs)" using m by simp
  then show "distinct (map sr_tag (lay_sections lay))" using t(1) v(2) mset_eq_imp_distinct_iff by metis
  have len: "length (lay_sections lay) = n" using m t(2) v(2) by (metis size_mset)
  then show "length (lay_sections lay) \<le> kMaxSections" using v(4) by simp
  have pe: "unat (of_nat (length bytes - 4) :: u64) = length bytes - 4"
    using assms(3) by (intro unat_of_nat_u64) simp
  have pb: "unat (of_nat (28 + 20 * n) :: u64) = 28 + 20 * n"
    using v(4) by (intro unat_of_nat_u64) (simp add: kMaxSections_def)
  note chk = check_sections_sound [OF v(3), unfolded pe pb]
  show "sorted_wrt (\<lambda>x y. unat (sr_offset x) + unat (sr_length x) \<le> unat (sr_offset y)) (lay_sections lay)"
    using chk v(2) by simp
  show "28 + 20 * length (lay_sections lay) \<le> unat (sr_offset x) \<and>
      unat (sr_offset x) + unat (sr_length x) \<le> length bytes - 4" if "x \<in> set (lay_sections lay)"
    using chk that v(2) len by auto
qed

lemma validate_crc:
  assumes "crc32 (take (length bytes - 4) bytes) \<noteq> fst (the (rd_u (drop (length bytes - 4) bytes)))"
  shows "\<exists>m. validate_container_layout srt bytes = fail Errc_corrupt_index m"
proof (cases "length bytes < 28 + 4")
  case True
  then show ?thesis unfolding validate_container_layout_def by (simp only: if_True) blast
next
  case long: False
  then obtain v r where v: "rd_u (drop (length bytes - 4) bytes) = Some (v :: u32, r)"
    using rd_u_None [of "drop (length bytes - 4) bytes", where 'a = 32]
    by (cases "rd_u (drop (length bytes - 4) bytes) :: (u32 \<times> string) option") auto
  have "crc32 (take (length bytes - 4) bytes) \<noteq> v" using assms v by simp
  then have "validate_container_layout srt bytes = fail Errc_corrupt_index ''crc mismatch''"
    using long v unfolding validate_container_layout_def Let_def by (simp add: require_def)
  then show ?thesis by blast
qed

lemma damaged_byte_rejected:
  assumes "i < length (serialize c)" and "b \<noteq> serialize c ! i"
  shows "\<exists>m. validate_container_layout srt ((serialize c)[i := b]) = fail Errc_corrupt_index m"
proof (rule validate_crc)
  define w where "w = header_bytes c @ table_bytes (first_cursor c) (ct_sections c) @ concat (map snd (ct_sections c))"
  have s: "serialize c = w @ wr_u (crc32 w)" by (simp add: serialize_def w_def)
  show "crc32 (take (length ((serialize c)[i := b]) - 4) ((serialize c)[i := b])) \<noteq>
      fst (the (rd_u (drop (length ((serialize c)[i := b]) - 4) ((serialize c)[i := b]))))"
  proof (cases "i < length w")
    case True
    have "crc32 (w[i := b]) \<noteq> crc32 w"
      using crc32_one_byte [of b "w ! i" "take i w" "drop (Suc i) w"] assms(2) True
      by (simp add: s nth_append upd_conv_take_nth_drop id_take_nth_drop [symmetric])
    with True show ?thesis by (simp add: s list_update_append)
  next
    case False
    let ?j = "i - length w"
    have j: "?j < 4" "b \<noteq> wr_u (crc32 w) ! ?j" using assms False by (simp_all add: s nth_append)
    have ne: "(wr_u (crc32 w))[?j := b] \<noteq> wr_u (crc32 w)"
    proof
      assume "(wr_u (crc32 w))[?j := b] = wr_u (crc32 w)"
      then have "(wr_u (crc32 w))[?j := b] ! ?j = wr_u (crc32 w) ! ?j" by simp
      with j show False by simp
    qed
    obtain v r where v: "rd_u ((wr_u (crc32 w))[?j := b]) = Some (v :: u32, r)"
      using rd_u_None [of "(wr_u (crc32 w))[?j := b]", where 'a = 32] by (cases "rd_u ((wr_u (crc32 w))[?j := b]) :: (u32 \<times> string) option") auto
    have "v \<noteq> crc32 w"
    proof
      assume "v = crc32 w"
      with v have "(wr_u (crc32 w))[?j := b] = wr_u (crc32 w) @ r"
        by (intro wr_u_rd_u [where n = 4]) simp_all
      moreover have "r = []" using rd_u_length [OF v] by simp
      ultimately show False using ne by simp
    qed
    with False v show ?thesis by (simp add: s list_update_append)
  qed
qed

subsection \<open>Reading a file is parsing its bytes\<close>

lemma find_tag:
  "distinct (map sr_tag xs) \<Longrightarrow> x \<in> set xs \<Longrightarrow> find (\<lambda>y. sr_tag y = sr_tag x) xs = Some x"
  by (induction xs) auto

lemma disjoint_insert: "A \<subseteq> insert a B \<Longrightarrow> a \<notin> C \<Longrightarrow> C \<inter> B = {} \<Longrightarrow> C \<inter> A = {}"
  by auto

lemma read_sections_fold:
  assumes "\<forall>x \<in> set xs. view_get_raw (sr_tag x) v = Some (section_bytes (vw_data v) x)"
    and "distinct (map sr_tag xs)" and "sr_tag ` set xs \<inter> fst ` set m = {}"
  shows "read_sections v xs m =
    Inr (fold (\<lambda>(k, v). omap_put k v) (map (\<lambda>x. (sr_tag x, section_bytes (vw_data v) x)) xs) m)"
  using assms
proof (induction xs arbitrary: m)
  case (Cons x xs)
  let ?p = "section_bytes (vw_data v) x"
  have "map_of m (sr_tag x) = None" using Cons.prems(3) by (auto simp: map_of_eq_None_iff)
  then have e: "fst (omap_emplace (sr_tag x) ?p m) = omap_put (sr_tag x) ?p m"
    by (simp add: omap_emplace_def)
  have "fst ` set (omap_put (sr_tag x) ?p m) \<subseteq> insert (sr_tag x) (fst ` set m)"
    using image_mono [OF set_omap_put [of "sr_tag x" ?p m], of fst] by simp
  moreover have "sr_tag x \<notin> sr_tag ` set xs" "sr_tag ` set xs \<inter> fst ` set m = {}"
    using Cons.prems(2,3) by auto
  ultimately have "sr_tag ` set xs \<inter> fst ` set (omap_put (sr_tag x) ?p m) = {}"
    by (rule disjoint_insert)
  then have "read_sections v xs (omap_put (sr_tag x) ?p m) =
      Inr (fold (\<lambda>(k, v). omap_put k v) (map (\<lambda>x. (sr_tag x, section_bytes (vw_data v) x)) xs)
             (omap_put (sr_tag x) ?p m))"
    using Cons.prems(1,2) by (intro Cons.IH) simp_all
  with Cons.prems(1) e show ?case by simp
qed simp

definition view_ok :: view_env where
  "view_ok = \<lparr>ve_open = None, ve_fstat = None, ve_mmap = None\<rparr>"

lemma read_file_parse:
  assumes "fs path = Some bytes" and "bytes \<noteq> []" and "std_sort_spec srt" and "length bytes < 2 ^ 64"
  shows "read_file view_ok srt path fs = container_parse srt bytes"
proof (cases "validate_container_layout srt bytes")
  case (Inl e)
  with assms show ?thesis by (simp add: read_file_def view_open_file_def view_ok_def container_parse_def)
next
  case (Inr lay)
  let ?v = "\<lparr>vw_data = bytes, vw_layout = lay\<rparr>"
  have d: "distinct (map sr_tag (lay_sections lay))"
    by (rule validated_sections(1) [OF Inr assms(3,4)])
  have "read_sections ?v (lay_sections lay) [] =
      Inr (fold (\<lambda>(k, v). omap_put k v) (map (\<lambda>x. (sr_tag x, section_bytes (vw_data ?v) x)) (lay_sections lay)) [])"
    using d by (intro read_sections_fold) (simp_all add: view_get_raw_def find_tag)
  with Inr assms show ?thesis
    by (simp add: read_file_def view_open_file_def view_ok_def container_parse_def)
qed

subsection \<open>Replacing a file\<close>

text \<open>
  \<^verbatim>\<open>Container::write_file\<close> streams the bytes to a temporary name beside the destination and renames
  it. What the operating system does is the argument \<open>write_env\<close>; every file-system state the
  calls pass through is recorded, because a crash may expose any of them.
\<close>

record write_env =
  we_pid :: nat
  we_counter :: u64
  we_salt :: u32
  we_open :: bool                    \<comment> \<open>\<open>std::ofstream\<close> opens the temporary\<close>
  we_short :: "nat option"           \<comment> \<open>bytes that reach the file when the stream fails\<close>
  we_reopen :: bool
  we_fsync :: bool
  we_rename :: bool
  we_remove :: bool                  \<comment> \<open>\<open>std::remove\<close> of the temporary succeeds\<close>
  we_exists :: "int \<Rightarrow> bool"         \<comment> \<open>\<open>kill(pid, 0) == 0 || errno == EPERM\<close>\<close>
  we_swept :: "string \<Rightarrow> bool"       \<comment> \<open>the directory scan reaches the entry and can remove it\<close>

definition temp_name :: "write_env \<Rightarrow> string \<Rightarrow> string" where
  "temp_name env path =
     path @ ''.tmp.'' @ to_dec (we_pid env) @ ''.'' @ to_dec (unat (we_counter env)) @ ''.''
       @ to_dec (unat (we_salt env))"

definition write_part :: "string \<Rightarrow> string \<times> u32 \<Rightarrow> string \<times> u32" where
  "write_part bytes = (\<lambda>(out, checksum). (out @ bytes, crc_update bytes checksum))"

definition write_stream :: "container \<Rightarrow> string" where
  "write_stream c =
     (let (out, checksum) =
        fold write_part
          ((header_bytes c @ table_bytes (first_cursor c) (ct_sections c)) # map snd (ct_sections c))
          ([], 0xFFFFFFFF)
      in out @ wr_u (crc_finish checksum))"

text \<open>\<open>std::stol\<close>: blanks, a sign, digits; no digits and values outside \<open>long\<close> throw.\<close>

definition is_digit :: "char \<Rightarrow> bool" where
  "is_digit ch \<longleftrightarrow> 48 \<le> (of_char ch :: nat) \<and> (of_char ch :: nat) \<le> 57"

definition stol :: "string \<Rightarrow> int option" where
  "stol s =
     (let s = dropWhile is_space s;
          neg = (s \<noteq> [] \<and> hd s = CHR ''-'');
          s = (if s \<noteq> [] \<and> (hd s = CHR ''-'' \<or> hd s = CHR ''+'') then tl s else s);
          ds = takeWhile is_digit s;
          v = (if neg then - int (dec_value ds) else int (dec_value ds))
      in if ds = [] \<or> v < - (2 ^ 63) \<or> v \<ge> 2 ^ 63 then None else Some v)"

definition pid_t :: "int \<Rightarrow> int" where
  "pid_t n = sint (word_of_int n :: u32)"

text \<open>
  An entry of the destination's directory is its path: the destination's own path followed by
  \<open>.tmp.\<close> and a rest without a slash.
\<close>

definition is_orphan :: "(int \<Rightarrow> bool) \<Rightarrow> string \<Rightarrow> string \<Rightarrow> bool" where
  "is_orphan exists path name =
     (let prefix = path @ ''.tmp.''; rest = drop (length prefix) name in
      take (length prefix) name = prefix \<and> CHR ''/'' \<notin> set rest \<and> CHR ''.'' \<in> set rest \<and>
      (case stol (takeWhile (\<lambda>ch. ch \<noteq> CHR ''.'') rest) of
         None \<Rightarrow> False
       | Some pid \<Rightarrow> pid > 0 \<and> \<not> exists (pid_t pid)))"

definition sweep_orphan_temps :: "write_env \<Rightarrow> string \<Rightarrow> fs \<Rightarrow> fs" where
  "sweep_orphan_temps env path fs =
     (\<lambda>name. if is_orphan (we_exists env) path name \<and> we_swept env name then None else fs name)"

definition remove_temp :: "write_env \<Rightarrow> string \<Rightarrow> fs \<Rightarrow> fs" where
  "remove_temp env tmp fs = (if we_remove env then fs(tmp := None) else fs)"

definition write_file :: "write_env \<Rightarrow> string \<Rightarrow> container \<Rightarrow> fs \<Rightarrow> fs list \<times> unit result" where
  "write_file env path c fs =
     (let tmp = temp_name env path; out = write_stream c in
      if \<not> we_open env then ([fs], fail Errc_io_error (''open '' @ tmp))
      else
        let reached = (case we_short env of None \<Rightarrow> length out | Some n \<Rightarrow> n);
            writing = fs # map (\<lambda>k. fs(tmp \<mapsto> take k out)) [0..<Suc reached];
            written = fs(tmp \<mapsto> take reached out)
        in if we_short env \<noteq> None
           then (writing @ [remove_temp env tmp written], fail Errc_io_error (''write '' @ tmp))
           else if \<not> we_reopen env
           then (writing @ [remove_temp env tmp written], fail Errc_io_error (''reopen '' @ tmp))
           else if \<not> we_fsync env
           then (writing @ [remove_temp env tmp written], fail Errc_io_error (''fsync '' @ tmp))
           else if \<not> we_rename env
           then (writing @ [remove_temp env tmp written],
                 fail Errc_io_error (''rename '' @ tmp @ '' -> '' @ path))
           else let renamed = (written(tmp := None))(path := written tmp)
                in (writing @ [renamed, sweep_orphan_temps env path renamed], Inr ()))"

subsection \<open>Facts about writing\<close>

lemma fold_write_part:
  "fold write_part parts (out, v) = (out @ concat parts, crc_update (concat parts) v)"
  by (induction parts arbitrary: out v) (simp_all add: write_part_def crc_update_append, simp add: crc_update_def)

lemma write_stream_serialize: "write_stream c = serialize c"
  by (simp only: write_stream_def fold_write_part serialize_def Let_def crc32_def)
    (simp add: crc_update_append)

lemma temp_name_neq [simp]: "temp_name env path \<noteq> path" "path \<noteq> temp_name env path"
  by (simp_all add: temp_name_def)

lemma not_orphan_self [simp]: "\<not> is_orphan ex path path"
  by (simp add: is_orphan_def Let_def)

definition write_ok :: "write_env \<Rightarrow> bool" where
  "write_ok env \<longleftrightarrow> we_open env \<and> we_short env = None \<and> we_reopen env \<and> we_fsync env \<and> we_rename env"

lemma write_file_states:
  "st \<in> set (fst (write_file env path c fs)) \<Longrightarrow> st path = fs path \<or> st path = Some (serialize c)"
  by (auto simp: write_file_def Let_def remove_temp_def sweep_orphan_temps_def
      write_stream_serialize split: if_splits option.splits)

lemma write_file_others:
  "st \<in> set (fst (write_file env path c fs)) \<Longrightarrow> p \<noteq> path \<Longrightarrow> p \<noteq> temp_name env path \<Longrightarrow>
     \<not> is_orphan (we_exists env) path p \<Longrightarrow> st p = fs p"
  by (auto simp: write_file_def Let_def remove_temp_def sweep_orphan_temps_def
      split: if_splits option.splits)

lemma write_file_result:
  "snd (write_file env path c fs) = Inr () \<longleftrightarrow> write_ok env"
  by (auto simp: write_file_def Let_def fail_def write_ok_def split: option.splits)

lemma write_file_final:
  "last (fst (write_file env path c fs)) path =
     (if write_ok env then Some (serialize c) else fs path)"
  by (auto simp: write_file_def Let_def remove_temp_def sweep_orphan_temps_def write_ok_def
      write_stream_serialize split: option.splits)

lemma write_file_temp_gone:
  assumes "we_open env" and "write_ok env \<or> we_remove env"
  shows "last (fst (write_file env path c fs)) (temp_name env path) = None"
  using assms
  by (auto simp: write_file_def Let_def remove_temp_def sweep_orphan_temps_def write_ok_def
      split: option.splits)

lemma write_file_passes:
  assumes "we_open env" and "we_short env = None" and "k \<le> length (serialize c)"
  shows "fs(temp_name env path \<mapsto> take k (serialize c)) \<in> set (fst (write_file env path c fs))"
proof -
  have "fs(temp_name env path \<mapsto> take k (serialize c)) \<in>
      set (map (\<lambda>k. fs(temp_name env path \<mapsto> take k (serialize c))) [0..<Suc (length (serialize c))])"
    unfolding set_map using assms(3) by (intro image_eqI [where x = k]) auto
  with assms(1,2) show ?thesis
    by (simp add: write_file_def Let_def write_stream_serialize del: upt_Suc)
qed

lemma takeWhile_all_app: "\<forall>x \<in> set a. P x \<Longrightarrow> \<not> P y \<Longrightarrow> takeWhile P (a @ y # b) = a"
  by (induction a) auto

lemma to_dec_neq_Nil [simp]: "to_dec n \<noteq> []"
  by (subst to_dec.simps) simp

lemma stol_to_dec: "n < 2 ^ 63 \<Longrightarrow> stol (to_dec n) = Some (int n)"
proof -
  assume n: "n < 2 ^ 63"
  have dig: "is_digit ch" if "ch \<in> set (to_dec n)" for ch
    using to_dec_digits [OF that] by (simp add: is_digit_def)
  then have hd: "is_digit (hd (to_dec n))" by simp
  then have nsp: "\<not> is_space (hd (to_dec n))" "hd (to_dec n) \<noteq> CHR ''-''" "hd (to_dec n) \<noteq> CHR ''+''"
    by (auto simp: is_digit_def is_space_def)
  obtain d ds where d: "to_dec n = d # ds" using to_dec_neq_Nil by (cases "to_dec n") auto
  have tw: "takeWhile is_digit (to_dec n) = to_dec n" using dig by (simp add: takeWhile_eq_all_conv)
  have "dropWhile is_space (to_dec n) = to_dec n" using nsp(1) by (simp add: d)
  moreover have "int n < 2 ^ 63" using n by simp
  ultimately show ?thesis
    using nsp tw dec_value_to_dec [of n] unfolding stol_def Let_def by (simp add: d)
qed

lemma orphan_temp_name:
  assumes "we_pid env < 2 ^ 31" and "0 < we_pid env"
  shows "is_orphan ex path (temp_name env path) \<longleftrightarrow> \<not> ex (int (we_pid env))"
proof -
  let ?t = "to_dec (unat (we_counter env)) @ ''.'' @ to_dec (unat (we_salt env))"
  have dig: "CHR ''.'' \<notin> set (to_dec m)" "CHR ''/'' \<notin> set (to_dec m)" for m
    using to_dec_digits [of _ m] by fastforce+
  have rest: "drop (length (path @ ''.tmp.'')) (temp_name env path) = to_dec (we_pid env) @ CHR ''.'' # ?t"
    by (simp add: temp_name_def)
  have tw: "takeWhile (\<lambda>ch. ch \<noteq> CHR ''.'') (to_dec (we_pid env) @ CHR ''.'' # ?t) = to_dec (we_pid env)"
    using dig(1) by (intro takeWhile_all_app) auto
  have st: "stol (to_dec (we_pid env)) = Some (int (we_pid env))"
    using assms(1) by (intro stol_to_dec) simp
  have "signed_take_bit 31 (int (we_pid env)) = int (we_pid env)"
    using assms(1) by (intro signed_take_bit_int_eq_self) simp_all
  then have pid: "pid_t (int (we_pid env)) = int (we_pid env)"
    unfolding pid_t_def by (subst sint_sbintrunc') simp
  have "take (length (path @ ''.tmp.'')) (temp_name env path) = path @ ''.tmp.''"
    by (simp add: temp_name_def)
  then show ?thesis
    unfolding is_orphan_def Let_def rest tw st using dig assms(2) pid by simp
qed

subsection \<open>Properties of the container\<close>

definition sample_container :: container where
  "sample_container = container_put Tag_chunks ''abc'' (container_put Tag_meta ''m'' container_new)"

text \<open>
  C3: a file written by \<^verbatim>\<open>Container::write_file\<close> reads back as the container that was written,
  whatever \<open>std::sort\<close> the reader is linked with, provided no section is empty (the container's
  well-formedness bounds the number of sections and the size of the file).\<close>
theorem container_write_read:
  assumes "container_wf c" and "std_sort_spec srt" and "\<forall>(t, p) \<in> set (ct_sections c). p \<noteq> []"
    and "write_ok env"
  shows "read_file view_ok srt path (last (fst (write_file env path c fs))) = Inr c"
proof -
  have "read_file view_ok srt path (last (fst (write_file env path c fs))) = container_parse srt (serialize c)"
  proof (rule read_file_parse [OF _ _ assms(2)])
    show "last (fst (write_file env path c fs)) path = Some (serialize c)"
      using assms(4) by (simp add: write_file_final)
    show "serialize c \<noteq> []" using length_serialize [of c] by (metis add_is_0 list.size(3) zero_neq_numeral)
    show "length (serialize c) < 2 ^ 64" using assms(1) by (simp add: container_wf_def)
  qed
  also have "\<dots> = Inr c" by (rule parse_serialize [OF assms(1-3)])
  finally show ?thesis .
qed

definition sample_env :: write_env where
  "sample_env = \<lparr>we_pid = 7, we_counter = 0, we_salt = 5, we_open = True, we_short = None,
     we_reopen = True, we_fsync = True, we_rename = True, we_remove = True,
     we_exists = (\<lambda>_. False), we_swept = (\<lambda>_. True)\<rparr>"

definition stable_sort :: "section_range list \<Rightarrow> section_range list" where
  "stable_sort xs = sort_key sr_offset xs"

definition unstable_sort :: "section_range list \<Rightarrow> section_range list" where
  "unstable_sort xs = sort_key sr_offset (rev xs)"

lemma std_sort_examples: "std_sort_spec stable_sort" "std_sort_spec unstable_sort"
  by (simp_all add: std_sort_spec_def stable_sort_def unstable_sort_def)

lemma sample_container_wf: "container_wf sample_container"
  unfolding container_wf_def length_serialize
  by (simp add: sample_container_def container_put_def container_new_def kMaxSections_def omap_wf_def)

lemma sample_env_ok: "write_ok sample_env"
  by (simp add: write_ok_def sample_env_def)

lemma sample_sections_nonempty: "\<forall>(t, p) \<in> set (ct_sections sample_container). p \<noteq> []"
  by (simp add: sample_container_def container_put_def container_new_def)

theorem container_write_read_witness:
  "read_file view_ok stable_sort ''x.ragdb''
     (last (fst (write_file sample_env ''x.ragdb'' sample_container (\<lambda>_. None)))) = Inr sample_container"
  by (rule container_write_read [OF sample_container_wf std_sort_examples(1)
        sample_sections_nonempty sample_env_ok])

definition empty_section_container :: container where
  "empty_section_container =
     container_put_raw 2 ''x'' (container_put_raw 1 [] container_new)"

lemma empty_section_wf: "container_wf empty_section_container"
  unfolding container_wf_def length_serialize
  by (simp add: empty_section_container_def container_put_raw_def container_new_def kMaxSections_def omap_wf_def)

text \<open>
  The restriction to non-empty sections is needed. \<open>std::sort\<close> may leave sections that start
  at the same offset in either order; with one that reverses them, a well-formed container with
  an empty section is written without an error and rejected as overlapping when it is read.\<close>
theorem empty_section_unreadable:
  "std_sort_spec unstable_sort \<and> container_wf empty_section_container \<and> write_ok sample_env \<and>
   container_parse unstable_sort (serialize empty_section_container) =
     fail Errc_corrupt_index ''overlapping sections'' \<and>
   read_file view_ok unstable_sort ''x'' (last (fst (write_file sample_env ''x'' empty_section_container fs))) =
     fail Errc_corrupt_index ''overlapping sections''"
proof -
  let ?c = empty_section_container
  have secs: "ct_sections ?c = [(1, []), (2, ''x'')]"
    by (simp add: empty_section_container_def container_put_raw_def container_new_def)
  have cur: "first_cursor ?c = 68" by (simp add: first_cursor_def secs)
  have len: "length (serialize ?c) = 73" by (simp add: length_serialize secs)
  have "check_sections 68 69 68 (unstable_sort (ranges 68 [(1, []), (2, ''x'')])) =
      fail Errc_corrupt_index ''overlapping sections''"
    by code_simp
  then have "container_parse unstable_sort (serialize ?c) = fail Errc_corrupt_index ''overlapping sections''"
    by (simp add: container_parse_def validate_serialize_sections [OF empty_section_wf] cur len secs)
  moreover have "read_file view_ok unstable_sort ''x'' (last (fst (write_file sample_env ''x'' ?c fs))) =
      container_parse unstable_sort (serialize ?c)"
    using len by (intro read_file_parse std_sort_examples) (auto simp: write_file_final sample_env_ok)
  ultimately show ?thesis by (simp add: std_sort_examples empty_section_wf sample_env_ok)
qed

text \<open>
  C2: replacing a container file is atomic. In every file-system state the save passes through
  the destination holds the complete old bytes or the complete new ones; the save reports success
  exactly when every step succeeded, and then the destination holds the new bytes; a failed save
  leaves the destination as it was, and its temporary is gone whenever it could be removed; no
  file other than the destination, the temporary and the swept orphans is ever touched.\<close>
theorem write_file_atomic:
  assumes "st \<in> set (fst (write_file env path c fs))"
  shows "st path \<in> {fs path, Some (serialize c)} \<and>
    (p \<notin> {path, temp_name env path} \<and> \<not> is_orphan (we_exists env) path p \<longrightarrow> st p = fs p) \<and>
    (snd (write_file env path c fs) = Inr () \<longleftrightarrow> write_ok env) \<and>
    last (fst (write_file env path c fs)) path = (if write_ok env then Some (serialize c) else fs path) \<and>
    (we_open env \<and> (write_ok env \<or> we_remove env) \<longrightarrow>
       last (fst (write_file env path c fs)) (temp_name env path) = None)"
  using write_file_states [OF assms] write_file_others [OF assms]
  by (simp add: write_file_result write_file_final write_file_temp_gone)

theorem write_file_atomic_witness:
  "[''x'' \<mapsto> ''old'', temp_name sample_env ''x'' \<mapsto> take 3 (serialize sample_container)] ''x''
     \<in> {[''x'' \<mapsto> ''old''] ''x'', Some (serialize sample_container)}"
proof -
  have "[''x'' \<mapsto> ''old'', temp_name sample_env ''x'' \<mapsto> take 3 (serialize sample_container)]
      \<in> set (fst (write_file sample_env ''x'' sample_container [''x'' \<mapsto> ''old'']))"
    by (rule write_file_passes) (simp_all add: sample_env_def length_serialize)
  from write_file_atomic [OF this] show ?thesis by blast
qed



text \<open>
  C4: a layout the validator accepts is safe to slice. The sections' tags are distinct, there
  are at most 64 of them, every section lies between the end of the table and the trailer, and
  consecutive sections do not overlap; the 64-bit additions of the check do not wrap.\<close>
theorem accepted_layout_sound:
  assumes "validate_container_layout srt bytes = Inr lay" and "std_sort_spec srt"
    and "length bytes < 2 ^ 64"
  shows "distinct (map sr_tag (lay_sections lay)) \<and> length (lay_sections lay) \<le> kMaxSections \<and>
    list_all (\<lambda>x. 28 + 20 * length (lay_sections lay) \<le> unat (sr_offset x) \<and>
        unat (sr_offset x) + unat (sr_length x) \<le> length bytes - 4) (lay_sections lay) \<and>
    sorted_wrt (\<lambda>x y. unat (sr_offset x) + unat (sr_length x) \<le> unat (sr_offset y)) (lay_sections lay)"
  using validated_sections [OF assms] by (simp add: list_all_iff)

theorem accepted_layout_sound_witness:
  "list_all (\<lambda>x. unat (sr_offset x) + unat (sr_length x) \<le> length (serialize sample_container) - 4)
     (ranges (first_cursor sample_container) (ct_sections sample_container))"
proof -
  let ?r = "ranges (first_cursor sample_container) (ct_sections sample_container)"
  have "stable_sort ?r = ?r"
    by (simp add: sample_container_def container_put_def container_new_def first_cursor_def stable_sort_def)
  from validate_serialize [OF sample_container_wf, of stable_sort, OF this]
  show ?thesis
    using accepted_layout_sound [OF _ std_sort_examples(1)] sample_container_wf
    by (fastforce simp: container_wf_def list_all_iff)
qed

text \<open>
  C6: changing any one byte of a serialised container, in its header, table, payload or trailer,
  makes the reader report \<^verbatim>\<open>corrupt_index\<close>.\<close>
theorem container_damage_detected:
  assumes "i < length (serialize c)" and "b \<noteq> serialize c ! i"
  shows "\<exists>m. container_parse srt ((serialize c)[i := b]) = fail Errc_corrupt_index m"
proof -
  obtain m where "validate_container_layout srt ((serialize c)[i := b]) = fail Errc_corrupt_index m"
    using damaged_byte_rejected [OF assms] by blast
  then show ?thesis by (simp only: container_parse_def and_then_simps) blast
qed

theorem container_damage_detected_witness:
  "\<exists>m. container_parse stable_sort ((serialize sample_container)[0 := CHR ''X'']) = fail Errc_corrupt_index m"
proof (rule container_damage_detected)
  show "0 < length (serialize sample_container)" by (simp add: length_serialize)
  show "CHR ''X'' \<noteq> serialize sample_container ! 0"
    by (simp add: serialize_def Let_def header_bytes_def kMagic_def)
qed

end
