(* ===== verification/Candidate_Types.thy ===== *)
theory Candidate_Types
  imports Core_Types
begin

text \<open>
  \<^verbatim>\<open>rag.cpp/include/rag/backend/candidate_backend.hpp\<close>: the documents, requests, candidates and
  statistics that every backend exchanges with the layers above, and the metadata filter. The
  filter keeps the allowed values of a key sorted without duplicates and looks them up with
  \<open>std::binary_search\<close>, modelled with the bisection loop of the standard library; the lookup is
  shown to be membership.
\<close>

subsection \<open>Documents and requests\<close>

type_synonym document_key = string
type_synonym chunk_key = string
type_synonym document_revision = u64

record prepared_chunk =
  pc_key :: chunk_key
  pc_ordinal :: u64
  pc_text :: string
  pc_indexed_text :: string
  pc_context :: string
  pc_start_line :: u32
  pc_end_line :: u32
  pc_embedding :: vec

record prepared_document =
  pd_key :: document_key
  pd_title :: string
  pd_content :: string
  pd_metadata :: metadata
  pd_content_hash :: string
  pd_chunking_fingerprint :: string
  pd_embedding_identity :: string
  pd_chunks :: "prepared_chunk list"

datatype search_mode = Mode_lexical | Mode_dense | Mode_hybrid

record metadata_filter =
  mf_required :: "(string \<times> string list) list"
  mf_supplied :: bool

record search_request =
  sreq_query :: string
  sreq_embedding :: "vec option"
  sreq_mode :: search_mode
  sreq_top_k :: u64
  sreq_candidate_pool :: u64
  sreq_filter :: metadata_filter
  sreq_profile :: string

datatype score_type = Score_bm25 | Score_cosine

record candidate =
  cand_chunk :: chunk_key
  cand_raw_score :: f32
  cand_score_type :: score_type

record stored_chunk =
  sc_key :: chunk_key
  sc_document :: document_key
  sc_revision :: document_revision
  sc_ordinal :: u64
  sc_title :: string
  sc_text :: string
  sc_context :: string
  sc_metadata :: metadata
  sc_start_line :: u32
  sc_end_line :: u32
  sc_embedding :: vec

record lexical_request =
  lreq_query :: string
  lreq_k :: nat
  lreq_filter :: metadata_filter

record dense_request =
  dreq_query :: vec
  dreq_k :: nat
  dreq_filter :: metadata_filter

record fetch_options =
  fo_include_text :: bool
  fo_include_embedding :: bool

subsection \<open>The metadata filter\<close>

definition filter_none :: metadata_filter where
  "filter_none = \<lparr>mf_required = [], mf_supplied = False\<rparr>"

definition filter_of_metadata :: "metadata \<Rightarrow> metadata_filter" where
  "filter_of_metadata scalar =
     \<lparr>mf_required = fold (\<lambda>(k, v) m. fst (omap_emplace k [v] m)) scalar [], mf_supplied = True\<rparr>"

definition filter_of_requirements :: "(string \<times> string list) list \<Rightarrow> metadata_filter" where
  "filter_of_requirements values =
     \<lparr>mf_required = map (\<lambda>(k, allowed). (k, remdups_adj (sort allowed))) values, mf_supplied = True\<rparr>"

function lower_bound :: "'a::linorder list \<Rightarrow> 'a \<Rightarrow> nat \<Rightarrow> nat \<Rightarrow> nat" where
  "lower_bound xs v first len =
     (if len = 0 then first
      else let half = len div 2; mid = first + half
           in if xs ! mid < v then lower_bound xs v (mid + 1) (len - half - 1)
              else lower_bound xs v first half)"
  by pat_completeness auto
termination
  by (relation "measure (\<lambda>(xs, v, first, len). len)") auto

declare lower_bound.simps [simp del]

definition binary_search :: "'a::linorder list \<Rightarrow> 'a \<Rightarrow> bool" where
  "binary_search xs v = (let i = lower_bound xs v 0 (length xs) in i < length xs \<and> \<not> v < xs ! i)"

definition filter_matches :: "metadata_filter \<Rightarrow> metadata \<Rightarrow> bool" where
  "filter_matches f actual =
     (if \<not> mf_supplied f then True
      else if mf_required f = [] then False
      else list_all (\<lambda>(key, allowed).
             (case map_of actual key of
                None \<Rightarrow> False
              | Some found \<Rightarrow> binary_search allowed found)) (mf_required f))"

definition all_below :: "'a::linorder list \<Rightarrow> 'a \<Rightarrow> nat \<Rightarrow> bool" where
  "all_below xs v n \<longleftrightarrow> (\<forall>i < n. xs ! i < v)"

definition none_below :: "'a::linorder list \<Rightarrow> 'a \<Rightarrow> nat \<Rightarrow> bool" where
  "none_below xs v n \<longleftrightarrow> (\<forall>i. n \<le> i \<and> i < length xs \<longrightarrow> \<not> xs ! i < v)"

lemma all_below_mid:
  assumes "sorted xs" and "m < length xs" and "xs ! m < v"
  shows "all_below xs v (m + 1)"
  unfolding all_below_def
proof (intro allI impI)
  fix i assume "i < m + 1"
  then have "xs ! i \<le> xs ! m" using assms(1,2) by (intro sorted_nth_mono) auto
  with assms(3) show "xs ! i < v" by simp
qed

lemma none_below_mid:
  assumes "sorted xs" and "\<not> xs ! m < v"
  shows "none_below xs v m"
  unfolding none_below_def
proof (intro allI impI)
  fix i assume "m \<le> i \<and> i < length xs"
  then have "xs ! m \<le> xs ! i" using assms(1) by (intro sorted_nth_mono) auto
  with assms(2) show "\<not> xs ! i < v" by simp
qed

lemma lower_bound_split:
  assumes "sorted xs" and "first + len \<le> length xs" and "all_below xs v first"
    and "none_below xs v (first + len)"
  shows "all_below xs v (lower_bound xs v first len) \<and> none_below xs v (lower_bound xs v first len) \<and>
    lower_bound xs v first len \<le> length xs"
  using assms
proof (induction xs v first len rule: lower_bound.induct)
  case (1 xs v first len)
  show ?case
  proof (cases "len = 0")
    case True
    with "1.prems" show ?thesis by (simp add: lower_bound.simps)
  next
    case False
    let ?mid = "first + len div 2"
    have mid: "?mid < length xs" using False "1.prems"(2) by linarith
    have ends: "?mid + 1 + (len - len div 2 - 1) = first + len" using False by linarith
    show ?thesis
    proof (cases "xs ! ?mid < v")
      case True
      have "lower_bound xs v first len = lower_bound xs v (?mid + 1) (len - len div 2 - 1)"
        using False True by (subst lower_bound.simps) (simp add: Let_def)
      with "1.IH"(1) [OF False refl refl True "1.prems"(1)] all_below_mid [OF "1.prems"(1) mid True]
        "1.prems"(2,4) ends show ?thesis by (simp only: ends)
    next
      case nless: False
      have "lower_bound xs v first len = lower_bound xs v first (len div 2)"
        using False nless by (subst lower_bound.simps) (simp add: Let_def)
      with "1.IH"(2) [OF False refl refl nless "1.prems"(1) _ "1.prems"(3)]
        none_below_mid [OF "1.prems"(1) nless] mid show ?thesis by simp
    qed
  qed
qed

lemma binary_search_iff:
  assumes "sorted xs"
  shows "binary_search xs v \<longleftrightarrow> v \<in> set xs"
proof -
  define n where "n = lower_bound xs v 0 (length xs)"
  have "all_below xs v 0" "none_below xs v (0 + length xs)"
    by (auto simp: all_below_def none_below_def)
  then have b: "all_below xs v n" "none_below xs v n"
    using lower_bound_split [OF assms, of 0 "length xs" v] by (simp_all add: n_def)
  have bs: "binary_search xs v \<longleftrightarrow> n < length xs \<and> \<not> v < xs ! n"
    by (simp add: binary_search_def n_def Let_def)
  show ?thesis
  proof
    assume "binary_search xs v"
    then have n: "n < length xs" "\<not> v < xs ! n" using bs by auto
    with b(2) have "xs ! n = v" by (auto simp: none_below_def)
    with n(1) show "v \<in> set xs" by (metis nth_mem)
  next
    assume "v \<in> set xs"
    then obtain j where j: "j < length xs" "xs ! j = v" by (auto simp: in_set_conv_nth)
    with b(1) have nj: "n \<le> j" by (auto simp: all_below_def not_less [symmetric])
    then have "xs ! n \<le> xs ! j" using assms j by (intro sorted_nth_mono) auto
    with nj j bs show "binary_search xs v" by auto
  qed
qed

lemma sorted_allowed: "sorted (remdups_adj (sort (xs :: 'a::linorder list)))"
  by (simp add: sorted_remdups_adj)

text \<open>
  C22: what a filter means. Without a filter every chunk passes; a supplied filter that requires
  nothing passes no chunk; otherwise a chunk passes when each required key is present with one of
  the values the caller listed, in whatever order and multiplicity they were listed.\<close>
theorem filter_matches_meaning:
  "filter_matches filter_none actual \<and>
   filter_matches (filter_of_requirements reqs) actual =
     (reqs \<noteq> [] \<and>
      list_all (\<lambda>(key, allowed). \<exists>v. map_of actual key = Some v \<and> List.member allowed v) reqs)"
proof -
  have eq: "(case map_of actual k of None \<Rightarrow> False | Some found \<Rightarrow> binary_search (remdups_adj (sort a)) found) =
      (\<exists>v. map_of actual k = Some v \<and> List.member a v)" for k a
    by (cases "map_of actual k") (simp_all add: binary_search_iff sorted_allowed)
  have "list_all (\<lambda>(key, allowed).
          (case map_of actual key of None \<Rightarrow> False | Some found \<Rightarrow> binary_search allowed found))
          (map (\<lambda>(k, allowed). (k, remdups_adj (sort allowed))) reqs) =
      list_all (\<lambda>(key, allowed). \<exists>v. map_of actual key = Some v \<and> List.member allowed v) reqs"
    by (induction reqs) (auto simp only: list.map list.pred_inject split_conv eq split_paired_all)
  then show ?thesis
    by (simp add: filter_matches_def filter_none_def filter_of_requirements_def)
qed

end
