(* ===== verification/Job_Model.thy ===== *)
theory Job_Model
  imports Candidate_Types Store_Format
begin

text \<open>
  \<^verbatim>\<open>rag.cpp/include/rag/ingestion/job.hpp\<close>, \<^verbatim>\<open>src/ingestion/job.cpp\<close> and the record codec of
  \<^verbatim>\<open>src/ingestion/job_store.cpp\<close>: ingestion jobs, their public projection, and their JSON form. The
  JSON library (\<open>nlohmann::json\<close>) is a parameter: its value type is the documented one, and
  printing, parsing and the conversions between numeric types are fields of \<open>json_lib\<close>. Every
  \<open>throw\<close> of the decoder is a value of \<open>exn\<close>. Shown here: decoding inverts encoding on
  well-formed jobs, and whatever the decoder accepts is a job with a usable identity, a valid
  operation and a valid status.
\<close>

subsection \<open>Jobs\<close>

datatype job_operation = Op_upsert | Op_erase

datatype job_status =
  Job_queued | Job_chunking | Job_embedding | Job_publishing | Job_ready | Job_failed
  | Job_superseded | Job_cancelled

fun terminal :: "job_status \<Rightarrow> bool" where
  "terminal st = (st = Job_ready \<or> st = Job_failed \<or> st = Job_superseded \<or> st = Job_cancelled)"

declare terminal.simps [simp del]

fun status_name :: "job_status \<Rightarrow> string" where
  "status_name Job_queued = ''queued''"
| "status_name Job_chunking = ''chunking''"
| "status_name Job_embedding = ''embedding''"
| "status_name Job_publishing = ''publishing''"
| "status_name Job_ready = ''ready''"
| "status_name Job_failed = ''failed''"
| "status_name Job_superseded = ''superseded''"
| "status_name Job_cancelled = ''cancelled''"

record ingestion_input =
  in_document :: document_key
  in_title :: string
  in_content :: string
  in_metadata :: metadata

record job_error =
  je_code :: errc
  je_message :: string

record ingestion_job =
  job_id :: string
  job_operation :: job_operation
  job_input :: ingestion_input
  job_revision :: document_revision
  job_content_hash :: string
  job_status :: job_status
  job_created_at_ms :: int
  job_updated_at_ms :: int
  job_error :: "job_error option"
  job_prepared :: "prepared_document option"
  job_mutation_applied :: "bool option"

record job_info =
  ji_id :: string
  ji_document :: document_key
  ji_revision :: document_revision
  ji_operation :: job_operation
  ji_status :: job_status
  ji_created_at_ms :: int
  ji_updated_at_ms :: int
  ji_error :: "job_error option"

definition info :: "ingestion_job \<Rightarrow> job_info" where
  "info job =
     \<lparr>ji_id = job_id job, ji_document = in_document (job_input job), ji_revision = job_revision job,
      ji_operation = job_operation job, ji_status = job_status job,
      ji_created_at_ms = job_created_at_ms job, ji_updated_at_ms = job_updated_at_ms job,
      ji_error = job_error job\<rparr>"

fun operation_to_int :: "job_operation \<Rightarrow> int" where
  "operation_to_int Op_upsert = 0"
| "operation_to_int Op_erase = 1"

fun status_to_int :: "job_status \<Rightarrow> int" where
  "status_to_int Job_queued = 0"
| "status_to_int Job_chunking = 1"
| "status_to_int Job_embedding = 2"
| "status_to_int Job_publishing = 3"
| "status_to_int Job_ready = 4"
| "status_to_int Job_failed = 5"
| "status_to_int Job_superseded = 6"
| "status_to_int Job_cancelled = 7"

definition status_values :: "job_status list" where
  "status_values = [Job_queued, Job_chunking, Job_embedding, Job_publishing, Job_ready, Job_failed,
     Job_superseded, Job_cancelled]"

lemma status_values_nth [simp]: "status_values ! nat (status_to_int st) = st"
  by (cases st) (simp_all add: status_values_def)

lemma status_to_int_bounds [simp]: "0 \<le> status_to_int st" "status_to_int st \<le> 7"
  by (cases st; simp)+

subsection \<open>JSON values\<close>

datatype json =
  JNull | JBool bool | JInt int | JFloat u64 | JStr string | JArr "json list"
  | JObj "(string \<times> json) list"

datatype exn = Parse_error | Missing_key string | Type_error | Runtime_error string

record json_lib =
  jl_dump :: "json \<Rightarrow> string option"      \<comment> \<open>\<open>None\<close>: throws on a string that is not UTF-8\<close>
  jl_parse :: "string \<Rightarrow> json option"
  jl_of_float :: "f32 \<Rightarrow> u64"             \<comment> \<open>conversion to the library's \<open>double\<close>\<close>
  jl_to_float :: "json \<Rightarrow> f32 option"     \<comment> \<open>\<open>get<float>()\<close>\<close>
  jl_coerce_int :: "json \<Rightarrow> int option"   \<comment> \<open>integral \<open>get\<close> of a value that is not an integer\<close>
  jl_is_one :: "json \<Rightarrow> bool"             \<comment> \<open>\<open>== 1\<close> on a value that is not an integer\<close>
  jl_what :: "exn \<Rightarrow> string"

definition what :: "json_lib \<Rightarrow> exn \<Rightarrow> string" where
  "what L e = (case e of Runtime_error m \<Rightarrow> m | _ \<Rightarrow> jl_what L e)"

definition ebind :: "exn + 'a \<Rightarrow> ('a \<Rightarrow> exn + 'b) \<Rightarrow> exn + 'b" where
  "ebind r f = (case r of Inl e \<Rightarrow> Inl e | Inr x \<Rightarrow> f x)"

lemma ebind_simps [simp]: "ebind (Inr x) f = f x" "ebind (Inl e) f = Inl e"
  by (simp_all add: ebind_def)

lemma ebind_Inr: "ebind r f = Inr y \<longleftrightarrow> (\<exists>x. r = Inr x \<and> f x = Inr y)"
  by (cases r) auto

definition json_object :: "(string \<times> json) list \<Rightarrow> json" where
  "json_object kvs = JObj (fold (\<lambda>(k, v). omap_put k v) kvs [])"

fun json_set :: "string \<Rightarrow> json \<Rightarrow> json \<Rightarrow> json" where
  "json_set k v (JObj m) = JObj (omap_put k v m)"
| "json_set k v j = j"

fun json_at :: "string \<Rightarrow> json \<Rightarrow> exn + json" where
  "json_at k (JObj m) = (case map_of m k of None \<Rightarrow> Inl (Missing_key k) | Some v \<Rightarrow> Inr v)"
| "json_at k _ = Inl Type_error"

fun json_contains :: "string \<Rightarrow> json \<Rightarrow> bool" where
  "json_contains k (JObj m) = (map_of m k \<noteq> None)"
| "json_contains k _ = False"

fun get_string :: "json \<Rightarrow> exn + string" where
  "get_string (JStr s) = Inr s"
| "get_string _ = Inl Type_error"

fun get_bool :: "json \<Rightarrow> exn + bool" where
  "get_bool (JBool b) = Inr b"
| "get_bool _ = Inl Type_error"

definition get_integer :: "json_lib \<Rightarrow> json \<Rightarrow> exn + int" where
  "get_integer L v =
     (case v of JInt i \<Rightarrow> Inr i
      | _ \<Rightarrow> (case jl_coerce_int L v of None \<Rightarrow> Inl Type_error | Some i \<Rightarrow> Inr i))"

definition get_i32 :: "json_lib \<Rightarrow> json \<Rightarrow> exn + int" where
  "get_i32 L v = ebind (get_integer L v) (\<lambda>i. Inr (sint (word_of_int i :: u32)))"

definition get_i64 :: "json_lib \<Rightarrow> json \<Rightarrow> exn + int" where
  "get_i64 L v = ebind (get_integer L v) (\<lambda>i. Inr (sint (word_of_int i :: u64)))"

definition get_u32 :: "json_lib \<Rightarrow> json \<Rightarrow> exn + u32" where
  "get_u32 L v = ebind (get_integer L v) (\<lambda>i. Inr (word_of_int i))"

definition get_u64 :: "json_lib \<Rightarrow> json \<Rightarrow> exn + u64" where
  "get_u64 L v = ebind (get_integer L v) (\<lambda>i. Inr (word_of_int i))"

fun emap :: "('a \<Rightarrow> exn + 'b) \<Rightarrow> 'a list \<Rightarrow> exn + 'b list" where
  "emap f [] = Inr []"
| "emap f (x # xs) = ebind (f x) (\<lambda>y. ebind (emap f xs) (\<lambda>ys. Inr (y # ys)))"

fun get_metadata :: "json \<Rightarrow> exn + metadata" where
  "get_metadata (JObj m) = emap (\<lambda>(k, v). ebind (get_string v) (\<lambda>s. Inr (k, s))) m"
| "get_metadata _ = Inl Type_error"

fun get_vector :: "json_lib \<Rightarrow> json \<Rightarrow> exn + vec" where
  "get_vector L (JArr xs) =
     emap (\<lambda>x. case jl_to_float L x of None \<Rightarrow> Inl Type_error | Some f \<Rightarrow> Inr f) xs"
| "get_vector L _ = Inl Type_error"

definition json_metadata :: "metadata \<Rightarrow> json" where
  "json_metadata m = JObj (map (\<lambda>(k, v). (k, JStr v)) m)"

definition json_vector :: "json_lib \<Rightarrow> vec \<Rightarrow> json" where
  "json_vector L v = JArr (map (\<lambda>x. JFloat (jl_of_float L x)) v)"

subsection \<open>Encoding\<close>

definition prepared_chunk_json :: "json_lib \<Rightarrow> prepared_chunk \<Rightarrow> json" where
  "prepared_chunk_json L c = json_object
     [(''key'', JStr (pc_key c)),
      (''ordinal'', JInt (uint (pc_ordinal c))),
      (''text'', JStr (pc_text c)),
      (''indexed_text'', JStr (pc_indexed_text c)),
      (''context'', JStr (pc_context c)),
      (''start_line'', JInt (uint (pc_start_line c))),
      (''end_line'', JInt (uint (pc_end_line c))),
      (''embedding'', json_vector L (pc_embedding c))]"

definition prepared_json :: "json_lib \<Rightarrow> prepared_document \<Rightarrow> json" where
  "prepared_json L d = json_object
     [(''key'', JStr (pd_key d)),
      (''title'', JStr (pd_title d)),
      (''content'', JStr (pd_content d)),
      (''metadata'', json_metadata (pd_metadata d)),
      (''content_hash'', JStr (pd_content_hash d)),
      (''chunking_fingerprint'', JStr (pd_chunking_fingerprint d)),
      (''embedding_identity'', JStr (pd_embedding_identity d)),
      (''chunks'', JArr (map (prepared_chunk_json L) (pd_chunks d)))]"

definition job_json :: "json_lib \<Rightarrow> ingestion_job \<Rightarrow> json" where
  "job_json L job =
     (let v = json_object
        [(''version'', JInt 1),
         (''id'', JStr (job_id job)),
         (''operation'', JInt (operation_to_int (job_operation job))),
         (''document'', JStr (in_document (job_input job))),
         (''title'', JStr (in_title (job_input job))),
         (''content'', JStr (in_content (job_input job))),
         (''metadata'', json_metadata (in_metadata (job_input job))),
         (''revision'', JInt (uint (job_revision job))),
         (''content_hash'', JStr (job_content_hash job)),
         (''status'', JInt (status_to_int (job_status job))),
         (''created_at_ms'', JInt (job_created_at_ms job)),
         (''updated_at_ms'', JInt (job_updated_at_ms job))];
        v = (case job_error job of None \<Rightarrow> v
             | Some e \<Rightarrow> json_set ''error''
                 (json_object [(''code'', JInt (errc_to_int (je_code e))), (''message'', JStr (je_message e))]) v);
        v = (case job_prepared job of None \<Rightarrow> v
             | Some d \<Rightarrow> json_set ''prepared'' (prepared_json L d) v)
      in case job_mutation_applied job of None \<Rightarrow> v
         | Some b \<Rightarrow> json_set ''mutation_applied'' (JBool b) v)"

definition job_encode :: "json_lib \<Rightarrow> ingestion_job \<Rightarrow> exn + string" where
  "job_encode L job =
     (case jl_dump L (job_json L job) of None \<Rightarrow> Inl Type_error | Some s \<Rightarrow> Inr s)"

subsection \<open>Decoding\<close>

definition parse_prepared_chunk :: "json_lib \<Rightarrow> json \<Rightarrow> exn + prepared_chunk" where
  "parse_prepared_chunk L v =
     ebind (ebind (json_at ''key'' v) get_string) (\<lambda>key.
     ebind (ebind (json_at ''ordinal'' v) (get_u64 L)) (\<lambda>ordinal.
     ebind (ebind (json_at ''text'' v) get_string) (\<lambda>text.
     ebind (ebind (json_at ''indexed_text'' v) get_string) (\<lambda>itext.
     ebind (ebind (json_at ''context'' v) get_string) (\<lambda>ctx.
     ebind (ebind (json_at ''start_line'' v) (get_u32 L)) (\<lambda>start.
     ebind (ebind (json_at ''end_line'' v) (get_u32 L)) (\<lambda>stop.
     ebind (ebind (json_at ''embedding'' v) (get_vector L)) (\<lambda>emb.
     if length emb > kMaxVectorDimension then Inl (Runtime_error ''job embedding dimension is invalid'')
     else Inr \<lparr>pc_key = key, pc_ordinal = ordinal, pc_text = text, pc_indexed_text = itext,
               pc_context = ctx, pc_start_line = start, pc_end_line = stop, pc_embedding = emb\<rparr>))))))))"

definition parse_prepared :: "json_lib \<Rightarrow> json \<Rightarrow> exn + prepared_document" where
  "parse_prepared L v =
     ebind (ebind (json_at ''key'' v) get_string) (\<lambda>key.
     ebind (ebind (json_at ''title'' v) get_string) (\<lambda>title.
     ebind (ebind (json_at ''content'' v) get_string) (\<lambda>content.
     ebind (ebind (json_at ''metadata'' v) get_metadata) (\<lambda>meta.
     ebind (ebind (json_at ''content_hash'' v) get_string) (\<lambda>hash.
     ebind (ebind (json_at ''chunking_fingerprint'' v) get_string) (\<lambda>fp.
     ebind (if json_contains ''embedding_identity'' v
            then ebind (json_at ''embedding_identity'' v) get_string else Inr []) (\<lambda>ident.
     ebind (json_at ''chunks'' v) (\<lambda>chunks.
     case chunks of
       JArr xs \<Rightarrow>
         (if length xs > kMaxChunks then Inl (Runtime_error ''job prepared chunk count is invalid'')
          else ebind (emap (parse_prepared_chunk L) xs) (\<lambda>cs.
            Inr \<lparr>pd_key = key, pd_title = title, pd_content = content, pd_metadata = meta,
                 pd_content_hash = hash, pd_chunking_fingerprint = fp, pd_embedding_identity = ident,
                 pd_chunks = cs\<rparr>))
     | _ \<Rightarrow> Inl (Runtime_error ''job prepared chunk count is invalid'')))))))))"

definition decode_error :: "json_lib \<Rightarrow> json \<Rightarrow> exn + job_error option" where
  "decode_error L v =
     (if \<not> json_contains ''error'' v then Inr None
      else ebind (json_at ''error'' v) (\<lambda>e.
        ebind (ebind (json_at ''code'' e) (get_i32 L)) (\<lambda>code.
        if code < errc_to_int Errc_ok \<or> code > errc_to_int Errc_corrupt_index
        then Inl (Runtime_error ''job error code is invalid'')
        else ebind (ebind (json_at ''message'' e) get_string) (\<lambda>msg.
          Inr (Some \<lparr>je_code = errc_values ! nat code, je_message = msg\<rparr>)))))"

definition job_of_json :: "json_lib \<Rightarrow> json \<Rightarrow> exn + ingestion_job" where
  "job_of_json L v =
     ebind (json_at ''version'' v) (\<lambda>version.
     if \<not> (case version of JInt i \<Rightarrow> i = 1 | _ \<Rightarrow> jl_is_one L version)
     then Inl (Runtime_error ''unsupported job record version'')
     else
     ebind (ebind (json_at ''id'' v) get_string) (\<lambda>jid.
     ebind (if json_contains ''operation'' v then ebind (json_at ''operation'' v) (get_i32 L)
            else Inr (operation_to_int Op_upsert)) (\<lambda>oper.
     if oper < operation_to_int Op_upsert \<or> oper > operation_to_int Op_erase
     then Inl (Runtime_error ''job operation is invalid'')
     else
     ebind (ebind (json_at ''document'' v) get_string) (\<lambda>document.
     ebind (ebind (json_at ''title'' v) get_string) (\<lambda>title.
     ebind (ebind (json_at ''content'' v) get_string) (\<lambda>content.
     ebind (ebind (json_at ''metadata'' v) get_metadata) (\<lambda>meta.
     ebind (ebind (json_at ''revision'' v) (get_u64 L)) (\<lambda>revision.
     ebind (ebind (json_at ''content_hash'' v) get_string) (\<lambda>hash.
     ebind (ebind (json_at ''status'' v) (get_i32 L)) (\<lambda>status.
     if status < status_to_int Job_queued \<or> status > status_to_int Job_cancelled
     then Inl (Runtime_error ''job status is invalid'')
     else
     ebind (ebind (json_at ''created_at_ms'' v) (get_i64 L)) (\<lambda>created.
     ebind (ebind (json_at ''updated_at_ms'' v) (get_i64 L)) (\<lambda>updated.
     ebind (decode_error L v) (\<lambda>err.
     ebind (if json_contains ''prepared'' v
            then ebind (ebind (json_at ''prepared'' v) (parse_prepared L)) (\<lambda>d. Inr (Some d))
            else Inr None) (\<lambda>prepared.
     ebind (if json_contains ''mutation_applied'' v
            then ebind (ebind (json_at ''mutation_applied'' v) get_bool) (\<lambda>b. Inr (Some b))
            else Inr None) (\<lambda>applied.
     if jid = [] \<or> document = [] \<or> revision = 0
     then Inl (Runtime_error ''job identity is invalid'')
     else Inr \<lparr>job_id = jid,
       job_operation = (if oper = operation_to_int Op_upsert then Op_upsert else Op_erase),
       job_input = \<lparr>in_document = document, in_title = title, in_content = content, in_metadata = meta\<rparr>,
       job_revision = revision, job_content_hash = hash, job_status = status_values ! nat status,
       job_created_at_ms = created, job_updated_at_ms = updated, job_error = err,
       job_prepared = prepared, job_mutation_applied = applied\<rparr>)))))))))))))))"

definition job_decode :: "json_lib \<Rightarrow> string \<Rightarrow> exn + ingestion_job" where
  "job_decode L payload =
     (case jl_parse L payload of None \<Rightarrow> Inl Parse_error | Some v \<Rightarrow> job_of_json L v)"

definition serialize_ingestion_job :: "json_lib \<Rightarrow> ingestion_job \<Rightarrow> string result" where
  "serialize_ingestion_job L job =
     (case job_encode L job of
        Inl e \<Rightarrow> fail Errc_invalid_argument (''job record serialization failed: '' @ what L e)
      | Inr payload \<Rightarrow>
          (if length payload > kMaxWalRecordBytes
           then fail Errc_invalid_argument ''job record exceeds configured limit''
           else Inr payload))"

definition deserialize_ingestion_job :: "json_lib \<Rightarrow> string \<Rightarrow> ingestion_job result" where
  "deserialize_ingestion_job L payload =
     (case job_decode L payload of
        Inl e \<Rightarrow> fail Errc_corrupt_index (''job record is invalid: '' @ what L e)
      | Inr job \<Rightarrow> Inr job)"

subsection \<open>Decoding inverts encoding\<close>

text \<open>
  What the code relies on of the JSON library: a value the library can hold (object keys sorted
  and unique, integers within 64 bits, floats finite) that it prints, it reads back; a finite
  \<open>float\<close> stored as a \<open>double\<close> is read back unchanged.
\<close>

definition f64_finite :: "u64 \<Rightarrow> bool" where
  "f64_finite d = (d AND 0x7FF0000000000000 \<noteq> 0x7FF0000000000000)"

fun json_wf :: "json \<Rightarrow> bool" where
  "json_wf JNull = True"
| "json_wf (JBool b) = True"
| "json_wf (JInt i) = (- (2 ^ 63) \<le> i \<and> i < 2 ^ 64)"
| "json_wf (JFloat d) = f64_finite d"
| "json_wf (JStr s) = True"
| "json_wf (JArr xs) = list_all json_wf xs"
| "json_wf (JObj m) = (omap_wf m \<and> list_all json_wf (map snd m))"

definition json_lib_ok :: "json_lib \<Rightarrow> bool" where
  "json_lib_ok L \<longleftrightarrow>
     (\<forall>v s. json_wf v \<longrightarrow> jl_dump L v = Some s \<longrightarrow> jl_parse L s = Some v) \<and>
     (\<forall>x. f32_finite x \<longrightarrow> f64_finite (jl_of_float L x) \<and>
            jl_to_float L (JFloat (jl_of_float L x)) = Some x)"

definition prepared_wf :: "prepared_document \<Rightarrow> bool" where
  "prepared_wf d \<longleftrightarrow> omap_wf (pd_metadata d) \<and> length (pd_chunks d) \<le> kMaxChunks \<and>
     list_all (\<lambda>c. list_all f32_finite (pc_embedding c) \<and> length (pc_embedding c) \<le> kMaxVectorDimension)
       (pd_chunks d)"

definition job_wf :: "ingestion_job \<Rightarrow> bool" where
  "job_wf job \<longleftrightarrow> job_id job \<noteq> [] \<and> in_document (job_input job) \<noteq> [] \<and> job_revision job \<noteq> 0 \<and>
     omap_wf (in_metadata (job_input job)) \<and>
     - (2 ^ 63) \<le> job_created_at_ms job \<and> job_created_at_ms job < 2 ^ 63 \<and>
     - (2 ^ 63) \<le> job_updated_at_ms job \<and> job_updated_at_ms job < 2 ^ 63 \<and>
     (case job_prepared job of None \<Rightarrow> True | Some d \<Rightarrow> prepared_wf d)"

lemma emap_map: "(\<And>x. x \<in> set xs \<Longrightarrow> f (g x) = Inr (h x)) \<Longrightarrow> emap f (map g xs) = Inr (map h xs)"
  by (induction xs) auto

lemma sint_word_i64: "- (2 ^ 63) \<le> i \<Longrightarrow> i < 2 ^ 63 \<Longrightarrow> sint (word_of_int i :: u64) = i"
  by (subst sint_sbintrunc') (simp add: signed_take_bit_int_eq_self)

lemma sint_word_i32: "- (2 ^ 31) \<le> i \<Longrightarrow> i < 2 ^ 31 \<Longrightarrow> sint (word_of_int i :: u32) = i"
  by (subst sint_sbintrunc') (simp add: signed_take_bit_int_eq_self)

lemma get_integer_JInt [simp]: "get_integer L (JInt i) = Inr i"
  by (simp add: get_integer_def)

lemma get_words [simp]:
  "get_u32 L (JInt (uint w)) = Inr w" "get_u64 L (JInt (uint w')) = Inr w'"
  by (simp_all add: get_u32_def get_u64_def)

lemma get_metadata_json [simp]: "get_metadata (json_metadata m) = Inr m"
  using emap_map [of m _ "\<lambda>(k, v). (k, JStr v)" id] by (simp add: json_metadata_def split_beta)

lemma get_vector_json:
  "json_lib_ok L \<Longrightarrow> list_all f32_finite v \<Longrightarrow> get_vector L (json_vector L v) = Inr v"
  using emap_map [of v _ "\<lambda>x. JFloat (jl_of_float L x)" id]
  by (simp add: json_vector_def json_lib_ok_def list_all_iff)

lemma json_at_object [simp]:
  "json_at k (json_object kvs) =
     (case map_of (fold (\<lambda>(k, v). omap_put k v) kvs []) k of None \<Rightarrow> Inl (Missing_key k) | Some v \<Rightarrow> Inr v)"
  by (simp add: json_object_def)

lemma json_contains_object [simp]:
  "json_contains k (json_object kvs) = (map_of (fold (\<lambda>(k, v). omap_put k v) kvs []) k \<noteq> None)"
  by (simp add: json_object_def)

lemma parse_prepared_chunk_json:
  assumes "json_lib_ok L" and "list_all f32_finite (pc_embedding c)"
    and "length (pc_embedding c) \<le> kMaxVectorDimension"
  shows "parse_prepared_chunk L (prepared_chunk_json L c) = Inr c"
  using assms by (simp add: parse_prepared_chunk_def prepared_chunk_json_def get_vector_json)

lemma parse_prepared_json:
  assumes "json_lib_ok L" and "prepared_wf d"
  shows "parse_prepared L (prepared_json L d) = Inr d"
proof -
  have "emap (parse_prepared_chunk L) (map (prepared_chunk_json L) (pd_chunks d)) = Inr (map id (pd_chunks d))"
    using assms by (intro emap_map) (simp add: parse_prepared_chunk_json prepared_wf_def list_all_iff)
  then show ?thesis using assms(2) by (simp add: parse_prepared_def prepared_json_def prepared_wf_def)
qed

lemma json_set_object [simp]: "json_set k v (json_object kvs) = json_object (kvs @ [(k, v)])"
  by (simp add: json_object_def)

definition job_fields :: "json_lib \<Rightarrow> ingestion_job \<Rightarrow> (string \<times> json) list" where
  "job_fields L job =
     [(''version'', JInt 1),
      (''id'', JStr (job_id job)),
      (''operation'', JInt (operation_to_int (job_operation job))),
      (''document'', JStr (in_document (job_input job))),
      (''title'', JStr (in_title (job_input job))),
      (''content'', JStr (in_content (job_input job))),
      (''metadata'', json_metadata (in_metadata (job_input job))),
      (''revision'', JInt (uint (job_revision job))),
      (''content_hash'', JStr (job_content_hash job)),
      (''status'', JInt (status_to_int (job_status job))),
      (''created_at_ms'', JInt (job_created_at_ms job)),
      (''updated_at_ms'', JInt (job_updated_at_ms job))]
     @ (case job_error job of None \<Rightarrow> []
        | Some e \<Rightarrow> [(''error'', json_object [(''code'', JInt (errc_to_int (je_code e))),
                                         (''message'', JStr (je_message e))])])
     @ (case job_prepared job of None \<Rightarrow> [] | Some d \<Rightarrow> [(''prepared'', prepared_json L d)])
     @ (case job_mutation_applied job of None \<Rightarrow> [] | Some b \<Rightarrow> [(''mutation_applied'', JBool b)])"

lemma job_json_fields: "job_json L job = json_object (job_fields L job)"
  by (simp add: job_json_def job_fields_def Let_def split: option.split)

lemma job_lookup:
  "map_of (fold (\<lambda>(k, v). omap_put k v) (job_fields L job) []) k = map_of (job_fields L job) k"
proof -
  have "distinct (map fst (job_fields L job))"
    by (simp add: job_fields_def split: option.split)
  then show ?thesis by (simp add: om.get_puts split: option.split)
qed

lemma get_i32_small: "- (2 ^ 31) \<le> i \<Longrightarrow> i < 2 ^ 31 \<Longrightarrow> get_i32 L (JInt i) = Inr i"
  by (simp add: get_i32_def sint_word_i32)

lemma enum_bounds [simp]:
  "\<not> errc_to_int e < 0" "\<not> 10 < errc_to_int e" "\<not> status_to_int st < 0" "\<not> 7 < status_to_int st"
  "\<not> operation_to_int oper < 0" "\<not> 1 < operation_to_int oper"
  "(if operation_to_int oper = 0 then Op_upsert else Op_erase) = oper"
  by (simp_all add: not_less) (cases oper; simp)+

lemma get_errc [simp]: "get_i32 L (JInt (errc_to_int e)) = Inr (errc_to_int e)"
  by (cases e) (simp_all add: get_i32_small)

lemma get_status [simp]: "get_i32 L (JInt (status_to_int st)) = Inr (status_to_int st)"
  by (cases st) (simp_all add: get_i32_small)

lemma get_operation [simp]: "get_i32 L (JInt (operation_to_int oper)) = Inr (operation_to_int oper)"
  by (cases oper) (simp_all add: get_i32_small)

lemma job_at:
  "json_at k (job_json L job) =
     (case map_of (job_fields L job) k of None \<Rightarrow> Inl (Missing_key k) | Some v \<Rightarrow> Inr v)"
  by (simp only: job_json_fields json_at_object job_lookup)

lemma job_contains: "json_contains k (job_json L job) = (map_of (job_fields L job) k \<noteq> None)"
  by (simp only: job_json_fields json_contains_object job_lookup)

lemma job_field:
  "map_of (job_fields L job) ''version'' = Some (JInt 1)"
  "map_of (job_fields L job) ''id'' = Some (JStr (job_id job))"
  "map_of (job_fields L job) ''operation'' = Some (JInt (operation_to_int (job_operation job)))"
  "map_of (job_fields L job) ''document'' = Some (JStr (in_document (job_input job)))"
  "map_of (job_fields L job) ''title'' = Some (JStr (in_title (job_input job)))"
  "map_of (job_fields L job) ''content'' = Some (JStr (in_content (job_input job)))"
  "map_of (job_fields L job) ''metadata'' = Some (json_metadata (in_metadata (job_input job)))"
  "map_of (job_fields L job) ''revision'' = Some (JInt (uint (job_revision job)))"
  "map_of (job_fields L job) ''content_hash'' = Some (JStr (job_content_hash job))"
  "map_of (job_fields L job) ''status'' = Some (JInt (status_to_int (job_status job)))"
  "map_of (job_fields L job) ''created_at_ms'' = Some (JInt (job_created_at_ms job))"
  "map_of (job_fields L job) ''updated_at_ms'' = Some (JInt (job_updated_at_ms job))"
  by (simp_all add: job_fields_def)

lemma job_optional_field:
  "map_of (job_fields L job) ''error'' =
     map_option (\<lambda>e. json_object [(''code'', JInt (errc_to_int (je_code e))),
                                    (''message'', JStr (je_message e))]) (job_error job)"
  "map_of (job_fields L job) ''prepared'' = map_option (prepared_json L) (job_prepared job)"
  "map_of (job_fields L job) ''mutation_applied'' = map_option JBool (job_mutation_applied job)"
  by (simp_all add: job_fields_def split: option.split)

lemma decode_error_json: "decode_error L (job_json L job) = Inr (job_error job)"
  by (cases "job_error job") (simp_all add: decode_error_def job_at job_contains job_optional_field)

lemma job_of_job_json:
  assumes "json_lib_ok L" and "job_wf job"
  shows "job_of_json L (job_json L job) = Inr job"
proof -
  have prep: "(if json_contains ''prepared'' (job_json L job)
        then ebind (ebind (json_at ''prepared'' (job_json L job)) (parse_prepared L)) (\<lambda>d. Inr (Some d))
        else Inr None) = Inr (job_prepared job)"
    using assms by (cases "job_prepared job")
      (simp_all add: job_at job_contains job_optional_field job_wf_def parse_prepared_json)
  have app: "(if json_contains ''mutation_applied'' (job_json L job)
        then ebind (ebind (json_at ''mutation_applied'' (job_json L job)) get_bool) (\<lambda>b. Inr (Some b))
        else Inr None) = Inr (job_mutation_applied job)"
    by (cases "job_mutation_applied job") (simp_all add: job_at job_contains job_optional_field)
  show ?thesis
    unfolding job_of_json_def prep app decode_error_json
    using assms(2) by (simp add: job_at job_contains job_field get_i64_def sint_word_i64 job_wf_def)
qed

lemma set_puts: "set (fold (\<lambda>(k, v). omap_put k v) kvs m) \<subseteq> set kvs \<union> set m"
proof (induction kvs arbitrary: m)
  case (Cons p kvs)
  obtain a b where p: "p = (a, b)" by force
  show ?case using Cons [of "omap_put a b m"] set_omap_put [of a b m] by (auto simp: p)
qed simp

lemma json_wf_object: "list_all (\<lambda>p. json_wf (snd p)) kvs \<Longrightarrow> json_wf (json_object kvs)"
  using set_puts [of kvs "[]"] om.wf_puts [of "[]" kvs] by (auto simp: json_object_def list_all_iff)

lemma json_wf_metadata: "omap_wf m \<Longrightarrow> json_wf (json_metadata m)"
  by (simp add: json_metadata_def omap_wf_def split_def comp_def list_all_iff)

lemma json_wf_uint: "json_wf (JInt (uint (w :: u64)))" "json_wf (JInt (uint (w' :: u32)))"
proof -
  have "uint w < 2 ^ 64" "uint w' < 2 ^ 32" "0 \<le> uint w" "0 \<le> uint w'"
    using unsigned_less [of w] unsigned_less [of w'] by simp_all
  then show "json_wf (JInt (uint w))" "json_wf (JInt (uint w'))"
    by (simp_all add: order.trans [of _ 0])
qed

lemma json_wf_prepared:
  assumes "json_lib_ok L" and "prepared_wf d"
  shows "json_wf (prepared_json L d)"
proof -
  have "json_wf (prepared_chunk_json L c)" if "c \<in> set (pd_chunks d)" for c
    unfolding prepared_chunk_json_def
    using assms that json_wf_uint
    by (intro json_wf_object) (auto simp: json_vector_def json_lib_ok_def prepared_wf_def list_all_iff)
  then show ?thesis
    unfolding prepared_json_def using assms(2)
    by (intro json_wf_object) (auto simp: json_wf_metadata prepared_wf_def list_all_iff)
qed

lemma json_wf_enums:
  "json_wf (JInt (errc_to_int e))" "json_wf (JInt (status_to_int st))" "json_wf (JInt (operation_to_int oper))"
  using errc_to_int_bounds [of e] status_to_int_bounds [of st] by (simp_all del: errc_to_int_bounds status_to_int_bounds)
    (cases oper; simp)

lemma json_wf_job:
  assumes "json_lib_ok L" and "job_wf job"
  shows "json_wf (job_json L job)"
  unfolding job_json_fields
proof (rule json_wf_object)
  have e: "json_wf (json_object [(''code'', JInt (errc_to_int c)), (''message'', JStr m)])" for c m
    using json_wf_enums(1) [of c] by (intro json_wf_object) simp
  show "list_all (\<lambda>p. json_wf (snd p)) (job_fields L job)"
    using assms json_wf_enums json_wf_uint(1) [of "job_revision job"]
    by (auto simp: job_fields_def job_wf_def json_wf_metadata json_wf_prepared e
        simp del: json_wf.simps(3) split: option.splits) simp_all
qed

lemma decode_encode:
  assumes "json_lib_ok L" and "job_wf job" and "job_encode L job = Inr s"
  shows "job_decode L s = Inr job"
proof -
  have "jl_dump L (job_json L job) = Some s"
    using assms(3) by (auto simp: job_encode_def split: option.splits)
  then have "jl_parse L s = Some (job_json L job)"
    using assms(1) json_wf_job [OF assms(1,2)] by (auto simp: json_lib_ok_def)
  then show ?thesis using job_of_job_json [OF assms(1,2)] by (simp add: job_decode_def)
qed

lemma job_of_json_identity:
  "job_of_json L v = Inr job \<Longrightarrow>
     job_id job \<noteq> [] \<and> in_document (job_input job) \<noteq> [] \<and> job_revision job \<noteq> 0"
  unfolding job_of_json_def by (auto simp: ebind_Inr simp del: if_split split: if_split_asm)

subsection \<open>Properties of the codec\<close>

text \<open>A library that knows one value, enough to evaluate the codec on a concrete job.\<close>

definition table_lib :: "(json \<times> string) list \<Rightarrow> json_lib" where
  "table_lib tbl =
     \<lparr>jl_dump = map_of tbl, jl_parse = map_of (map prod.swap tbl), jl_of_float = ucast,
      jl_to_float = (\<lambda>v. case v of JFloat d \<Rightarrow> Some (ucast d) | _ \<Rightarrow> None),
      jl_coerce_int = (\<lambda>_. None), jl_is_one = (\<lambda>_. False), jl_what = (\<lambda>_. ''json error'')\<rparr>"

lemma f64_finite_ucast: "f64_finite (ucast (x :: f32))"
proof -
  have "\<not> bit (ucast x AND 0x7FF0000000000000 :: u64) 62"
    using bit_imp_le_length [of x 62] by (auto simp: bit_simps)
  moreover have "bit (0x7FF0000000000000 :: u64) 62" by (simp add: bit_simps)
  ultimately show ?thesis unfolding f64_finite_def by metis
qed

lemma table_lib_ok:
  assumes "distinct (map snd tbl)"
  shows "json_lib_ok (table_lib tbl)"
proof -
  have "map_of (map prod.swap tbl) s = Some v" if "map_of tbl v = Some s" for v s
  proof -
    have "(s, v) \<in> set (map prod.swap tbl)" using map_of_SomeD [OF that] by force
    moreover have "distinct (map fst (map prod.swap tbl))" using assms by (simp add: comp_def)
    ultimately show ?thesis by simp
  qed
  moreover have "ucast (ucast (x :: f32) :: u64) = x" for x
    by (rule bit_word_eqI) (simp add: bit_simps)
  ultimately show ?thesis
    by (simp add: json_lib_ok_def table_lib_def f64_finite_ucast)
qed

definition sample_job :: ingestion_job where
  "sample_job =
     \<lparr>job_id = ''job_1'', job_operation = Op_upsert,
      job_input = \<lparr>in_document = ''d'', in_title = ''t'', in_content = ''c'', in_metadata = [(''k'', ''v'')]\<rparr>,
      job_revision = 1, job_content_hash = ''h'', job_status = Job_failed, job_created_at_ms = 10,
      job_updated_at_ms = 11,
      job_error = Some \<lparr>je_code = Errc_unavailable, je_message = ''offline''\<rparr>,
      job_prepared = None, job_mutation_applied = Some True\<rparr>"

lemma sample_job_wf: "job_wf sample_job"
  by (simp add: job_wf_def sample_job_def omap_wf_def)

text \<open>
  C21: a job record survives its round trip through the durable codec shared by the embedded log
  and the PostgreSQL store: what \<^verbatim>\<open>serialize_ingestion_job\<close> writes for a well-formed job,
  \<^verbatim>\<open>deserialize_ingestion_job\<close> reads back as the same job, with its prepared document, embeddings
  and recorded error; and whatever the reader accepts has an id, a document and a revision.\<close>
theorem job_record_roundtrip:
  assumes "json_lib_ok L" and "job_wf job" and "serialize_ingestion_job L job = Inr s"
  shows "deserialize_ingestion_job L s = Inr job \<and>
    (deserialize_ingestion_job L s' = Inr job' \<longrightarrow>
       job_id job' \<noteq> [] \<and> in_document (job_input job') \<noteq> [] \<and> job_revision job' \<noteq> 0)"
proof -
  have "job_encode L job = Inr s"
    using assms(3) by (auto simp: serialize_ingestion_job_def fail_def split: sum.splits if_splits)
  from decode_encode [OF assms(1,2) this] show ?thesis
    by (auto simp: deserialize_ingestion_job_def job_decode_def fail_def
        dest: job_of_json_identity split: sum.splits option.splits)
qed

definition sample_lib :: json_lib where
  "sample_lib = table_lib [(job_json (table_lib []) sample_job, ''J1'')]"

lemma sample_lib_dump: "jl_dump sample_lib (job_json sample_lib sample_job) = Some ''J1''"
  by (simp add: sample_lib_def table_lib_def job_json_def sample_job_def Let_def)

theorem job_record_roundtrip_witness:
  "deserialize_ingestion_job sample_lib ''J1'' = Inr sample_job"
proof -
  have "serialize_ingestion_job sample_lib sample_job = Inr ''J1''"
    by (simp add: serialize_ingestion_job_def job_encode_def sample_lib_dump kMaxWalRecordBytes_def)
  then show ?thesis
    using job_record_roundtrip [OF _ sample_job_wf, of sample_lib "''J1''"] table_lib_ok
    by (simp add: sample_lib_def)
qed

end
