(* ===== verification/Job_Log.thy ===== *)
theory Job_Log
  imports Job_Model Store_Wal Core_Keys
begin

text \<open>
  \<^verbatim>\<open>rag.cpp/src/ingestion/job_store.cpp\<close>: the append-only job log. Every frame is a complete job, so
  replay keeps the last frame of each job id. Opening repairs a torn tail; compaction rewrites the
  prefix that a checkpoint represents into its unfinished jobs and a bounded history, and keeps
  every newer frame. The hash map of the source is an ordered map here: its iteration order is
  only used before sorting by keys that are unique. Shown here: an append interrupted anywhere
  leaves the acknowledged jobs, replay is the last frame per id, compaction is atomic and keeps
  every unfinished job, and the two places where the log and its comments disagree.
\<close>

subsection \<open>Frames\<close>

definition kJobMagic :: u32 where "kJobMagic = 0x52424F4A"

definition encode_frame :: "json_lib \<Rightarrow> ingestion_job \<Rightarrow> exn + string result" where
  "encode_frame L job =
     ebind (job_encode L job) (\<lambda>payload.
       if length payload > kMaxWalRecordBytes \<or> length payload > 0xFFFFFFFF
       then Inr (fail Errc_invalid_argument ''job record exceeds configured limit'')
       else Inr (Inr (frame kJobMagic payload)))"

function valid_prefix_loop :: "json_lib \<Rightarrow> string \<Rightarrow> nat \<Rightarrow> nat \<Rightarrow> nat result" where
  "valid_prefix_loop L s position records =
     (if length s < kHeaderBytes then Inr position
      else if records + 1 > kMaxWalRecords then fail Errc_corrupt_index ''job record limit exceeded''
      else case frame_header s of
        None \<Rightarrow> Inr position
      | Some (magic, len, checksum) \<Rightarrow>
        (if magic \<noteq> kJobMagic \<or> unat len > kMaxWalRecordBytes
         then fail Errc_corrupt_index ''job record header is invalid''
         else
           let body = drop kHeaderBytes s in
           if unat len > length body then Inr position
           else
             let payload = take (unat len) body; rest = drop (unat len) body in
             if crc32 payload \<noteq> checksum
             then (if rest = [] then Inr position
                   else fail Errc_corrupt_index ''job record checksum mismatch'')
             else case job_decode L payload of
               Inl _ \<Rightarrow> (if rest = [] then Inr position
                         else fail Errc_corrupt_index ''job record payload is invalid'')
             | Inr _ \<Rightarrow> valid_prefix_loop L rest (position + kHeaderBytes + unat len) (records + 1)))"
  by pat_completeness auto
termination
  by (relation "measure (\<lambda>(L, s, p, r). length s)") (auto simp: kHeaderBytes_def)

declare valid_prefix_loop.simps [simp del]

definition valid_prefix :: "json_lib \<Rightarrow> string \<Rightarrow> nat result" where
  "valid_prefix L blob = valid_prefix_loop L blob 0 0"

type_synonym job_map = "(string \<times> ingestion_job) list"

function latest_loop :: "json_lib \<Rightarrow> string \<Rightarrow> nat \<Rightarrow> job_map \<Rightarrow> job_map result" where
  "latest_loop L s records latest =
     (if length s < kHeaderBytes then Inr latest
      else if records + 1 > kMaxWalRecords then fail Errc_corrupt_index ''job record limit exceeded''
      else case frame_header s of
        None \<Rightarrow> Inr latest
      | Some (magic, len, checksum) \<Rightarrow>
        (if magic \<noteq> kJobMagic \<or> unat len > kMaxWalRecordBytes
         then fail Errc_corrupt_index ''job record header is invalid''
         else
           let body = drop kHeaderBytes s in
           if unat len > length body then Inr latest
           else
             let payload = take (unat len) body; rest = drop (unat len) body in
             if crc32 payload \<noteq> checksum
             then (if rest = [] then Inr latest
                   else fail Errc_corrupt_index ''job record checksum mismatch'')
             else case job_decode L payload of
               Inl e \<Rightarrow> fail Errc_corrupt_index (''job replay failed: '' @ what L e)
             | Inr job \<Rightarrow> latest_loop L rest (records + 1) (omap_put (job_id job) job latest)))"
  by pat_completeness auto
termination
  by (relation "measure (\<lambda>(L, s, r, m). length s)") (auto simp: kHeaderBytes_def)

declare latest_loop.simps [simp del]

definition sort_jobs :: "ingestion_job list \<Rightarrow> ingestion_job list" where
  "sort_jobs js = sort_key (\<lambda>j. (job_created_at_ms j, job_id j)) js"

definition latest_jobs :: "json_lib \<Rightarrow> string \<Rightarrow> ingestion_job list result" where
  "latest_jobs L blob =
     and_then (latest_loop L blob 0 []) (\<lambda>latest. Inr (sort_jobs (map snd latest)))"

subsection \<open>The store\<close>

record job_os = os +
  jos_read :: bool   \<comment> \<open>reading the log succeeds\<close>

record job_store =
  js_open :: bool
  js_path :: string
  js_mode :: sync_mode
  js_bytes :: u64

definition js_init :: job_store where
  "js_init = \<lparr>js_open = False, js_path = [], js_mode = Sync_flush, js_bytes = 0\<rparr>"

definition read_log :: "job_os \<Rightarrow> string \<Rightarrow> fs \<Rightarrow> string result" where
  "read_log os path fs =
     (case fs path of
        None \<Rightarrow> Inr []
      | Some content \<Rightarrow>
          (if \<not> jos_read os then fail Errc_io_error ''job store read failed'' else Inr content))"

definition job_sync_now :: "job_os \<Rightarrow> sync_mode \<Rightarrow> unit result" where
  "job_sync_now os mode =
     (if mode = Sync_none then Inr ()
      else if mode = Sync_full \<and> os_fullfsync os then Inr ()
      else if \<not> os_fsync os then fail Errc_io_error ''job store fsync failed''
      else Inr ())"

definition job_open_file ::
    "json_lib \<Rightarrow> job_os \<Rightarrow> string \<Rightarrow> sync_mode \<Rightarrow> job_store \<Rightarrow> fs \<Rightarrow> unit result \<times> job_store \<times> fs" where
  "job_open_file L os path mode st fs =
     (case read_log os path fs of
        Inl e \<Rightarrow> (Inl e, st, fs)
      | Inr blob \<Rightarrow>
        (case valid_prefix L blob of
           Inl e \<Rightarrow> (Inl e, st, fs)
         | Inr intact \<Rightarrow>
           (case os_open os of
              Some e \<Rightarrow> (fail Errc_io_error (''job store open '' @ path @ '': '' @ e), st, fs)
            | None \<Rightarrow>
              (let st = st\<lparr>js_open := True, js_path := path, js_mode := mode\<rparr>;
                   fs = fs(path \<mapsto> (case fs path of None \<Rightarrow> [] | Some c \<Rightarrow> c))
               in if intact < length blob
                  then case os_truncate os of
                         Some e \<Rightarrow> (fail Errc_io_error (''job store tail repair failed: '' @ e),
                                    st\<lparr>js_open := False\<rparr>, fs)
                       | None \<Rightarrow>
                           (let fs = fs(path \<mapsto> take intact blob)
                            in case job_sync_now os mode of
                                 Inl e \<Rightarrow> (Inl e, st\<lparr>js_open := False\<rparr>, fs)
                               | Inr _ \<Rightarrow> (Inr (), st\<lparr>js_bytes := of_nat intact\<rparr>, fs))
                  else (Inr (), st\<lparr>js_bytes := of_nat intact\<rparr>, fs)))))"

definition job_persist ::
    "json_lib \<Rightarrow> job_os \<Rightarrow> ingestion_job \<Rightarrow> job_store \<Rightarrow> fs \<Rightarrow> unit result \<times> job_store \<times> fs" where
  "job_persist L os job st fs =
     (case encode_frame L job of
        Inl e \<Rightarrow> (fail Errc_io_error (''job store append failed: '' @ what L e), st, fs)
      | Inr (Inl e) \<Rightarrow> (Inl e, st, fs)
      | Inr (Inr fr) \<Rightarrow>
          (if \<not> js_open st then (fail Errc_io_error ''job store is not open'', st, fs)
           else
             let (file, err) = write_loop (os_writes os) fr (case fs (js_path st) of None \<Rightarrow> [] | Some c \<Rightarrow> c);
                 fs = fs(js_path st \<mapsto> file)
             in case err of
                  Some e \<Rightarrow> (fail Errc_io_error (''job store write: '' @ e), st, fs)
                | None \<Rightarrow>
                    (case job_sync_now os (js_mode st) of
                       Inl e \<Rightarrow> (Inl e, st, fs)
                     | Inr _ \<Rightarrow> (Inr (), st\<lparr>js_bytes := js_bytes st + of_nat (length fr)\<rparr>, fs))))"

definition load_ingestion_jobs_read_only :: "json_lib \<Rightarrow> job_os \<Rightarrow> string \<Rightarrow> fs \<Rightarrow> ingestion_job list result" where
  "load_ingestion_jobs_read_only L os path fs = and_then (read_log os path fs) (latest_jobs L)"

definition load_latest :: "json_lib \<Rightarrow> job_os \<Rightarrow> job_store \<Rightarrow> fs \<Rightarrow> ingestion_job list result" where
  "load_latest L os st fs = load_ingestion_jobs_read_only L os (js_path st) fs"

subsection \<open>Compaction\<close>

record retention =
  max_terminal_jobs :: nat
  max_terminal_bytes :: nat

definition default_retention :: retention where
  "default_retention = \<lparr>max_terminal_jobs = 128, max_terminal_bytes = 16 * 1024 * 1024\<rparr>"

function prefix_loop :: "json_lib \<Rightarrow> string \<Rightarrow> nat \<Rightarrow> nat \<Rightarrow> job_map \<Rightarrow> job_map result" where
  "prefix_loop L blob position prefix_size latest =
     (if \<not> position < prefix_size then Inr latest
      else case frame_header (drop position blob) of
        None \<Rightarrow> fail Errc_corrupt_index ''job prefix changed during compaction''
      | Some (magic, len, checksum) \<Rightarrow>
          (let body = position + kHeaderBytes
           in case job_decode L (take (unat len) (drop body blob)) of
                Inl e \<Rightarrow> fail Errc_io_error (''job store prefix compact failed: '' @ what L e)
              | Inr job \<Rightarrow>
                  prefix_loop L blob (body + unat len) prefix_size (omap_put (job_id job) job latest)))"
  by pat_completeness auto
termination
  by (relation "measure (\<lambda>(L, b, p, n, m). n - p)") (auto simp: kHeaderBytes_def)

declare prefix_loop.simps [simp del]

definition frame_or_fail :: "json_lib \<Rightarrow> ingestion_job \<Rightarrow> string result" where
  "frame_or_fail L job =
     (case encode_frame L job of
        Inl e \<Rightarrow> fail Errc_io_error (''job store prefix compact failed: '' @ what L e)
      | Inr r \<Rightarrow> r)"

fun retain_loop ::
    "json_lib \<Rightarrow> retention \<Rightarrow> ingestion_job list \<Rightarrow> nat \<Rightarrow> nat \<Rightarrow> ingestion_job list \<Rightarrow> ingestion_job list result" where
  "retain_loop L policy [] nbytes njobs selected = Inr selected"
| "retain_loop L policy (job # js) nbytes njobs selected =
     (if njobs \<ge> max_terminal_jobs policy then Inr selected
      else and_then (frame_or_fail L job) (\<lambda>encoded.
        if length encoded > max_terminal_bytes policy - nbytes
        then retain_loop L policy js nbytes njobs selected
        else retain_loop L policy js (nbytes + length encoded) (njobs + 1) (selected @ [job])))"

fun frames_loop :: "json_lib \<Rightarrow> ingestion_job list \<Rightarrow> string \<Rightarrow> string result" where
  "frames_loop L [] compacted = Inr compacted"
| "frames_loop L (job # js) compacted =
     and_then (frame_or_fail L job) (\<lambda>encoded. frames_loop L js (compacted @ encoded))"

definition newest_first :: "ingestion_job list \<Rightarrow> ingestion_job list" where
  "newest_first js = rev (sort_key (\<lambda>j. (job_updated_at_ms j, job_id j)) js)"

definition select_retained :: "json_lib \<Rightarrow> retention \<Rightarrow> job_map \<Rightarrow> ingestion_job list result" where
  "select_retained L policy latest =
     and_then (retain_loop L policy (newest_first (filter (\<lambda>j. terminal (job_status j)) (map snd latest))) 0 0
                 (filter (\<lambda>j. \<not> terminal (job_status j)) (map snd latest)))
       (\<lambda>selected. Inr (sort_jobs selected))"

text \<open>
  The bytes the compacted log will hold; \<open>None\<close> is the early return that leaves the log alone.
\<close>

definition compacted_bytes ::
    "json_lib \<Rightarrow> job_os \<Rightarrow> u64 \<Rightarrow> retention \<Rightarrow> job_store \<Rightarrow> fs \<Rightarrow> string option result" where
  "compacted_bytes L os represented_position policy st fs =
     (if \<not> js_open st then fail Errc_io_error ''job store is not open''
      else and_then (read_log os (js_path st) fs) (\<lambda>blob.
        and_then (valid_prefix L blob) (\<lambda>intact.
        if unat represented_position > intact
        then fail Errc_invalid_argument ''checkpoint position exceeds complete job log''
        else
          let prefix_size = unat represented_position in
          if valid_prefix L (take prefix_size blob) \<noteq> Inr prefix_size
          then fail Errc_invalid_argument ''checkpoint position is not a job-frame boundary''
          else if represented_position = 0 \<and> intact = length blob then Inr None
          else and_then (prefix_loop L blob 0 prefix_size []) (\<lambda>latest.
            and_then (select_retained L policy latest) (\<lambda>selected.
            and_then (frames_loop L selected []) (\<lambda>compacted.
              Inr (Some (compacted @ take (intact - prefix_size) (drop prefix_size blob)))))))))"

record compact_os =
  cos_pid :: nat
  cos_sequence :: u64
  cos_open :: "string option"
  cos_writes :: "write_outcome list"
  cos_fullfsync :: bool
  cos_fsync :: bool
  cos_close :: bool
  cos_rename :: "string option"
  cos_unlink :: bool
  cos_reopen :: bool

definition compact_name :: "compact_os \<Rightarrow> string \<Rightarrow> string" where
  "compact_name cos path =
     path @ ''.compact.'' @ to_dec (cos_pid cos) @ ''.'' @ to_dec (unat (cos_sequence cos))"

definition unlink_temp :: "compact_os \<Rightarrow> string \<Rightarrow> fs \<Rightarrow> fs" where
  "unlink_temp cos tmp fs = (if cos_unlink cos then fs(tmp := None) else fs)"

definition truncate_prefix ::
    "json_lib \<Rightarrow> job_os \<Rightarrow> compact_os \<Rightarrow> u64 \<Rightarrow> retention \<Rightarrow> job_store \<Rightarrow> fs
       \<Rightarrow> fs list \<times> unit result \<times> job_store" where
  "truncate_prefix L os cos represented_position policy st fs =
     (case compacted_bytes L os represented_position policy st fs of
        Inl e \<Rightarrow> ([fs], Inl e, st)
      | Inr None \<Rightarrow> ([fs], Inr (), st)
      | Inr (Some compacted) \<Rightarrow>
          (let path = js_path st; tmp = compact_name cos path in
           case cos_open cos of
             Some e \<Rightarrow> ([fs], fail Errc_io_error (''job store compact open failed: '' @ e), st)
           | None \<Rightarrow>
             (let (file, err) = write_loop (cos_writes cos) compacted [];
                  writing = fs # map (\<lambda>k. fs(tmp \<mapsto> take k file)) [0..<Suc (length file)];
                  written = fs(tmp \<mapsto> file);
                  undone = writing @ [unlink_temp cos tmp written];
                  synchronized = (js_mode st = Sync_none \<or> (js_mode st = Sync_full \<and> cos_fullfsync cos)
                                   \<or> cos_fsync cos)
              in case err of
                   Some e \<Rightarrow> (undone, fail Errc_io_error (''job store compact write failed: '' @ e), st)
                 | None \<Rightarrow>
                   (if \<not> synchronized
                    then (undone, fail Errc_io_error ''job store compact fsync failed'', st)
                    else if \<not> cos_close cos
                    then (undone, fail Errc_io_error ''job store compact close failed'', st)
                    else case cos_rename cos of
                      Some e \<Rightarrow> (undone, fail Errc_io_error (''job store compact rename failed: '' @ e), st)
                    | None \<Rightarrow>
                      (let renamed = (written(tmp := None))(path \<mapsto> file)
                       in if \<not> cos_reopen cos
                          then (writing @ [renamed],
                                fail Errc_io_error ''job store reopen after compact failed'',
                                st\<lparr>js_open := False\<rparr>)
                          else (writing @ [renamed], Inr (),
                                st\<lparr>js_bytes := of_nat (length compacted)\<rparr>))))))"

subsection \<open>Reading a log\<close>

definition job_payload :: "json_lib \<Rightarrow> ingestion_job \<Rightarrow> string" where
  "job_payload L job = (case job_encode L job of Inl _ \<Rightarrow> [] | Inr p \<Rightarrow> p)"

definition job_frame :: "json_lib \<Rightarrow> ingestion_job \<Rightarrow> string" where
  "job_frame L job = frame kJobMagic (job_payload L job)"

definition job_log :: "json_lib \<Rightarrow> ingestion_job list \<Rightarrow> string" where
  "job_log L js = concat (map (job_frame L) js)"

text \<open>A job the log can hold: well formed, printable, and within the record limit.\<close>

definition storable :: "json_lib \<Rightarrow> ingestion_job \<Rightarrow> bool" where
  "storable L job \<longleftrightarrow> json_lib_ok L \<and> job_wf job \<and> job_encode L job = Inr (job_payload L job) \<and>
     length (job_payload L job) \<le> kMaxWalRecordBytes"

lemma storable_payload:
  assumes "storable L job"
  shows "unat (of_nat (length (job_payload L job)) :: u32) = length (job_payload L job)"
    and "\<not> kMaxWalRecordBytes < length (job_payload L job)"
    and "job_decode L (job_payload L job) = Inr job"
    and "encode_frame L job = Inr (Inr (job_frame L job))"
proof -
  show u: "unat (of_nat (length (job_payload L job)) :: u32) = length (job_payload L job)"
    using assms by (intro unat_of_nat_u32) (simp add: storable_def kMaxWalRecordBytes_def)
  show "\<not> kMaxWalRecordBytes < length (job_payload L job)"
    using assms by (simp add: storable_def)
  show "job_decode L (job_payload L job) = Inr job"
    using assms decode_encode by (simp add: storable_def)
  show "encode_frame L job = Inr (Inr (job_frame L job))"
    using assms by (simp add: storable_def encode_frame_def job_frame_def kMaxWalRecordBytes_def)
qed

lemma frame_or_fail_storable [simp]: "storable L job \<Longrightarrow> frame_or_fail L job = Inr (job_frame L job)"
  by (simp add: frame_or_fail_def storable_payload)

lemma valid_prefix_frame:
  assumes "storable L job" and "n < kMaxWalRecords"
  shows "valid_prefix_loop L (job_frame L job @ s) p n =
    valid_prefix_loop L s (p + length (job_frame L job)) (n + 1)"
proof -
  have "\<not> length (job_frame L job @ s) < kHeaderBytes" by (simp add: job_frame_def)
  then show ?thesis
    using assms storable_payload [OF assms(1)]
    by (subst valid_prefix_loop.simps) (simp add: job_frame_def Let_def add.assoc)
qed

lemma latest_frame:
  assumes "storable L job" and "n < kMaxWalRecords"
  shows "latest_loop L (job_frame L job @ s) n m = latest_loop L s (n + 1) (omap_put (job_id job) job m)"
proof -
  have "\<not> length (job_frame L job @ s) < kHeaderBytes" by (simp add: job_frame_def)
  then show ?thesis
    using assms storable_payload [OF assms(1)]
    by (subst latest_loop.simps) (simp add: job_frame_def Let_def)
qed

lemma job_readers_short:
  "length s < kHeaderBytes \<Longrightarrow> valid_prefix_loop L s p n = Inr p"
  "length s < kHeaderBytes \<Longrightarrow> latest_loop L s n m = Inr m"
  by (subst valid_prefix_loop.simps, simp) (subst latest_loop.simps, simp)

lemma job_readers_torn:
  assumes "storable L job" and "n < kMaxWalRecords" and "k < length (job_frame L job)"
  shows "valid_prefix_loop L (take k (job_frame L job)) p n = Inr p"
    and "latest_loop L (take k (job_frame L job)) n m = Inr m"
proof -
  let ?s = "take k (job_frame L job)"
  show "valid_prefix_loop L ?s p n = Inr p" "latest_loop L ?s n m = Inr m"
  proof (atomize (full), cases "k < kHeaderBytes")
    case True
    then have "length ?s < kHeaderBytes" by simp
    then show "valid_prefix_loop L ?s p n = Inr p \<and> latest_loop L ?s n m = Inr m"
      by (simp only: job_readers_short simp_thms)
  next
    case False
    have h: "frame_header ?s = Some (kJobMagic, of_nat (length (job_payload L job)), crc32 (job_payload L job))"
      and b: "length (drop kHeaderBytes ?s) < length (job_payload L job)"
      using frame_header_cut [of k kJobMagic "job_payload L job"] False assms(3)
      by (simp_all add: job_frame_def)
    have len: "\<not> length ?s < kHeaderBytes" using False assms(3) by simp
    show "valid_prefix_loop L ?s p n = Inr p \<and> latest_loop L ?s n m = Inr m"
      using assms(2) h b len storable_payload [OF assms(1)]
      by (subst valid_prefix_loop.simps, subst latest_loop.simps) (simp add: Let_def)
  qed
qed

interpretation vp: framed_log "\<lambda>s (p, n). valid_prefix_loop L s p n" "job_frame L" "storable L"
  "\<lambda>job (p, n). (p + length (job_frame L job), Suc n)" "\<lambda>(p, n). Inr p" snd kMaxWalRecords for L
  by unfold_locales
    (auto simp: valid_prefix_frame job_readers_torn job_readers_short kHeaderBytes_def)

interpretation lt: framed_log "\<lambda>s (n, m). latest_loop L s n m" "job_frame L" "storable L"
  "\<lambda>job (n, m). (Suc n, omap_put (job_id job) job m)" "\<lambda>(n, m). Inr m" fst kMaxWalRecords for L
  by unfold_locales
    (auto simp: latest_frame job_readers_torn job_readers_short kHeaderBytes_def)

definition put_job :: "ingestion_job \<Rightarrow> job_map \<Rightarrow> job_map" where
  "put_job job m = omap_put (job_id job) job m"

definition latest_of :: "ingestion_job list \<Rightarrow> job_map" where
  "latest_of js = fold put_job js []"

lemma vp_fold:
  "fold (\<lambda>job (p, n). (p + length (job_frame L job), Suc n)) js (p, n) =
     (p + length (job_log L js), n + length js)"
  by (induction js arbitrary: p n) (simp_all add: job_log_def)

lemma lt_fold:
  "fold (\<lambda>job (n, m). (Suc n, omap_put (job_id job) job m)) js (n, m) = (n + length js, fold put_job js m)"
  by (induction js arbitrary: n m) (simp_all add: put_job_def)

lemma valid_prefix_log_torn:
  assumes "\<forall>j \<in> set js. storable L j" and "storable L job" and "length js < kMaxWalRecords"
  shows "valid_prefix L (job_log L js @ take k (job_frame L job)) =
    Inr (length (job_log L (if k < length (job_frame L job) then js else js @ [job])))"
  using vp.scan_log_torn [of js L job "(0, 0)" k] assms
  by (simp add: valid_prefix_def vp_fold job_log_def)

lemma latest_log_torn:
  assumes "\<forall>j \<in> set js. storable L j" and "storable L job" and "length js < kMaxWalRecords"
  shows "latest_loop L (job_log L js @ take k (job_frame L job)) 0 [] =
    Inr (latest_of (if k < length (job_frame L job) then js else js @ [job]))"
  using lt.scan_log_torn [of js L job "(0, [])" k] assms
  by (simp add: lt_fold latest_of_def job_log_def put_job_def)

lemma valid_prefix_log:
  assumes "\<forall>j \<in> set js. storable L j" and "length js \<le> kMaxWalRecords"
  shows "valid_prefix L (job_log L js) = Inr (length (job_log L js))"
  using vp.scan_log [of js L "(0, 0)" "[]"] assms
  by (simp add: valid_prefix_def vp_fold job_log_def job_readers_short kHeaderBytes_def)

lemma latest_log:
  assumes "\<forall>j \<in> set js. storable L j" and "length js \<le> kMaxWalRecords"
  shows "latest_loop L (job_log L js) 0 [] = Inr (latest_of js)"
  using lt.scan_log [of js L "(0, [])" "[]"] assms
  by (simp add: lt_fold latest_of_def job_log_def job_readers_short kHeaderBytes_def)

subsection \<open>The last frame of each job\<close>

lemma omap_wf_puts: "omap_wf m \<Longrightarrow> omap_wf (fold put_job js m)"
  by (induction js arbitrary: m) (simp_all add: put_job_def)

lemma omap_wf_latest: "omap_wf (latest_of js)"
  by (simp add: latest_of_def omap_wf_puts)

lemma map_of_puts:
  "map_of (fold put_job js m) i =
     (case find (\<lambda>j. job_id j = i) (rev js) of None \<Rightarrow> map_of m i | Some j \<Rightarrow> Some j)"
proof (induction js arbitrary: m)
  case (Cons j js)
  have "find P (xs @ [j]) = (case find P xs of None \<Rightarrow> if P j then Some j else None | Some x \<Rightarrow> Some x)"
    for P and xs :: "ingestion_job list"
    by (induction xs) simp_all
  then show ?case using Cons by (simp add: put_job_def split: option.split)
qed simp

lemma map_of_latest: "map_of (latest_of js) i = find (\<lambda>j. job_id j = i) (rev js)"
  by (simp add: latest_of_def map_of_puts split: option.split)

lemma latest_of_append: "latest_of (a @ b) = fold put_job b (latest_of a)"
  by (simp add: latest_of_def)

definition keyed :: "job_map \<Rightarrow> bool" where
  "keyed m \<longleftrightarrow> omap_wf m \<and> (\<forall>(i, j) \<in> set m. job_id j = i)"

lemma keyed_put: "keyed m \<Longrightarrow> keyed (put_job j m)"
  using set_omap_put [of "job_id j" j m] by (auto simp: keyed_def put_job_def)

lemma keyed_latest: "keyed (latest_of js)"
proof -
  have "keyed m \<Longrightarrow> keyed (fold put_job js m)" for m
    by (induction js arbitrary: m) (simp_all add: keyed_put)
  from this [of "[]"] show ?thesis by (simp add: latest_of_def keyed_def)
qed

lemma keyed_map_snd: "keyed m \<Longrightarrow> map (\<lambda>j. (job_id j, j)) (map snd m) = m"
  by (induction m) (auto simp: keyed_def omap_wf_Cons)

lemma keyed_rebuild:
  assumes "keyed m" and "mset js = mset (map snd m)"
  shows "latest_of js = m"
proof -
  have "latest_of js = fold (\<lambda>(k, v). omap_put k v) (map (\<lambda>j. (job_id j, j)) js) []"
    by (simp add: latest_of_def fold_map comp_def put_job_def [abs_def])
  moreover have "mset (map (\<lambda>j. (job_id j, j)) js) = mset (map (\<lambda>j. (job_id j, j)) (map snd m))"
    using assms(2) by (simp only: mset_map)
  then have "mset (map (\<lambda>j. (job_id j, j)) js) = mset m" by (simp only: keyed_map_snd [OF assms(1)])
  ultimately show ?thesis
    using omap_rebuild [of m "map (\<lambda>j. (job_id j, j)) js"] assms(1) by (simp only: keyed_def)
qed

lemma latest_of_sorted: "keyed m \<Longrightarrow> latest_of (sort_jobs (map snd m)) = m"
  by (rule keyed_rebuild) (simp_all add: sort_jobs_def)

lemma set_latest: "j \<in> snd ` set (latest_of js) \<Longrightarrow> j \<in> set js"
proof -
  have "snd ` set (fold put_job js m) \<subseteq> set js \<union> snd ` set m" for m
  proof (induction js arbitrary: m)
    case (Cons j js)
    have "snd ` set (put_job j m) \<subseteq> insert j (snd ` set m)"
      using image_mono [OF set_omap_put [of "job_id j" j m], of snd] by (simp add: put_job_def)
    with Cons [of "put_job j m"] show ?case by auto
  qed simp
  from this [of "[]"] show "j \<in> snd ` set (latest_of js) \<Longrightarrow> j \<in> set js"
    by (auto simp: latest_of_def)
qed

subsection \<open>Opening and appending\<close>

definition job_os_ok :: "job_os \<Rightarrow> bool" where
  "job_os_ok os \<longleftrightarrow> os_open os = None \<and> jos_read os \<and> os_truncate os = None \<and> os_fsync os"

lemma job_open_log:
  assumes "job_os_ok os" and "fs path = Some blob" and "valid_prefix L blob = Inr n" and "n \<le> length blob"
  shows "job_open_file L os path mode st fs =
    (Inr (), st\<lparr>js_open := True, js_path := path, js_mode := mode, js_bytes := of_nat n\<rparr>,
     fs(path \<mapsto> take n blob))"
proof -
  have "job_sync_now os mode = Inr ()" using assms(1) by (simp add: job_sync_now_def job_os_ok_def)
  then show ?thesis
    using assms by (simp add: job_open_file_def read_log_def job_os_ok_def Let_def fun_upd_idem)
qed

lemma job_persist_effect:
  assumes "storable L job" and "js_open st" and "fs (js_path st) = Some content"
    and "job_persist L os job st fs = (res, st', fs')"
  shows "\<exists>k. fs' = fs(js_path st \<mapsto> content @ take k (job_frame L job)) \<and>
    (has_value res \<longrightarrow> length (job_frame L job) \<le> k)"
proof -
  let ?wl = "write_loop (os_writes os) (job_frame L job) content"
  from write_loop_prefix [of "os_writes os" "job_frame L job" content]
  obtain k where k: "fst ?wl = content @ take k (job_frame L job) \<and>
      (snd ?wl = None \<longrightarrow> length (job_frame L job) \<le> k)" ..
  have "fs' = fs(js_path st \<mapsto> fst ?wl) \<and> (has_value res \<longrightarrow> snd ?wl = None)"
    using assms(2-4) storable_payload(4) [OF assms(1)]
    by (auto simp: job_persist_def Let_def split: prod.splits option.splits sum.splits)
  with k show ?thesis by auto
qed

lemma sorted_latest_jobs: "latest_loop L blob 0 [] = Inr m \<Longrightarrow> latest_jobs L blob = Inr (sort_jobs (map snd m))"
  by (simp add: latest_jobs_def)

subsection \<open>Compaction\<close>

lemma job_log_append [simp]: "job_log L (a @ b) = job_log L a @ job_log L b"
  by (simp add: job_log_def)

lemma prefix_loop_log:
  assumes "\<forall>j \<in> set js. storable L j"
  shows "prefix_loop L (job_log L (before @ js) @ s) (length (job_log L before))
      (length (job_log L (before @ js))) m = Inr (fold put_job js m)"
  using assms
proof (induction js arbitrary: before m)
  case Nil
  show ?case by (subst prefix_loop.simps) simp
next
  case (Cons j js)
  have j: "storable L j" using Cons.prems by simp
  let ?blob = "job_log L (before @ j # js) @ s"
  let ?rest = "job_log L js @ s"
  have frame1: "drop (length (job_log L before)) ?blob = job_frame L j @ ?rest"
    by (simp add: job_log_def)
  have body: "drop (length (job_log L before) + kHeaderBytes) ?blob = job_payload L j @ ?rest"
  proof -
    have "drop (length (job_log L before) + kHeaderBytes) ?blob = drop kHeaderBytes (job_frame L j @ ?rest)"
      by (simp only: frame1 drop_drop [symmetric] add.commute)
    then show ?thesis by (simp add: job_frame_def)
  qed
  have lt: "length (job_log L before) < length (job_log L (before @ j # js))"
    by (simp add: job_log_def job_frame_def kHeaderBytes_def)
  have pos: "length (job_log L before) + kHeaderBytes + length (job_payload L j) = length (job_log L (before @ [j]))"
    by (simp add: job_log_def job_frame_def)
  have "prefix_loop L ?blob (length (job_log L before)) (length (job_log L (before @ j # js))) m =
      prefix_loop L ?blob (length (job_log L (before @ [j]))) (length (job_log L (before @ j # js))) (put_job j m)"
    using lt storable_payload [OF j]
    by (subst prefix_loop.simps)
      (simp only: frame1 body Let_def, simp add: job_frame_def put_job_def pos [unfolded job_frame_def])
  also have "\<dots> = Inr (fold put_job js (put_job j m))"
    using Cons.IH [of "before @ [j]" "put_job j m"] Cons.prems by simp
  finally show ?case by simp
qed

lemma frames_loop_log:
  "\<forall>j \<in> set js. storable L j \<Longrightarrow> frames_loop L js acc = Inr (acc @ job_log L js)"
  by (induction js arbitrary: acc) (simp_all add: job_log_def)

lemma retain_loop_kept:
  assumes "\<forall>j \<in> set js. storable L j" and "nbytes \<le> max_terminal_bytes policy" and "njobs \<le> max_terminal_jobs policy"
  shows "\<exists>kept. retain_loop L policy js nbytes njobs sel = Inr (sel @ kept) \<and> mset kept \<subseteq># mset js \<and>
    njobs + length kept \<le> max_terminal_jobs policy \<and>
    nbytes + length (job_log L kept) \<le> max_terminal_bytes policy"
  using assms
proof (induction js arbitrary: nbytes njobs sel)
  case Nil
  then show ?case by (intro exI [of _ "[]"]) (simp add: job_log_def)
next
  case (Cons j js)
  show ?case
  proof (cases "njobs \<ge> max_terminal_jobs policy")
    case True
    with Cons.prems show ?thesis by (intro exI [of _ "[]"]) (simp add: job_log_def)
  next
    case False
    show ?thesis
    proof (cases "length (job_frame L j) > max_terminal_bytes policy - nbytes")
      case True
      have "M \<subseteq># mset js \<Longrightarrow> M \<subseteq># mset (j # js)" for M
        by (simp add: subset_mset.order_trans [of M "mset js"])
      with True Cons.IH [of nbytes njobs sel] Cons.prems False show ?thesis
        by auto
    next
      case fits: False
      have "nbytes + length (job_frame L j) \<le> max_terminal_bytes policy"
        using fits Cons.prems(2) by linarith
      then obtain kept where k: "retain_loop L policy js (nbytes + length (job_frame L j)) (njobs + 1) (sel @ [j]) =
          Inr ((sel @ [j]) @ kept)" "mset kept \<subseteq># mset js" "njobs + 1 + length kept \<le> max_terminal_jobs policy"
          "nbytes + length (job_frame L j) + length (job_log L kept) \<le> max_terminal_bytes policy"
        using Cons.IH [of "nbytes + length (job_frame L j)" "njobs + 1" "sel @ [j]"] Cons.prems False by auto
      with False fits Cons.prems show ?thesis
        by (intro exI [of _ "j # kept"]) (simp add: job_log_def)
    qed
  qed
qed

lemma map_of_sub_latest:
  assumes "keyed m" and "set js \<subseteq> snd ` set m"
  shows "map_of (latest_of js) i =
    (case map_of m i of None \<Rightarrow> None | Some j \<Rightarrow> if j \<in> set js then Some j else None)"
proof -
  have mem: "map_of m (job_id j) = Some j" if "j \<in> snd ` set m" for j
    using that assms(1) by (force simp: keyed_def dest: omap_wf_distinct)
  have idm: "job_id j = i" if "map_of m i = Some j" for j
    using assms(1) map_of_SomeD [OF that] by (auto simp: keyed_def)
  show ?thesis
  proof (cases "find (\<lambda>j. job_id j = i) (rev js)")
    case None
    then have "\<forall>j \<in> set js. job_id j \<noteq> i" by (simp add: find_None_iff)
    with None idm show ?thesis by (auto simp: map_of_latest split: option.split)
  next
    case (Some j)
    then have "j \<in> set js" "job_id j = i" using find_SomeD [OF Some] by auto
    then have "map_of m i = Some j" using mem [of j] assms(2) by blast
    with Some \<open>j \<in> set js\<close> show ?thesis by (simp add: map_of_latest)
  qed
qed

text \<open>
  What compaction may change: the last state of a job id is as it was, or it was terminal and the
  job is no longer in the log.
\<close>

definition compacts :: "ingestion_job list \<Rightarrow> ingestion_job list \<Rightarrow> bool" where
  "compacts js js' \<longleftrightarrow>
     (\<forall>i. map_of (latest_of js') i = map_of (latest_of js) i \<or>
       (map_of (latest_of js') i = None \<and>
        (\<exists>j. map_of (latest_of js) i = Some j \<and> terminal (job_status j))))"

lemma compacts_refl: "compacts js js"
  by (simp add: compacts_def)

lemma compacts_append: "compacts a b \<Longrightarrow> compacts (a @ post) (b @ post)"
  by (auto simp: compacts_def latest_of_append map_of_puts split: option.split)

lemma select_retained_latest:
  assumes "\<forall>j \<in> set pre. storable L j"
  shows "\<exists>kept. select_retained L policy (latest_of pre) =
      Inr (sort_jobs (filter (\<lambda>j. \<not> terminal (job_status j)) (map snd (latest_of pre)) @ kept)) \<and>
    mset kept \<subseteq># mset (filter (\<lambda>j. terminal (job_status j)) (map snd (latest_of pre))) \<and>
    length kept \<le> max_terminal_jobs policy \<and> length (job_log L kept) \<le> max_terminal_bytes policy"
proof -
  let ?t = "filter (\<lambda>j. terminal (job_status j)) (map snd (latest_of pre))"
  have "set (newest_first ?t) \<subseteq> set pre" by (auto simp: newest_first_def intro: set_latest)
  with assms have "\<forall>j \<in> set (newest_first ?t). storable L j" by blast
  from retain_loop_kept [OF this, of 0 policy 0 "filter (\<lambda>j. \<not> terminal (job_status j)) (map snd (latest_of pre))"]
  obtain kept where "retain_loop L policy (newest_first ?t) 0 0 (filter (\<lambda>j. \<not> terminal (job_status j)) (map snd (latest_of pre))) =
      Inr (filter (\<lambda>j. \<not> terminal (job_status j)) (map snd (latest_of pre)) @ kept)"
    "mset kept \<subseteq># mset (newest_first ?t)" "length kept \<le> max_terminal_jobs policy"
    "length (job_log L kept) \<le> max_terminal_bytes policy" by auto
  then show ?thesis
    by (intro exI [of _ kept]) (simp add: select_retained_def, simp add: newest_first_def)
qed

lemma compacts_selected:
  assumes "mset kept \<subseteq># mset (filter (\<lambda>j. terminal (job_status j)) (map snd (latest_of pre)))"
  shows "compacts pre (sort_jobs (filter (\<lambda>j. \<not> terminal (job_status j)) (map snd (latest_of pre)) @ kept))"
    (is "compacts pre ?js")
proof -
  have kept: "set kept \<subseteq> set (filter (\<lambda>j. terminal (job_status j)) (map snd (latest_of pre)))"
    using set_mset_mono [OF assms] by simp
  have set_js: "set ?js = {j \<in> snd ` set (latest_of pre). \<not> terminal (job_status j)} \<union> set kept"
    by (auto simp: sort_jobs_def)
  have sub: "set ?js \<subseteq> snd ` set (latest_of pre)" using kept set_js by auto
  show ?thesis
    unfolding compacts_def
  proof
    fix i
    show "map_of (latest_of ?js) i = map_of (latest_of pre) i \<or>
      (map_of (latest_of ?js) i = None \<and>
       (\<exists>j. map_of (latest_of pre) i = Some j \<and> terminal (job_status j)))"
    proof (cases "map_of (latest_of pre) i")
      case None
      then show ?thesis by (simp add: map_of_sub_latest [OF keyed_latest sub])
    next
      case (Some j)
      then have "j \<in> snd ` set (latest_of pre)" by (metis map_of_SomeD image_eqI snd_conv)
      then have "\<not> terminal (job_status j) \<Longrightarrow> j \<in> set ?js" using set_js by blast
      with Some show ?thesis
        by (auto simp: map_of_sub_latest [OF keyed_latest sub])
    qed
  qed
qed

lemma compacted_bytes_log:
  assumes "\<forall>j \<in> set (pre @ post). storable L j" and "length (pre @ post) \<le> kMaxWalRecords"
    and "js_open st" and "fs (js_path st) = Some (job_log L (pre @ post))" and "jos_read os"
    and "pos = of_nat (length (job_log L pre))" and "length (job_log L (pre @ post)) < 2 ^ 64"
  shows "(pre = [] \<and> compacted_bytes L os pos policy st fs = Inr None) \<or>
    (\<exists>sel. compacted_bytes L os pos policy st fs = Inr (Some (job_log L (sel @ post))) \<and>
       set sel \<subseteq> set pre \<and> compacts pre sel \<and>
       length (filter (\<lambda>j. terminal (job_status j)) sel) \<le> max_terminal_jobs policy)"
proof -
  have pos: "unat pos = length (job_log L pre)"
    using assms(6,7) by (simp add: unat_of_nat_u64)
  have vp: "valid_prefix L (job_log L pre @ job_log L post) = Inr (length (job_log L pre) + length (job_log L post))"
    using valid_prefix_log [of "pre @ post" L] assms(1,2) by simp
  have vp1: "valid_prefix L (job_log L pre) = Inr (length (job_log L pre))"
    using valid_prefix_log [of pre L] assms(1,2) by simp
  have pl: "prefix_loop L (job_log L pre @ job_log L post) 0 (length (job_log L pre)) [] = Inr (latest_of pre)"
    using prefix_loop_log [of pre L "[]" "job_log L post" "[]"] assms(1)
    by (simp add: latest_of_def job_log_def)
  from select_retained_latest [of pre L policy] assms(1)
  obtain kept where sel: "select_retained L policy (latest_of pre) =
      Inr (sort_jobs (filter (\<lambda>j. \<not> terminal (job_status j)) (map snd (latest_of pre)) @ kept))"
      (is "_ = Inr ?js")
    and kept: "mset kept \<subseteq># mset (filter (\<lambda>j. terminal (job_status j)) (map snd (latest_of pre)))"
    and len: "length kept \<le> max_terminal_jobs policy" by auto
  have "set kept \<subseteq> snd ` set (latest_of pre)" using set_mset_mono [OF kept] by auto
  moreover have "snd ` set (latest_of pre) \<subseteq> set pre" using set_latest by blast
  ultimately have sub: "set ?js \<subseteq> set pre" by (auto simp: sort_jobs_def)
  have fl: "frames_loop L ?js [] = Inr (job_log L ?js)"
    using frames_loop_log [of ?js L "[]"] sub assms(1) by auto
  have hist: "length (filter (\<lambda>j. terminal (job_status j)) ?js) \<le> max_terminal_jobs policy"
  proof -
    have "mset (filter (\<lambda>j. terminal (job_status j)) ?js) = mset (filter (\<lambda>j. terminal (job_status j))
        (filter (\<lambda>j. \<not> terminal (job_status j)) (map snd (latest_of pre)) @ kept))"
      unfolding sort_jobs_def mset_filter by (simp only: mset_sort)
    also have "\<dots> = mset (filter (\<lambda>j. terminal (job_status j)) kept)" by simp
    finally have "length (filter (\<lambda>j. terminal (job_status j)) ?js) = length (filter (\<lambda>j. terminal (job_status j)) kept)"
      by (rule mset_eq_length)
    also have "\<dots> \<le> length kept" by (rule length_filter_le)
    finally have "length (filter (\<lambda>j. terminal (job_status j)) ?js) \<le> length kept" .
    with len show ?thesis by simp
  qed
  show ?thesis
  proof (cases "pos = 0")
    case True
    then have "pre = []" using pos by (cases pre) (auto simp: job_log_def job_frame_def kHeaderBytes_def)
    with True show ?thesis using assms(3-5) vp vp1 by (simp add: compacted_bytes_def read_log_def Let_def job_log_def)
  next
    case False
    have "compacted_bytes L os pos policy st fs = Inr (Some (job_log L (?js @ post)))"
      using assms(3-5) False by (simp add: compacted_bytes_def read_log_def Let_def vp vp1 pos pl sel fl)
    with sub hist compacts_selected [OF kept] show ?thesis by blast
  qed
qed

lemma truncate_prefix_states:
  assumes "compacted_bytes L os pos policy st fs = Inr (Some new)"
    and "truncate_prefix L os cos pos policy st fs = (trace, res, st')" and "s \<in> set trace"
  shows "s (js_path st) \<in> {fs (js_path st), Some new}"
    and "has_value res \<Longrightarrow> last trace (js_path st) = Some new"
proof -
  obtain out err where wl: "write_loop (cos_writes cos) new [] = (out, err)" by force
  have full: "err = None \<Longrightarrow> out = new"
    using write_loop_prefix [of "cos_writes cos" new "[]"] by (auto simp: wl)
  have tmp: "js_path st \<noteq> compact_name cos (js_path st)" by (simp add: compact_name_def)
  show "s (js_path st) \<in> {fs (js_path st), Some new}"
    using assms tmp full
    by (auto simp: truncate_prefix_def Let_def wl unlink_temp_def split: option.splits if_splits)
  show "last trace (js_path st) = Some new" if "has_value res"
    using assms that tmp full
    by (auto simp: truncate_prefix_def Let_def wl split: option.splits if_splits)
qed

subsection \<open>Properties of the job log\<close>

text \<open>
  C19: crash safety of the job log. Append a job to a log of acknowledged jobs with any outcome of
  the system calls, or cut the new frame anywhere: a reader sees the acknowledged jobs, or those
  with the new one, and the new one for certain once the append was acknowledged. Reopening
  succeeds, keeps exactly what the reader saw and removes the torn tail. What the reader sees of
  a job is its last frame.\<close>
theorem job_log_crash_safe:
  assumes "\<forall>j \<in> set js. storable L j" and "storable L job" and "length js < kMaxWalRecords"
    and "js_open st" and "fs (js_path st) = Some (job_log L js)"
    and "job_persist L os job st fs = (res, st', fs')" and "job_os_ok os'"
  shows "\<exists>js'. js' \<in> {js, js @ [job]} \<and> (has_value res \<longrightarrow> js' = js @ [job]) \<and>
      load_latest L os' st fs' = Inr (sort_jobs (map snd (latest_of js'))) \<and>
      (\<forall>i. map_of (latest_of js') i = find (\<lambda>j. job_id j = i) (rev js')) \<and>
      job_open_file L os' (js_path st) mode js_init fs' =
        (Inr (), \<lparr>js_open = True, js_path = js_path st, js_mode = mode,
                  js_bytes = of_nat (length (job_log L js'))\<rparr>,
         fs'(js_path st \<mapsto> job_log L js'))"
proof -
  obtain k where fs': "fs' = fs(js_path st \<mapsto> job_log L js @ take k (job_frame L job))"
    and ack: "has_value res \<longrightarrow> length (job_frame L job) \<le> k"
    using job_persist_effect [OF assms(2,4,5,6)] by blast
  define js' where "js' = (if k < length (job_frame L job) then js else js @ [job])"
  have cut: "length (job_log L js') \<le> length (job_log L js @ take k (job_frame L job))"
    "take (length (job_log L js')) (job_log L js @ take k (job_frame L job)) = job_log L js'"
    by (simp_all add: js'_def job_log_def)
  have "latest_jobs L (job_log L js @ take k (job_frame L job)) = Inr (sort_jobs (map snd (latest_of js')))"
    unfolding js'_def by (rule sorted_latest_jobs [OF latest_log_torn [OF assms(1-3)]])
  then have "load_latest L os' st fs' = Inr (sort_jobs (map snd (latest_of js')))"
    using assms(7) by (simp add: load_latest_def load_ingestion_jobs_read_only_def read_log_def fs' job_os_ok_def)
  moreover have "job_open_file L os' (js_path st) mode js_init fs' =
        (Inr (), \<lparr>js_open = True, js_path = js_path st, js_mode = mode,
                  js_bytes = of_nat (length (job_log L js'))\<rparr>,
         fs'(js_path st \<mapsto> job_log L js'))"
    using job_open_log [OF assms(7), of fs' "js_path st" _ L "length (job_log L js')"]
      valid_prefix_log_torn [OF assms(1-3), of k] cut
    by (simp add: js'_def fs' js_init_def)
  ultimately show ?thesis
    using ack by (intro exI [of _ js']) (auto simp: js'_def map_of_latest)
qed

definition sample_job_os :: job_os where
  "sample_job_os = \<lparr>os_open = None, os_writes = [], os_fullfsync = True, os_fsync = True,
     os_truncate = None, jos_read = True\<rparr>"

definition sample_store :: job_store where
  "sample_store = \<lparr>js_open = True, js_path = ''jobs'', js_mode = Sync_flush, js_bytes = 0\<rparr>"

lemma sample_payload: "job_payload sample_lib sample_job = ''J1''"
  by (simp add: job_payload_def job_encode_def sample_lib_dump)

lemma sample_storable: "storable sample_lib sample_job"
  using table_lib_ok [of "[(job_json (table_lib []) sample_job, ''J1'')]"]
  by (simp add: storable_def sample_job_wf sample_payload kMaxWalRecordBytes_def job_encode_def
      sample_lib_dump) (simp add: sample_lib_def)

lemma sample_os_ok: "job_os_ok sample_job_os"
  by (simp add: job_os_ok_def sample_job_os_def)

theorem job_log_crash_safe_witness:
  "\<exists>fs'. fst (job_persist sample_lib sample_job_os sample_job sample_store [''jobs'' \<mapsto> []]) = Inr () \<and>
     load_latest sample_lib sample_job_os sample_store fs' = Inr [sample_job]"
proof -
  let ?r = "job_persist sample_lib sample_job_os sample_job sample_store [''jobs'' \<mapsto> []]"
  have ack: "fst ?r = Inr ()"
    using storable_payload(4) [OF sample_storable]
    by (simp add: job_persist_def sample_store_def sample_job_os_def job_sync_now_def)
  have split: "?r = (fst ?r, fst (snd ?r), snd (snd ?r))" by simp
  have "\<exists>js'. js' \<in> {[], [] @ [sample_job]} \<and> (has_value (fst ?r) \<longrightarrow> js' = [] @ [sample_job]) \<and>
      load_latest sample_lib sample_job_os sample_store (snd (snd ?r)) = Inr (sort_jobs (map snd (latest_of js')))"
    using job_log_crash_safe [OF _ sample_storable _ _ _ split sample_os_ok, of "[]" Sync_flush]
    by (auto simp: sample_store_def job_log_def kMaxWalRecords_def)
  then have "load_latest sample_lib sample_job_os sample_store (snd (snd ?r)) =
      Inr (sort_jobs (map snd (latest_of [sample_job])))"
    using ack by auto
  with ack show ?thesis
    by (intro exI [of _ "snd (snd ?r)"]) (simp add: latest_of_def put_job_def sort_jobs_def)
qed

text \<open>
  C20: compaction is atomic and keeps every unfinished job. In every file-system state that
  \<^verbatim>\<open>truncate_prefix\<close> passes through, the log holds whole frames whose last states are those before
  the compaction, except for terminal jobs that were dropped. When it reports success, every frame
  after the represented position is kept and at most \<^verbatim>\<open>max_terminal_jobs\<close> terminal jobs of the
  prefix are.\<close>
theorem job_compaction_safe:
  assumes "\<forall>j \<in> set (pre @ post). storable L j" and "length (pre @ post) \<le> kMaxWalRecords"
    and "js_open st" and "fs (js_path st) = Some (job_log L (pre @ post))" and "jos_read os"
    and "length (job_log L (pre @ post)) < 2 ^ 64"
    and "truncate_prefix L os cos (of_nat (length (job_log L pre))) policy st fs = (trace, res, st')"
    and "s \<in> set trace"
  shows "(\<exists>js'. s (js_path st) = Some (job_log L js') \<and> set js' \<subseteq> set (pre @ post) \<and> compacts (pre @ post) js') \<and>
    (has_value res \<longrightarrow>
      (\<exists>sel. last trace (js_path st) = Some (job_log L (sel @ post)) \<and> compacts pre sel \<and>
        length (filter (\<lambda>j. terminal (job_status j)) sel) \<le> max_terminal_jobs policy))"
  using compacted_bytes_log [of pre post L st fs os, OF assms(1-5) refl assms(6), of policy]
proof (elim disjE exE conjE)
  assume "pre = []" "compacted_bytes L os (of_nat (length (job_log L pre))) policy st fs = Inr None"
  then have "trace = [fs]" using assms(7) by (simp add: truncate_prefix_def)
  then have "s (js_path st) = Some (job_log L post)" "last trace (js_path st) = Some (job_log L ([] @ post))"
    using assms(4,8) \<open>pre = []\<close> by simp_all
  moreover have "length (filter (\<lambda>j. terminal (job_status j)) []) \<le> max_terminal_jobs policy" by simp
  ultimately show ?thesis using \<open>pre = []\<close>
    by (intro conjI impI exI [of _ post] exI [of _ "[]"]) (simp_all add: compacts_refl)
next
  fix sel
  assume b: "compacted_bytes L os (of_nat (length (job_log L pre))) policy st fs = Inr (Some (job_log L (sel @ post)))"
    and sub: "set sel \<subseteq> set pre" and c: "compacts pre sel"
    and n: "length (filter (\<lambda>j. terminal (job_status j)) sel) \<le> max_terminal_jobs policy"
  have "s (js_path st) = Some (job_log L (pre @ post)) \<or> s (js_path st) = Some (job_log L (sel @ post))"
    using truncate_prefix_states(1) [OF b assms(7,8)] assms(4) by auto
  moreover have "set (sel @ post) \<subseteq> set (pre @ post)" using sub by auto
  ultimately have "\<exists>js'. s (js_path st) = Some (job_log L js') \<and> set js' \<subseteq> set (pre @ post) \<and> compacts (pre @ post) js'"
    using compacts_append [OF c, of post] compacts_refl [of "pre @ post"] by blast
  with truncate_prefix_states(2) [OF b assms(7,8)] c n show ?thesis by blast
qed

definition sample_compact_os :: compact_os where
  "sample_compact_os = \<lparr>cos_pid = 9, cos_sequence = 0, cos_open = None, cos_writes = [],
     cos_fullfsync = True, cos_fsync = True, cos_close = True, cos_rename = None, cos_unlink = True,
     cos_reopen = True\<rparr>"

theorem job_compaction_safe_witness:
  "\<exists>trace sel. fst (truncate_prefix sample_lib sample_job_os sample_compact_os
       (of_nat (length (job_log sample_lib [sample_job]))) \<lparr>max_terminal_jobs = 0, max_terminal_bytes = 0\<rparr>
       sample_store [''jobs'' \<mapsto> job_log sample_lib [sample_job]]) = trace \<and>
     last trace ''jobs'' = Some (job_log sample_lib sel) \<and> compacts [sample_job] sel \<and>
     filter (\<lambda>j. terminal (job_status j)) sel = []"
proof -
  let ?pol = "\<lparr>max_terminal_jobs = 0, max_terminal_bytes = 0\<rparr>"
  let ?fs = "[''jobs'' \<mapsto> job_log sample_lib [sample_job]]"
  let ?pos = "of_nat (length (job_log sample_lib [sample_job])) :: u64"
  let ?r = "truncate_prefix sample_lib sample_job_os sample_compact_os ?pos ?pol sample_store ?fs"
  have all: "\<forall>j \<in> set ([sample_job] @ []). storable sample_lib j" using sample_storable by simp
  have pre: "length ([sample_job] @ []) \<le> kMaxWalRecords" "js_open sample_store"
    "?fs (js_path sample_store) = Some (job_log sample_lib ([sample_job] @ []))" "jos_read sample_job_os"
    "length (job_log sample_lib ([sample_job] @ [])) < 2 ^ 64"
    by (simp_all add: sample_store_def sample_job_os_def kMaxWalRecords_def job_log_def job_frame_def
        sample_payload kHeaderBytes_def)
  have split: "?r = (fst ?r, fst (snd ?r), snd (snd ?r))" by simp
  have mem: "hd (fst ?r) \<in> set (fst ?r)"
    by (rule hd_in_set) (simp add: truncate_prefix_def Let_def split: sum.split option.split prod.split)
  have ok: "has_value (fst (snd ?r))"
    using compacted_bytes_log [of "[sample_job]" "[]" sample_lib sample_store ?fs sample_job_os,
        OF all pre(1-4) refl pre(5), of ?pol]
    by (auto simp: truncate_prefix_def Let_def sample_compact_os_def)
  from job_compaction_safe [OF all pre split mem] ok show ?thesis
    by (auto simp: sample_store_def)
qed

text \<open>
  Where the read-only path and recovery part. \<^verbatim>\<open>job_store.hpp\<close> says the administrative reader
  accepts a torn final frame the way recovery does. A complete final frame whose payload does not
  decode is a torn tail for recovery, which opens the log and cuts the frame off, and an error for
  the reader, which reports \<^verbatim>\<open>corrupt_index\<close>.\<close>
theorem undecodable_tail_diverges:
  assumes "\<forall>j \<in> set js. storable L j" and "length js < kMaxWalRecords"
    and "job_decode L p = Inl e" and "length p \<le> kMaxWalRecordBytes" and "job_os_ok os"
    and "fs path = Some (job_log L js @ frame kJobMagic p)"
  shows "failed_with Errc_corrupt_index (load_ingestion_jobs_read_only L os path fs) \<and>
    fst (job_open_file L os path mode st fs) = Inr () \<and>
    snd (snd (job_open_file L os path mode st fs)) path = Some (job_log L js)"
proof -
  have u: "unat (of_nat (length p) :: u32) = length p"
    using assms(4) by (intro unat_of_nat_u32) (simp add: kMaxWalRecordBytes_def)
  have len: "\<not> length (frame kJobMagic p) < kHeaderBytes" by simp
  have hdr: "frame_header (frame kJobMagic p) = Some (kJobMagic, of_nat (length p), crc32 p)"
    using frame_header_frame [of kJobMagic p "[]"] by simp
  have vt: "valid_prefix_loop L (frame kJobMagic p) q (length js) = Inr q" for q
    using assms(2-4) u len by (subst valid_prefix_loop.simps) (simp add: hdr Let_def)
  have lt: "failed_with Errc_corrupt_index (latest_loop L (frame kJobMagic p) (length js) m)" for m
    using assms(2-4) u len by (subst latest_loop.simps) (simp add: hdr Let_def)
  have "valid_prefix L (job_log L js @ frame kJobMagic p) = Inr (length (job_log L js))"
    using vp.scan_log [of js L "(0, 0)" "frame kJobMagic p"] assms(1,2)
    by (simp add: valid_prefix_def vp_fold job_log_def vt)
  from job_open_log [of os fs path, OF assms(5,6) this, of mode st]
  have "fst (job_open_file L os path mode st fs) = Inr () \<and>
      snd (snd (job_open_file L os path mode st fs)) path = Some (job_log L js)" by simp
  moreover have "latest_loop L (job_log L js @ frame kJobMagic p) 0 [] =
      latest_loop L (frame kJobMagic p) (length js) (latest_of js)"
    using lt.scan_log [of js L "(0, [])" "frame kJobMagic p"] assms(1,2)
    by (simp add: lt_fold latest_of_def job_log_def)
  then have "failed_with Errc_corrupt_index (load_ingestion_jobs_read_only L os path fs)"
    using lt [of "latest_of js"] assms(5,6)
    by (auto simp: load_ingestion_jobs_read_only_def read_log_def job_os_ok_def latest_jobs_def
        failed_with_def split: sum.splits)
  ultimately show ?thesis by simp
qed

theorem undecodable_tail_diverges_witness:
  "failed_with Errc_corrupt_index (load_ingestion_jobs_read_only sample_lib sample_job_os ''jobs''
     [''jobs'' \<mapsto> job_log sample_lib [sample_job] @ frame kJobMagic ''{''])"
proof -
  have "job_decode sample_lib ''{'' = Inl Parse_error"
    by (simp add: job_decode_def sample_lib_def table_lib_def)
  then show ?thesis
    using undecodable_tail_diverges [of "[sample_job]" sample_lib "''{''" Parse_error sample_job_os
        "[''jobs'' \<mapsto> job_log sample_lib [sample_job] @ frame kJobMagic ''{'']" "''jobs''"]
      sample_storable sample_os_ok
    by (simp add: kMaxWalRecords_def kMaxWalRecordBytes_def)
qed

end
