(* ===== verification/Ingestion_Coordinator.thy ===== *)
theory Ingestion_Coordinator
  imports Job_Log
begin

text \<open>
  \<^verbatim>\<open>rag.cpp/src/ingestion/coordinator.cpp\<close> and \<^verbatim>\<open>include/rag/ingestion/coordinator.hpp\<close>: the coordinator
  that turns submissions into durable jobs and runs them on worker threads. The backend, the job
  store, the preparation functions, the two clocks and the hash-map iteration order are fields of
  \<open>deps\<close>. Every region that the source runs under \<^verbatim>\<open>mutex_\<close> is one atomic function on the state; what
  a worker does between two regions is its \<open>task\<close>, and \<open>exec_step\<close> takes a task through one region.
  A run of the program is any interleaving of such steps (\<open>coord_step\<close>).
\<close>

subsection \<open>State\<close>

record ('b, 's) deps =
  d_activate :: "prepared_document \<Rightarrow> document_revision \<Rightarrow> 'b \<Rightarrow> unit result \<times> 'b"
  d_erase :: "document_key \<Rightarrow> document_revision \<Rightarrow> 'b \<Rightarrow> bool result \<times> 'b"
  d_persist :: "ingestion_job \<Rightarrow> 's \<Rightarrow> unit result \<times> 's"
  d_load_latest :: "'s \<Rightarrow> ingestion_job list result"
  d_prepare :: "ingestion_input \<Rightarrow> prepared_document result"
  d_embed :: "(prepared_document \<Rightarrow> prepared_document result) option"
  d_system_ms :: "nat \<Rightarrow> int"     \<comment> \<open>successive readings of the system clock\<close>
  d_steady :: "nat \<Rightarrow> nat"        \<comment> \<open>successive readings of the steady clock\<close>
  d_order :: "string list \<Rightarrow> string list"   \<comment> \<open>iteration order of \<^verbatim>\<open>jobs_\<close>\<close>
  d_workers :: nat
  d_queue_capacity :: nat

record ('b, 's) coordinator =
  co_backend :: 'b
  co_store :: 's
  co_ticks :: nat
  co_sequence :: nat
  co_ready_calls :: nat            \<comment> \<open>calls of \<^verbatim>\<open>on_ready\<close>\<close>
  co_stopping :: bool
  co_queue :: "string list"
  co_jobs :: "(string \<times> ingestion_job) list"
  co_latest_revision :: "(document_key \<times> document_revision) list"
  co_latest_job :: "(document_key \<times> string) list"

record submission =
  su_job :: ingestion_job
  su_unchanged :: bool
  su_existing_pending :: bool

abbreviation job_at :: "('b, 's) coordinator \<Rightarrow> string \<Rightarrow> ingestion_job option" where
  "job_at s i \<equiv> map_of (co_jobs s) i"

text \<open>\<^verbatim>\<open>latest_revision_[key]\<close>: a missing entry reads as 0.\<close>

definition latest_revision :: "('b, 's) coordinator \<Rightarrow> document_key \<Rightarrow> document_revision" where
  "latest_revision s k = (case map_of (co_latest_revision s) k of None \<Rightarrow> 0 | Some r \<Rightarrow> r)"

definition now_ms :: "('b, 's) deps \<Rightarrow> ('b, 's) coordinator \<Rightarrow> int \<times> ('b, 's) coordinator" where
  "now_ms D s = (d_system_ms D (co_ticks s), s\<lparr>co_ticks := co_ticks s + 1\<rparr>)"

definition next_job_id :: "('b, 's) deps \<Rightarrow> ('b, 's) coordinator \<Rightarrow> string \<times> ('b, 's) coordinator" where
  "next_job_id D s =
     (''job_'' @ to_dec (d_steady D (co_ticks s)) @ ''_'' @ to_dec (co_sequence s),
      s\<lparr>co_ticks := co_ticks s + 1, co_sequence := co_sequence s + 1\<rparr>)"

definition bounded_error :: "error \<Rightarrow> job_error" where
  "bounded_error e = \<lparr>je_code = err_code e, je_message = take 1024 (err_message e)\<rparr>"

definition persist :: "('b, 's) deps \<Rightarrow> ingestion_job \<Rightarrow> ('b, 's) coordinator \<Rightarrow> unit result \<times> ('b, 's) coordinator" where
  "persist D job s = (let (r, st) = d_persist D job (co_store s) in (r, s\<lparr>co_store := st\<rparr>))"

definition put_memory :: "ingestion_job \<Rightarrow> ('b, 's) coordinator \<Rightarrow> ('b, 's) coordinator" where
  "put_memory job s = s\<lparr>co_jobs := omap_put (job_id job) job (co_jobs s)\<rparr>"

text \<open>Persist a snapshot and, only when that succeeded, make it the job's state in memory.\<close>

definition commit :: "('b, 's) deps \<Rightarrow> ingestion_job \<Rightarrow> ('b, 's) coordinator \<Rightarrow> unit result \<times> ('b, 's) coordinator" where
  "commit D job s =
     (case persist D job s of (Inl e, s) \<Rightarrow> (Inl e, s) | (Inr _, s) \<Rightarrow> (Inr (), put_memory job s))"

definition superseded_snapshot :: "ingestion_job \<Rightarrow> int \<Rightarrow> ingestion_job" where
  "superseded_snapshot job t =
     job\<lparr>job_status := Job_superseded, job_updated_at_ms := t,
         job_input := (job_input job)\<lparr>in_content := []\<rparr>, job_prepared := None\<rparr>"

subsection \<open>Transitions\<close>

definition next_snapshot ::
    "ingestion_job \<Rightarrow> job_status \<Rightarrow> int \<Rightarrow> job_error option \<Rightarrow> prepared_document option \<Rightarrow> bool option \<Rightarrow> ingestion_job" where
  "next_snapshot job status t error prepared applied =
     (let n = job\<lparr>job_status := status, job_updated_at_ms := t, job_error := error,
                  job_prepared := (case prepared of None \<Rightarrow> job_prepared job | Some p \<Rightarrow> Some p),
                  job_mutation_applied := (case applied of None \<Rightarrow> job_mutation_applied job | Some b \<Rightarrow> Some b)\<rparr>
      in if terminal status
         then n\<lparr>job_input := (job_input n)\<lparr>in_content := []\<rparr>,
                job_prepared := (if status \<noteq> Job_ready then None else job_prepared n)\<rparr>
         else n)"

definition transition ::
    "('b, 's) deps \<Rightarrow> string \<Rightarrow> job_status \<Rightarrow> job_error option \<Rightarrow> prepared_document option \<Rightarrow> bool option
       \<Rightarrow> ('b, 's) coordinator \<Rightarrow> bool result \<times> ('b, 's) coordinator" where
  "transition D i status error prepared applied s =
     (case job_at s i of
        None \<Rightarrow> (fail Errc_not_found ''ingestion job was not found'', s)
      | Some job \<Rightarrow>
          (if terminal (job_status job) then (Inr False, s)
           else
             let (t, s) = now_ms D s in
             if latest_revision s (in_document (job_input job)) \<noteq> job_revision job
             then (case commit D ((superseded_snapshot job t)\<lparr>job_error := None\<rparr>) s of
                     (Inl e, s) \<Rightarrow> (Inl e, s) | (Inr _, s) \<Rightarrow> (Inr False, s))
             else (case commit D (next_snapshot job status t error prepared applied) s of
                     (Inl e, s) \<Rightarrow> (Inl e, s) | (Inr _, s) \<Rightarrow> (Inr True, s))))"

definition fail_volatile ::
    "('b, 's) deps \<Rightarrow> string \<Rightarrow> error \<Rightarrow> ('b, 's) coordinator \<Rightarrow> ('b, 's) coordinator" where
  "fail_volatile D i e s =
     (case job_at s i of
        None \<Rightarrow> s
      | Some job \<Rightarrow>
          (if terminal (job_status job) then s
           else
             let (t, s) = now_ms D s in
             put_memory
               (job\<lparr>job_status := (if latest_revision s (in_document (job_input job)) = job_revision job
                                    then Job_failed else Job_superseded),
                    job_updated_at_ms := t, job_error := Some (bounded_error e),
                    job_input := (job_input job)\<lparr>in_content := []\<rparr>, job_prepared := None\<rparr>) s))"

subsection \<open>Execution\<close>

text \<open>Where a thread inside \<^verbatim>\<open>execute()\<close> stands between two locked regions.\<close>

datatype task =
  T_begin string
| T_erase_publishing string
| T_erase_apply string
| T_erase_ready string bool
| T_chunking string
| T_read_input string
| T_prepare string ingestion_input
| T_embedding string prepared_document
| T_embed string prepared_document
| T_publishing string prepared_document
| T_activate string prepared_document
| T_ready string prepared_document
| T_fail string error
| T_fail_volatile string error
| T_done
| T_crashed   \<comment> \<open>\<^verbatim>\<open>jobs_.at(id)\<close> threw\<close>

text \<open>The three outcomes of a transition that \<^verbatim>\<open>execute()\<close> tells apart.\<close>

definition after :: "string \<Rightarrow> task \<Rightarrow> bool result \<times> ('b, 's) coordinator \<Rightarrow> task \<times> ('b, 's) coordinator" where
  "after i proceed r =
     (case r of
        (Inl e, s) \<Rightarrow> (T_fail_volatile i e, s)
      | (Inr False, s) \<Rightarrow> (T_done, s)
      | (Inr True, s) \<Rightarrow> (proceed, s))"

definition notify_ready :: "string \<Rightarrow> bool result \<times> ('b, 's) coordinator \<Rightarrow> task \<times> ('b, 's) coordinator" where
  "notify_ready i r =
     (case r of
        (Inl e, s) \<Rightarrow> (T_fail_volatile i e, s)
      | (Inr False, s) \<Rightarrow> (T_done, s)
      | (Inr True, s) \<Rightarrow> (T_done, s\<lparr>co_ready_calls := co_ready_calls s + 1\<rparr>))"

fun exec_step :: "('b, 's) deps \<Rightarrow> task \<Rightarrow> ('b, 's) coordinator \<Rightarrow> task \<times> ('b, 's) coordinator" where
  "exec_step D (T_begin i) s =
     (case job_at s i of
        None \<Rightarrow> (T_done, s)
      | Some job \<Rightarrow>
          (if terminal (job_status job) then (T_done, s)
           else if job_operation job = Op_erase then (T_erase_publishing i, s)
           else (T_chunking i, s)))"
| "exec_step D (T_erase_publishing i) s =
     after i (T_erase_apply i) (transition D i Job_publishing None None None s)"
| "exec_step D (T_erase_apply i) s =
     (case job_at s i of
        None \<Rightarrow> (T_crashed, s)
      | Some job \<Rightarrow>
          (case d_erase D (in_document (job_input job)) (job_revision job) (co_backend s) of
             (Inl e, b) \<Rightarrow> (T_fail i e, s\<lparr>co_backend := b\<rparr>)
           | (Inr applied, b) \<Rightarrow> (T_erase_ready i applied, s\<lparr>co_backend := b\<rparr>)))"
| "exec_step D (T_erase_ready i applied) s =
     notify_ready i (transition D i Job_ready None None (Some applied) s)"
| "exec_step D (T_chunking i) s =
     after i (T_read_input i) (transition D i Job_chunking None None None s)"
| "exec_step D (T_read_input i) s =
     (case job_at s i of None \<Rightarrow> (T_crashed, s) | Some job \<Rightarrow> (T_prepare i (job_input job), s))"
| "exec_step D (T_prepare i input) s =
     (case d_prepare D input of Inl e \<Rightarrow> (T_fail i e, s) | Inr p \<Rightarrow> (T_embedding i p, s))"
| "exec_step D (T_embedding i p) s =
     after i (T_embed i p) (transition D i Job_embedding None None None s)"
| "exec_step D (T_embed i p) s =
     (case d_embed D of
        None \<Rightarrow> (T_publishing i p, s)
      | Some f \<Rightarrow> (case f p of Inl e \<Rightarrow> (T_fail i e, s) | Inr p \<Rightarrow> (T_publishing i p, s)))"
| "exec_step D (T_publishing i p) s =
     after i (T_activate i p) (transition D i Job_publishing None (Some p) None s)"
| "exec_step D (T_activate i p) s =
     (case job_at s i of
        None \<Rightarrow> (T_done, s)
      | Some job \<Rightarrow>
          (if terminal (job_status job)
              \<or> latest_revision s (in_document (job_input job)) \<noteq> job_revision job
           then (T_done, s)
           else
             case d_activate D p (job_revision job) (co_backend s) of
               (Inl e, b) \<Rightarrow> (T_fail i e, s\<lparr>co_backend := b\<rparr>)
             | (Inr _, b) \<Rightarrow> (T_ready i p, s\<lparr>co_backend := b\<rparr>)))"
| "exec_step D (T_ready i p) s = notify_ready i (transition D i Job_ready None (Some p) None s)"
| "exec_step D (T_fail i e) s =
     (case transition D i Job_failed (Some (bounded_error e)) None None s of
        (Inl e', s) \<Rightarrow> (T_fail_volatile i e', s)
      | (Inr _, s) \<Rightarrow> (T_done, s))"
| "exec_step D (T_fail_volatile i e) s = (T_done, fail_volatile D i e s)"
| "exec_step D T_done s = (T_done, s)"
| "exec_step D T_crashed s = (T_crashed, s)"

fun finished :: "task \<Rightarrow> bool" where
  "finished T_done = True" | "finished T_crashed = True" | "finished t = False"

text \<open>\<^verbatim>\<open>execute(id)\<close> with no other thread in between.\<close>

fun regions_left :: "task \<Rightarrow> nat" where
  "regions_left (T_begin i) = 11" | "regions_left (T_chunking i) = 10" | "regions_left (T_read_input i) = 9"
| "regions_left (T_prepare i inp) = 8" | "regions_left (T_embedding i p) = 7" | "regions_left (T_embed i p) = 6"
| "regions_left (T_publishing i p) = 5" | "regions_left (T_activate i p) = 4" | "regions_left (T_ready i p) = 3"
| "regions_left (T_erase_publishing i) = 5" | "regions_left (T_erase_apply i) = 4" | "regions_left (T_erase_ready i a) = 3"
| "regions_left (T_fail i e) = 2" | "regions_left (T_fail_volatile i e) = 1"
| "regions_left T_done = 0" | "regions_left T_crashed = 0"

lemma after_regions:
  "0 < n \<Longrightarrow> regions_left proceed < n \<Longrightarrow> 1 < n \<Longrightarrow> regions_left (fst (after i proceed r)) < n"
  by (auto simp: after_def split: prod.split sum.split bool.split)

lemma notify_regions: "1 < n \<Longrightarrow> regions_left (fst (notify_ready i r)) < n"
  by (auto simp: notify_ready_def split: prod.split sum.split bool.split)

lemma regions_decrease: "\<not> finished t \<Longrightarrow> regions_left (fst (exec_step D t s)) < regions_left t"
  by (cases t) (auto simp: after_regions notify_regions split: option.split sum.split prod.split)

function run_task :: "('b, 's) deps \<Rightarrow> task \<Rightarrow> ('b, 's) coordinator \<Rightarrow> task \<times> ('b, 's) coordinator" where
  "run_task D t s = (if finished t then (t, s) else (case exec_step D t s of (t', s') \<Rightarrow> run_task D t' s'))"
  by pat_completeness auto
termination
  apply (relation "measure (\<lambda>(D, t, s). regions_left t)")
   apply simp
  apply (drule_tac D = D and s = s in regions_decrease)
  apply (simp add: case_prod_beta)
  done

declare run_task.simps [simp del]

definition execute :: "('b, 's) deps \<Rightarrow> string \<Rightarrow> ('b, 's) coordinator \<Rightarrow> task \<times> ('b, 's) coordinator" where
  "execute D i s = run_task D (T_begin i) s"

subsection \<open>Submissions and deletions\<close>

text \<open>
  Persist the new job, then the superseded snapshot of the document's latest job when that one is
  unfinished, then make the new job the latest. \<open>None\<close> is \<^verbatim>\<open>jobs_.at\<close> throwing.
\<close>

definition supersede_older ::
    "('b, 's) deps \<Rightarrow> document_key \<Rightarrow> ('b, 's) coordinator \<Rightarrow> unit result option \<times> ('b, 's) coordinator" where
  "supersede_older D k s =
     (case map_of (co_latest_job s) k of
        None \<Rightarrow> (Some (Inr ()), s)
      | Some i \<Rightarrow>
          (case job_at s i of
             None \<Rightarrow> (None, s)
           | Some older \<Rightarrow>
               (if terminal (job_status older) then (Some (Inr ()), s)
                else
                  let (t, s) = now_ms D s
                  in case commit D (superseded_snapshot older t) s of (r, s) \<Rightarrow> (Some r, s))))"

definition register ::
    "('b, 's) deps \<Rightarrow> ingestion_job \<Rightarrow> ('b, 's) coordinator \<Rightarrow> unit result option \<times> ('b, 's) coordinator" where
  "register D job s =
     (let k = in_document (job_input job) in
      case persist D job s of
        (Inl e, s) \<Rightarrow> (Some (Inl e), s)
      | (Inr _, s) \<Rightarrow>
          (case supersede_older D k s of
             (Some (Inr _), s) \<Rightarrow>
               (Some (Inr ()),
                (put_memory job s)\<lparr>co_latest_revision := omap_put k (job_revision job) (co_latest_revision s),
                                   co_latest_job := omap_put k (job_id job) (co_latest_job s)\<rparr>)
           | (r, s) \<Rightarrow> (r, s)))"

definition new_job ::
    "('b, 's) deps \<Rightarrow> job_operation \<Rightarrow> ingestion_input \<Rightarrow> string \<Rightarrow> ('b, 's) coordinator
       \<Rightarrow> ingestion_job \<times> ('b, 's) coordinator" where
  "new_job D op input fingerprint s =
     (let (i, s) = next_job_id D s; (t, s) = now_ms D s in
      (\<lparr>job_id = i, job_operation = op, job_input = input,
        job_revision = latest_revision s (in_document input) + 1, job_content_hash = fingerprint,
        job_status = Job_queued, job_created_at_ms = t, job_updated_at_ms = t, job_error = None,
        job_prepared = None, job_mutation_applied = None\<rparr>, s))"

datatype submit_next =
  S_reject error | S_return submission | S_wait string | S_execute string | S_crashed

definition submit_create ::
    "('b, 's) deps \<Rightarrow> ingestion_input \<Rightarrow> string \<Rightarrow> bool \<Rightarrow> ('b, 's) coordinator \<Rightarrow> submit_next \<times> ('b, 's) coordinator" where
  "submit_create D input fingerprint asynchronous s =
     (if asynchronous \<and> length (co_queue s) \<ge> d_queue_capacity D
      then (S_reject \<lparr>err_code = Errc_unavailable, err_message = ''ingestion queue is full''\<rparr>, s)
      else
        let (created, s) = new_job D Op_upsert input fingerprint s in
        case register D created s of
          (None, s) \<Rightarrow> (S_crashed, s)
        | (Some (Inl e), s) \<Rightarrow> (S_reject e, s)
        | (Some (Inr _), s) \<Rightarrow>
            (if asynchronous
             then (S_return \<lparr>su_job = created, su_unchanged = False, su_existing_pending = False\<rparr>,
                   s\<lparr>co_queue := co_queue s @ [job_id created]\<rparr>)
             else (S_execute (job_id created), s)))"

definition submit_region ::
    "('b, 's) deps \<Rightarrow> ingestion_input \<Rightarrow> string \<Rightarrow> bool \<Rightarrow> ('b, 's) coordinator \<Rightarrow> submit_next \<times> ('b, 's) coordinator" where
  "submit_region D input fingerprint asynchronous s =
     (if co_stopping s
      then (S_reject \<lparr>err_code = Errc_unavailable, err_message = ''ingestion coordinator is stopping''\<rparr>, s)
      else
        case map_of (co_latest_job s) (in_document input) of
          None \<Rightarrow> submit_create D input fingerprint asynchronous s
        | Some i \<Rightarrow>
            (case job_at s i of
               None \<Rightarrow> (S_crashed, s)
             | Some latest \<Rightarrow>
                 (if job_content_hash latest = fingerprint \<and> job_status latest = Job_ready
                  then (S_return \<lparr>su_job = latest, su_unchanged = True, su_existing_pending = False\<rparr>, s)
                  else if job_content_hash latest = fingerprint \<and> \<not> terminal (job_status latest)
                  then (if asynchronous
                        then (S_return \<lparr>su_job = latest, su_unchanged = False, su_existing_pending = True\<rparr>, s)
                        else (S_wait (job_id latest), s))
                  else submit_create D input fingerprint asynchronous s)))"

definition submit ::
    "('b, 's) deps \<Rightarrow> ingestion_input \<Rightarrow> bool \<Rightarrow> ('b, 's) coordinator \<Rightarrow> submit_next \<times> ('b, 's) coordinator" where
  "submit D input asynchronous s =
     (if in_document input = [] \<or> in_content input = []
      then (S_reject \<lparr>err_code = Errc_invalid_argument, err_message = ''document and content are required''\<rparr>, s)
      else
        let input = input\<lparr>in_content := normalize_source_text (in_content input)\<rparr> in
        submit_region D input
          (document_content_hash (in_title input) (in_content input) (in_metadata input)) asynchronous s)"

definition erase_region ::
    "('b, 's) deps \<Rightarrow> document_key \<Rightarrow> ('b, 's) coordinator \<Rightarrow> submit_next \<times> ('b, 's) coordinator" where
  "erase_region D k s =
     (if k = []
      then (S_reject \<lparr>err_code = Errc_invalid_argument, err_message = ''document is required''\<rparr>, s)
      else if co_stopping s
      then (S_reject \<lparr>err_code = Errc_unavailable, err_message = ''ingestion coordinator is stopping''\<rparr>, s)
      else
        let (deletion, s) =
              new_job D Op_erase \<lparr>in_document = k, in_title = [], in_content = [], in_metadata = []\<rparr> ''deleted'' s
        in case register D deletion s of
             (None, s) \<Rightarrow> (S_crashed, s)
           | (Some (Inl e), s) \<Rightarrow> (S_reject e, s)
           | (Some (Inr _), s) \<Rightarrow> (S_execute (job_id deletion), s))"

definition get_job :: "string \<Rightarrow> ('b, 's) coordinator \<Rightarrow> ingestion_job result" where
  "get_job i s = (case job_at s i of None \<Rightarrow> fail Errc_not_found ''ingestion job was not found'' | Some job \<Rightarrow> Inr job)"

text \<open>\<^verbatim>\<open>wait(id)\<close> sleeps until \<open>wait_over\<close> holds and then answers \<open>get_job\<close>.\<close>

definition wait_over :: "string \<Rightarrow> ('b, 's) coordinator \<Rightarrow> bool" where
  "wait_over i s =
     (case job_at s i of None \<Rightarrow> True | Some job \<Rightarrow> terminal (job_status job) \<or> co_stopping s)"

text \<open>What the synchronous caller returns after its job has run.\<close>

definition submit_sync ::
    "('b, 's) deps \<Rightarrow> ingestion_input \<Rightarrow> ('b, 's) coordinator \<Rightarrow> submission result option \<times> ('b, 's) coordinator" where
  "submit_sync D input s =
     (case submit D input False s of
        (S_reject e, s) \<Rightarrow> (Some (Inl e), s)
      | (S_return r, s) \<Rightarrow> (Some (Inr r), s)
      | (S_wait i, s) \<Rightarrow>
          (if wait_over i s
           then (Some (and_then (get_job i s) (\<lambda>job.
                   Inr \<lparr>su_job = job, su_unchanged = False, su_existing_pending = True\<rparr>)), s)
           else (None, s))
      | (S_execute i, s) \<Rightarrow>
          (case execute D i s of (_, s) \<Rightarrow>
             (Some (and_then (get_job i s) (\<lambda>job.
                Inr \<lparr>su_job = job, su_unchanged = False, su_existing_pending = False\<rparr>)), s))
      | (S_crashed, s) \<Rightarrow> (None, s))"

subsection \<open>Workers and shutdown\<close>

definition take_work :: "('b, 's) coordinator \<Rightarrow> (task \<times> ('b, 's) coordinator) option" where
  "take_work s =
     (if co_stopping s then None
      else case co_queue s of [] \<Rightarrow> None | i # q \<Rightarrow> Some (T_begin i, s\<lparr>co_queue := q\<rparr>))"

definition shutdown_begin :: "('b, 's) coordinator \<Rightarrow> ('b, 's) coordinator" where
  "shutdown_begin s = s\<lparr>co_stopping := True\<rparr>"

definition shutdown_end :: "('b, 's) coordinator \<Rightarrow> ('b, 's) coordinator" where
  "shutdown_end s = s\<lparr>co_queue := []\<rparr>"

subsection \<open>Recovery\<close>

definition recover_load :: "ingestion_job list \<Rightarrow> ('b, 's) coordinator \<Rightarrow> ('b, 's) coordinator" where
  "recover_load jobs s =
     fold (\<lambda>job s.
       let k = in_document (job_input job);
           s = (case map_of (co_latest_revision s) k of
                  None \<Rightarrow> s\<lparr>co_latest_revision := omap_put k (job_revision job) (co_latest_revision s),
                            co_latest_job := omap_put k (job_id job) (co_latest_job s)\<rparr>
                | Some r \<Rightarrow>
                    (if job_revision job > r
                     then s\<lparr>co_latest_revision := omap_put k (job_revision job) (co_latest_revision s),
                            co_latest_job := omap_put k (job_id job) (co_latest_job s)\<rparr>
                     else s))
       in put_memory job s) jobs s"

text \<open>The newest ready job of every document.\<close>

definition active_ready :: "('b, 's) coordinator \<Rightarrow> string list \<Rightarrow> (document_key \<times> ingestion_job) list" where
  "active_ready s ids =
     fold (\<lambda>i m.
       case job_at s i of
         None \<Rightarrow> m
       | Some job \<Rightarrow>
           (if job_status job \<noteq> Job_ready then m
            else
              let k = in_document (job_input job) in
              case map_of m k of
                None \<Rightarrow> omap_put k job m
              | Some best \<Rightarrow> (if job_revision best < job_revision job then omap_put k job m else m)))
       ids []"

fun recover_apply :: "('b, 's) deps \<Rightarrow> ingestion_job list \<Rightarrow> ('b, 's) coordinator \<Rightarrow> unit result \<times> ('b, 's) coordinator" where
  "recover_apply D [] s = (Inr (), s)"
| "recover_apply D (job # jobs) s =
     (if job_operation job = Op_erase
      then (case d_erase D (in_document (job_input job)) (job_revision job) (co_backend s) of
              (Inl e, b) \<Rightarrow> (Inl e, s\<lparr>co_backend := b\<rparr>)
            | (Inr _, b) \<Rightarrow> recover_apply D jobs (s\<lparr>co_backend := b\<rparr>))
      else
        case job_prepared job of
          None \<Rightarrow> (fail Errc_corrupt_index ''ready job has no prepared activation record'', s)
        | Some p \<Rightarrow>
            (case d_activate D p (job_revision job) (co_backend s) of
               (Inl e, b) \<Rightarrow> (Inl e, s\<lparr>co_backend := b\<rparr>)
             | (Inr _, b) \<Rightarrow> recover_apply D jobs (s\<lparr>co_backend := b\<rparr>)))"

fun recover_requeue ::
    "('b, 's) deps \<Rightarrow> string list \<Rightarrow> string list \<Rightarrow> ('b, 's) coordinator \<Rightarrow> string list result \<times> ('b, 's) coordinator" where
  "recover_requeue D [] deletions s = (Inr deletions, s)"
| "recover_requeue D (i # ids) deletions s =
     (case job_at s i of
        None \<Rightarrow> recover_requeue D ids deletions s
      | Some job \<Rightarrow>
          (if terminal (job_status job) then recover_requeue D ids deletions s
           else
             let (t, s) = now_ms D s in
             if latest_revision s (in_document (job_input job)) \<noteq> job_revision job
             then
               let job = job\<lparr>job_status := Job_superseded, job_updated_at_ms := t\<rparr> in
               case persist D job (put_memory job s) of
                 (Inl e, s) \<Rightarrow> (Inl e, s)
               | (Inr _, s) \<Rightarrow> recover_requeue D ids deletions s
             else
               let job = job\<lparr>job_status := Job_queued, job_updated_at_ms := t, job_error := None,
                            job_prepared := None\<rparr>
               in case persist D job (put_memory job s) of
                    (Inl e, s) \<Rightarrow> (Inl e, s)
                  | (Inr _, s) \<Rightarrow>
                      (if job_operation job = Op_erase
                       then recover_requeue D ids (deletions @ [i]) s
                       else recover_requeue D ids deletions (s\<lparr>co_queue := co_queue s @ [i]\<rparr>))))"

definition recover :: "('b, 's) deps \<Rightarrow> ('b, 's) coordinator \<Rightarrow> unit result \<times> ('b, 's) coordinator" where
  "recover D s =
     (case d_load_latest D (co_store s) of
        Inl e \<Rightarrow> (Inl e, s)
      | Inr loaded \<Rightarrow>
          (let s = recover_load loaded s;
               ids = d_order D (map fst (co_jobs s));
               ready = sort_key (\<lambda>j. (job_revision j, job_id j)) (map snd (active_ready s ids))
           in case recover_apply D ready s of
                (Inl e, s) \<Rightarrow> (Inl e, s)
              | (Inr _, s) \<Rightarrow>
                  (case recover_requeue D ids [] s of
                     (Inl e, s) \<Rightarrow> (Inl e, s)
                   | (Inr deletions, s) \<Rightarrow> (Inr (), fold (\<lambda>i s. snd (execute D i s)) deletions s))))"

definition coordinator_open :: "('b, 's) deps \<Rightarrow> 'b \<Rightarrow> 's \<Rightarrow> ('b, 's) coordinator result" where
  "coordinator_open D backend store =
     (if d_workers D = 0 \<or> d_workers D > 4 \<or> d_queue_capacity D = 0
      then fail Errc_invalid_argument ''worker count must be 1-4 and queue capacity must be non-zero''
      else
        case recover D \<lparr>co_backend = backend, co_store = store, co_ticks = 0, co_sequence = 0,
                       co_ready_calls = 0, co_stopping = False, co_queue = [], co_jobs = [],
                       co_latest_revision = [], co_latest_job = []\<rparr> of
          (Inl e, _) \<Rightarrow> Inl e
        | (Inr _, s) \<Rightarrow> Inr s)"

subsection \<open>Runs\<close>

text \<open>
  The threads inside \<^verbatim>\<open>execute()\<close> are a list of tasks. Any number of callers and workers may be
  active, which covers the at most four workers of the source. A rejected, repeated or
  asynchronous submission leaves no task behind.
\<close>

fun spawned :: "submit_next \<Rightarrow> task list" where
  "spawned (S_execute i) = [T_begin i]" | "spawned x = []"

inductive coord_step ::
    "('b, 's) deps \<Rightarrow> ('b, 's) coordinator \<Rightarrow> task list \<Rightarrow> ('b, 's) coordinator \<Rightarrow> task list \<Rightarrow> bool" for D where
  submits: "submit D input asynchronous s = (x, s') \<Longrightarrow> coord_step D s ts s' (ts @ spawned x)"
| deletes: "erase_region D k s = (x, s') \<Longrightarrow> coord_step D s ts s' (ts @ spawned x)"
| works: "take_work s = Some (t, s') \<Longrightarrow> coord_step D s ts s' (ts @ [t])"
| regions: "n < length ts \<Longrightarrow> exec_step D (ts ! n) s = (t, s') \<Longrightarrow> coord_step D s ts s' (ts[n := t])"
| stops: "coord_step D s ts (shutdown_begin s) ts"
| stopped: "co_stopping s \<Longrightarrow> coord_step D s ts (shutdown_end s) ts"

inductive coord_reachable ::
    "('b, 's) deps \<Rightarrow> 'b \<Rightarrow> 's \<Rightarrow> ('b, 's) coordinator \<Rightarrow> task list \<Rightarrow> bool" for D b0 s0 where
  opened: "coordinator_open D b0 s0 = Inr s \<Longrightarrow> coord_reachable D b0 s0 s []"
| steps: "coord_reachable D b0 s0 s ts \<Longrightarrow> coord_step D s ts s' ts' \<Longrightarrow> coord_reachable D b0 s0 s' ts'"

inductive_cases coord_stepE: "coord_step D s ts s' ts'"

end
