(* ===== verification/Dense_Index.thy ===== *)
theory Dense_Index
  imports Complex_Main Candidate_Types
begin

text \<open>
  \<^verbatim>\<open>rag.cpp/src/dense/index.cpp\<close>, \<^verbatim>\<open>policy.cpp\<close> and \<^verbatim>\<open>tiered_index.cpp\<close>: the exact index, the choice of
  an algorithm, and the two-tier index (an immutable base, an exact delta, tombstones). The
  floating-point operations (the SIMD inner product, the distance of a squared norm from one) are
  the fields of \<open>fp\<close>; an approximate base (HNSW, FAISS) is known by the rows it was built from and
  is searched and validated by the functions of \<open>ann\<close>. Scores are ordered by \<open>f32_key\<close>, ties by
  chunk key, as the comparators of the source do for numbers. Shown here: the exact search returns
  the best allowed rows in order, and merging two tiers is the exact search over both.
\<close>

subsection \<open>The exact index\<close>

record fp =
  fp_dot :: "vec \<Rightarrow> vec \<Rightarrow> f32"
  fp_norm_error :: "vec \<Rightarrow> rat"   \<comment> \<open>\<open>std::abs(norm - 1.0)\<close> of a finite vector\<close>
  fp_scale :: "nat \<Rightarrow> rat \<Rightarrow> rat"   \<comment> \<open>the \<open>double\<close> product of a count and a fraction\<close>

definition kUnitTolerance :: rat where
  "kUnitTolerance = 8589935 / 8589934592"   \<comment> \<open>\<open>1.0e-3F\<close>, exactly\<close>

definition normalized :: "fp \<Rightarrow> vec \<Rightarrow> bool" where
  "normalized F v \<longleftrightarrow> v \<noteq> [] \<and> list_all f32_finite v \<and> fp_norm_error F v \<le> kUnitTolerance"

type_synonym vector_record = "chunk_key \<times> vec"

record exact_index =
  ex_keys :: "chunk_key list"
  ex_vectors :: "f32 list"
  ex_dimension :: nat

definition exact_new :: exact_index where
  "exact_new = \<lparr>ex_keys = [], ex_vectors = [], ex_dimension = 0\<rparr>"

fun build_loop ::
    "fp \<Rightarrow> nat \<Rightarrow> vector_record list \<Rightarrow> chunk_key list \<Rightarrow> f32 list \<Rightarrow> (chunk_key list \<times> f32 list) result" where
  "build_loop F dimension [] keys vectors = Inr (keys, vectors)"
| "build_loop F dimension ((key, v) # rows) keys vectors =
     (if key = [] then fail Errc_invalid_argument ''dense vector key must not be empty''
      else if key \<in> set keys then fail Errc_already_exists ''duplicate dense vector key''
      else if length v \<noteq> dimension then fail Errc_dimension_mismatch ''dense vector dimensions differ''
      else if \<not> normalized F v then fail Errc_invalid_argument ''dense vector is not unit normalized''
      else build_loop F dimension rows (keys @ [key]) (vectors @ v))"

definition exact_build :: "fp \<Rightarrow> vector_record list \<Rightarrow> exact_index result" where
  "exact_build F source =
     (let dimension = (case source of [] \<Rightarrow> 0 | (_, v) # _ \<Rightarrow> length v)
      in if source \<noteq> [] \<and> dimension = 0 then fail Errc_invalid_argument ''dense vectors must not be empty''
         else and_then (build_loop F dimension source [] []) (\<lambda>(keys, vectors).
           Inr \<lparr>ex_keys = keys, ex_vectors = vectors, ex_dimension = dimension\<rparr>))"

definition row_vector :: "exact_index \<Rightarrow> nat \<Rightarrow> vec" where
  "row_vector ix row = take (ex_dimension ix) (drop (row * ex_dimension ix) (ex_vectors ix))"

definition cand_key :: "candidate \<Rightarrow> int \<times> chunk_key" where
  "cand_key c = (- f32_key (cand_raw_score c), cand_chunk c)"

definition score_rows :: "fp \<Rightarrow> exact_index \<Rightarrow> vec \<Rightarrow> chunk_key list \<Rightarrow> candidate list" where
  "score_rows F ix query allowed =
     map (\<lambda>row. \<lparr>cand_chunk = ex_keys ix ! row, cand_raw_score = fp_dot F query (row_vector ix row),
                 cand_score_type = Score_cosine\<rparr>)
       (filter (\<lambda>row. \<not> (allowed \<noteq> [] \<and> ex_keys ix ! row \<notin> set allowed)) [0..<length (ex_keys ix)])"

definition exact_search ::
    "fp \<Rightarrow> exact_index \<Rightarrow> vec \<Rightarrow> chunk_key list \<Rightarrow> nat \<Rightarrow> candidate list result" where
  "exact_search F ix query allowed k =
     (if k = 0 \<or> ex_keys ix = [] then Inr []
      else if length query \<noteq> ex_dimension ix
      then fail Errc_dimension_mismatch ''query dimension does not match dense index''
      else if \<not> normalized F query then fail Errc_invalid_argument ''dense query is not unit normalized''
      else
        let candidates = score_rows F ix query allowed; wanted = min k (length candidates)
        in Inr (take wanted (sort_key cand_key candidates)))"

subsection \<open>Policy\<close>

datatype dense_implementation = Impl_native | Impl_faiss

datatype dense_algorithm =
  Alg_automatic | Alg_exact | Alg_hnsw | Alg_flat | Alg_ivf_sq8 | Alg_ivf_pq

record dense_policy =
  dp_implementation :: dense_implementation
  dp_algorithm :: dense_algorithm
  dp_exact_threshold :: nat

fun implementation_name :: "dense_implementation \<Rightarrow> string" where
  "implementation_name Impl_native = ''native''"
| "implementation_name Impl_faiss = ''faiss''"

fun algorithm_name :: "dense_algorithm \<Rightarrow> string" where
  "algorithm_name Alg_automatic = ''automatic''"
| "algorithm_name Alg_exact = ''exact''"
| "algorithm_name Alg_hnsw = ''hnsw''"
| "algorithm_name Alg_flat = ''flat''"
| "algorithm_name Alg_ivf_sq8 = ''ivf-sq8''"
| "algorithm_name Alg_ivf_pq = ''ivf-pq''"

definition parse_dense_implementation :: "string \<Rightarrow> dense_implementation result" where
  "parse_dense_implementation s =
     (if s = ''native'' then Inr Impl_native
      else if s = ''faiss'' then Inr Impl_faiss
      else fail Errc_invalid_argument (''unknown dense implementation: '' @ s))"

definition parse_dense_algorithm :: "string \<Rightarrow> dense_algorithm result" where
  "parse_dense_algorithm s =
     (if s = ''automatic'' then Inr Alg_automatic
      else if s = ''exact'' then Inr Alg_exact
      else if s = ''hnsw'' then Inr Alg_hnsw
      else if s = ''flat'' then Inr Alg_flat
      else if s = ''ivf-sq8'' then Inr Alg_ivf_sq8
      else if s = ''ivf-pq'' then Inr Alg_ivf_pq
      else fail Errc_invalid_argument (''unknown dense algorithm: '' @ s))"

text \<open>The first argument is the build option \<^verbatim>\<open>LRS_ENABLE_FAISS\<close>.\<close>

definition resolve_dense_algorithm :: "bool \<Rightarrow> dense_policy \<Rightarrow> nat \<Rightarrow> dense_algorithm result" where
  "resolve_dense_algorithm with_faiss policy vector_count =
     (if dp_exact_threshold policy = 0
      then fail Errc_invalid_argument ''dense exact threshold must be non-zero''
      else if dp_implementation policy = Impl_native
      then (if dp_algorithm policy = Alg_automatic
            then Inr (if vector_count < dp_exact_threshold policy then Alg_exact else Alg_hnsw)
            else if dp_algorithm policy = Alg_exact \<or> dp_algorithm policy = Alg_hnsw
            then Inr (dp_algorithm policy)
            else fail Errc_invalid_argument ''dense algorithm is not supported by native implementation'')
      else if dp_algorithm policy = Alg_flat \<or> dp_algorithm policy = Alg_hnsw
              \<or> dp_algorithm policy = Alg_ivf_sq8 \<or> dp_algorithm policy = Alg_ivf_pq
      then (if with_faiss then Inr (dp_algorithm policy)
            else fail Errc_unavailable ''FAISS support is not enabled in this build'')
      else fail Errc_invalid_argument ''dense algorithm is not supported by FAISS implementation'')"

subsection \<open>Indexes behind one interface\<close>

datatype dense_index =
  Exact exact_index
| Ann dense_implementation dense_algorithm "vector_record list"

record ann =
  ann_faiss :: bool
  ann_build :: "dense_implementation \<Rightarrow> dense_algorithm \<Rightarrow> vector_record list \<Rightarrow> unit result"
  ann_search :: "dense_index \<Rightarrow> vec \<Rightarrow> chunk_key list \<Rightarrow> nat \<Rightarrow> candidate list result"

definition index_search ::
    "fp \<Rightarrow> ann \<Rightarrow> dense_index \<Rightarrow> vec \<Rightarrow> chunk_key list \<Rightarrow> nat \<Rightarrow> candidate list result" where
  "index_search F A ix query allowed k =
     (case ix of Exact e \<Rightarrow> exact_search F e query allowed k | Ann _ _ _ \<Rightarrow> ann_search A ix query allowed k)"

definition index_vectors :: "dense_index \<Rightarrow> nat" where
  "index_vectors ix = (case ix of Exact e \<Rightarrow> length (ex_keys e) | Ann _ _ rows \<Rightarrow> length rows)"

definition index_dimension :: "dense_index \<Rightarrow> nat" where
  "index_dimension ix =
     (case ix of Exact e \<Rightarrow> ex_dimension e
      | Ann _ _ rows \<Rightarrow> (case rows of [] \<Rightarrow> 0 | (_, v) # _ \<Rightarrow> length v))"

definition build_dense_index :: "fp \<Rightarrow> ann \<Rightarrow> dense_policy \<Rightarrow> vector_record list \<Rightarrow> dense_index result" where
  "build_dense_index F A policy source =
     and_then (resolve_dense_algorithm (ann_faiss A) policy (length source)) (\<lambda>algorithm.
       case algorithm of
         Alg_exact \<Rightarrow> and_then (exact_build F source) (\<lambda>e. Inr (Exact e))
       | Alg_automatic \<Rightarrow> fail Errc_invalid_argument ''resolved dense algorithm is unsupported''
       | _ \<Rightarrow> and_then (ann_build A (dp_implementation policy) algorithm source) (\<lambda>_.
                Inr (Ann (dp_implementation policy) algorithm source)))"

subsection \<open>The two-tier index\<close>

record base =
  base_index :: dense_index
  base_keys :: "chunk_key list"
  base_dimension :: nat

record tiered =
  ti_base :: base
  ti_delta :: exact_index
  ti_delta_keys :: "chunk_key list"
  ti_tombstones :: "chunk_key list"
  ti_dimension :: nat

definition base_empty :: base where
  "base_empty = \<lparr>base_index = Exact exact_new, base_keys = [], base_dimension = 0\<rparr>"

definition tiered_empty :: "fp \<Rightarrow> tiered result" where
  "tiered_empty F =
     and_then (exact_build F []) (\<lambda>b. and_then (exact_build F []) (\<lambda>d.
       Inr \<lparr>ti_base = base_empty\<lparr>base_index := Exact b\<rparr>, ti_delta = d, ti_delta_keys = [],
            ti_tombstones = [], ti_dimension = 0\<rparr>))"

fun check_delta :: "base \<Rightarrow> chunk_key list \<Rightarrow> nat \<Rightarrow> vector_record list \<Rightarrow> unit result" where
  "check_delta b tombstones dimension [] = Inr ()"
| "check_delta b tombstones dimension ((key, v) # rows) =
     (if length v \<noteq> dimension
      then fail Errc_dimension_mismatch ''dense delta row dimension is invalid''
      else if key \<in> set (base_keys b) \<and> key \<notin> set tombstones
      then fail Errc_already_exists ''dense row is already represented by base''
      else check_delta b tombstones dimension rows)"

definition with_delta :: "fp \<Rightarrow> tiered \<Rightarrow> vector_record list \<Rightarrow> chunk_key list \<Rightarrow> nat \<Rightarrow> tiered result" where
  "with_delta F t live_delta tombstones dimension =
     (let b = ti_base t in
      if base_dimension b \<noteq> 0 \<and> dimension \<noteq> 0 \<and> base_dimension b \<noteq> dimension
      then fail Errc_dimension_mismatch ''dense delta dimension is incompatible with base''
      else if \<not> list_all (\<lambda>key. key \<in> set (base_keys b)) tombstones
      then fail Errc_invalid_argument ''dense tombstone does not belong to base''
      else and_then (check_delta b tombstones dimension live_delta) (\<lambda>_.
        and_then (exact_build F live_delta) (\<lambda>d.
          Inr \<lparr>ti_base = b, ti_delta = d, ti_delta_keys = remdups (map fst live_delta),
               ti_tombstones = tombstones, ti_dimension = dimension\<rparr>)))"

definition tiered_compact :: "fp \<Rightarrow> ann \<Rightarrow> vector_record list \<Rightarrow> nat \<Rightarrow> dense_policy \<Rightarrow> tiered result" where
  "tiered_compact F A live_vectors dimension policy =
     (if \<not> list_all (\<lambda>(key, v). length v = dimension) live_vectors
      then fail Errc_dimension_mismatch ''dense base row dimension is invalid''
      else and_then (build_dense_index F A policy live_vectors) (\<lambda>ix.
        and_then (exact_build F []) (\<lambda>d.
          Inr \<lparr>ti_base = \<lparr>base_index = ix, base_keys = remdups (map fst live_vectors), base_dimension = dimension\<rparr>,
               ti_delta = d, ti_delta_keys = [], ti_tombstones = [], ti_dimension = dimension\<rparr>)))"

definition from_base :: "fp \<Rightarrow> dense_index \<Rightarrow> chunk_key list \<Rightarrow> nat \<Rightarrow> tiered result" where
  "from_base F ix keys dimension =
     (if index_vectors ix \<noteq> length keys \<or> index_dimension ix \<noteq> dimension
      then fail Errc_dimension_mismatch ''dense base index does not match its key catalog''
      else if \<not> list_all (\<lambda>key. key \<noteq> []) keys \<or> \<not> distinct keys
      then fail Errc_invalid_argument ''dense base key catalog is invalid''
      else and_then (exact_build F []) (\<lambda>d.
        Inr \<lparr>ti_base = \<lparr>base_index = ix, base_keys = keys, base_dimension = dimension\<rparr>,
             ti_delta = d, ti_delta_keys = [], ti_tombstones = [], ti_dimension = dimension\<rparr>))"

definition contains_base :: "tiered \<Rightarrow> chunk_key \<Rightarrow> bool" where
  "contains_base t key \<longleftrightarrow> key \<in> set (base_keys (ti_base t)) \<and> key \<notin> set (ti_tombstones t)"

definition contains_delta :: "tiered \<Rightarrow> chunk_key \<Rightarrow> bool" where
  "contains_delta t key \<longleftrightarrow> key \<in> set (ti_delta_keys t)"

fun merge_unique :: "nat \<Rightarrow> candidate list \<Rightarrow> chunk_key list \<Rightarrow> candidate list \<Rightarrow> candidate list" where
  "merge_unique k [] seen out = out"
| "merge_unique k (c # cs) seen out =
     (if cand_chunk c \<in> set seen then merge_unique k cs seen out
      else if length (out @ [c]) = k then out @ [c]
      else merge_unique k cs (cand_chunk c # seen) (out @ [c]))"

definition tiered_search ::
    "fp \<Rightarrow> ann \<Rightarrow> tiered \<Rightarrow> vec \<Rightarrow> chunk_key list \<Rightarrow> chunk_key list \<Rightarrow> nat \<Rightarrow> candidate list result" where
  "tiered_search F A t query base_allowed delta_allowed k =
     and_then (if base_allowed \<noteq> [] then index_search F A (base_index (ti_base t)) query base_allowed k
               else Inr []) (\<lambda>b.
     and_then (if delta_allowed \<noteq> [] then exact_search F (ti_delta t) query delta_allowed k
               else Inr []) (\<lambda>d.
       Inr (merge_unique k (sort_key cand_key (b @ d)) [] [])))"

subsection \<open>Selecting the best k\<close>

lemma insort_take:
  "sorted (map f ys) \<Longrightarrow> k \<le> length (filter (\<lambda>y. f y < f x) ys) \<Longrightarrow>
     take k (insort_key f x ys) = take k ys" for f :: "'a \<Rightarrow> 'b::linorder"
proof (induction ys arbitrary: k)
  case (Cons y ys)
  show ?case
  proof (cases "f x \<le> f y")
    case True
    then have "filter (\<lambda>y. f y < f x) (y # ys) = []" using Cons.prems(1) by (fastforce simp: filter_empty_conv)
    with Cons.prems(2) show ?thesis by simp
  next
    case False
    with Cons show ?thesis by (cases k) (auto simp: not_le)
  qed
qed simp

lemma insorts_take:
  fixes f :: "'a \<Rightarrow> 'b::linorder"
  assumes "sorted (map f ys)" and "\<forall>x \<in> set xs. k \<le> length (filter (\<lambda>y. f y < f x) ys)"
  shows "take k (foldr (insort_key f) xs ys) = take k ys"
  using assms(2)
proof (induction xs)
  case (Cons x xs)
  have s: "sorted (map f (foldr (insort_key f) xs ys))"
    using assms(1) by (induction xs) (simp_all add: sorted_insort_key)
  have sub: "mset ys \<subseteq># mset (foldr (insort_key f) xs ys)"
    by (induction xs) (simp_all add: subset_mset.order_trans [of "mset ys"])
  have "k \<le> length (filter (\<lambda>y. f y < f x) ys)" using Cons.prems by simp
  also have "\<dots> \<le> length (filter (\<lambda>y. f y < f x) (foldr (insort_key f) xs ys))"
    using size_mset_mono [OF multiset_filter_mono [OF sub, of "\<lambda>y. f y < f x"]] by (simp flip: size_mset mset_filter)
  finally have "take k (insort_key f x (foldr (insort_key f) xs ys)) = take k (foldr (insort_key f) xs ys)"
    by (rule insort_take [OF s])
  with Cons show ?case by simp
qed simp

lemma below_tail:
  fixes f :: "'a \<Rightarrow> 'b::linorder"
  assumes "sorted (map f s)" and "inj_on f (set s)" and "distinct s" and "x \<in> set (drop k s)"
  shows "k \<le> length (filter (\<lambda>y. f y < f x) (take k s))"
proof -
  obtain i where i: "i < length (drop k s)" "drop k s ! i = x"
    using assms(4) by (auto simp: in_set_conv_nth)
  then have k: "k < length s" by simp
  have "f y < f x" if mem: "y \<in> set (take k s)" for y
  proof -
    obtain j where j: "j < k" "s ! j = y"
      using mem k by (auto simp: in_set_conv_nth)
    have x: "x = s ! (k + i)" "k + i < length s" using i by auto
    have "f y \<le> f x" using sorted_nth_mono [OF assms(1), of j "k + i"] j x by simp
    moreover have "y \<noteq> x" using j x assms(3) by (auto simp: nth_eq_iff_index_eq)
    ultimately show ?thesis
      using assms(2) j x by (metis inj_onD le_neq_trans nth_mem k order.strict_trans)
  qed
  then have "filter (\<lambda>y. f y < f x) (take k s) = take k s" by simp
  with k show ?thesis by simp
qed

lemma sort_key_inj_mset:
  "mset xs = mset ys \<Longrightarrow> inj_on f (set xs) \<Longrightarrow> sort_key f xs = sort_key f ys"
  for f :: "'a \<Rightarrow> 'b::linorder"
  by (intro sort_key_inj_key_eq) simp_all

text \<open>The best \<open>k\<close> of two lists are the best \<open>k\<close> among the best \<open>k\<close> of each.\<close>

lemma merge_top:
  fixes f :: "'a \<Rightarrow> 'b::linorder"
  assumes "inj_on f (set a \<union> set b)" and "distinct (a @ b)"
  shows "take k (sort_key f (take k (sort_key f a) @ take k (sort_key f b))) = take k (sort_key f (a @ b))"
proof -
  let ?sa = "sort_key f a" and ?sb = "sort_key f b"
  let ?m = "take k ?sa @ take k ?sb" and ?n = "drop k ?sa @ drop k ?sb"
  have da: "distinct ?sa" "distinct ?sb" using assms(2) by simp_all
  have inj: "inj_on f (set ?sa)" "inj_on f (set ?sb)" using assms(1) by (auto intro: inj_on_subset)
  have split: "mset (a @ b) = mset (?n @ ?m)"
  proof -
    have "mset a = mset (take k ?sa) + mset (drop k ?sa)" "mset b = mset (take k ?sb) + mset (drop k ?sb)"
      by (simp_all flip: mset_append)
    then show ?thesis by simp
  qed
  have count: "k \<le> length (filter (\<lambda>y. f y < f x) (sort_key f ?m))" if "x \<in> set ?n" for x
  proof -
    have "k \<le> length (filter (\<lambda>y. f y < f x) ?m)"
    proof (cases "x \<in> set (drop k ?sa)")
      case True
      then have "k \<le> length (filter (\<lambda>y. f y < f x) (take k ?sa))"
        using inj da by (intro below_tail) simp_all
      then show ?thesis by simp
    next
      case False
      with that have "k \<le> length (filter (\<lambda>y. f y < f x) (take k ?sb))"
        using inj da by (intro below_tail) simp_all
      then show ?thesis by simp
    qed
    also have "\<dots> = length (filter (\<lambda>y. f y < f x) (sort_key f ?m))"
      by (metis mset_filter mset_sort size_mset)
    finally show ?thesis .
  qed
  have "sort_key f (a @ b) = sort_key f (?n @ ?m)"
    using split assms(1) by (intro sort_key_inj_mset) simp_all
  also have "\<dots> = foldr (insort_key f) ?n (sort_key f ?m)" by (simp add: sort_key_def)
  finally show ?thesis using insorts_take [of f "sort_key f ?m" ?n k] count by simp
qed

subsection \<open>The exact search is the reference search\<close>

definition scored :: "fp \<Rightarrow> vec \<Rightarrow> vector_record \<Rightarrow> candidate" where
  "scored F query r =
     \<lparr>cand_chunk = fst r, cand_raw_score = fp_dot F query (snd r), cand_score_type = Score_cosine\<rparr>"

definition rank :: "fp \<Rightarrow> vec \<Rightarrow> vector_record list \<Rightarrow> candidate list" where
  "rank F query rows = sort_key cand_key (map (scored F query) rows)"

lemma build_loop_Inr:
  "build_loop F d rows keys vectors = Inr (ks, vs) \<Longrightarrow> distinct keys \<Longrightarrow> [] \<notin> set keys \<Longrightarrow>
     ks = keys @ map fst rows \<and> vs = vectors @ concat (map snd rows) \<and> distinct ks \<and> [] \<notin> set ks \<and>
     (\<forall>(key, v) \<in> set rows. length v = d \<and> normalized F v)"
proof (induction F d rows keys vectors rule: build_loop.induct)
  case (2 F d key v rows keys vectors)
  from "2.prems"(1) have c: "key \<noteq> []" "key \<notin> set keys" "length v = d" "normalized F v"
    and r: "build_loop F d rows (keys @ [key]) (vectors @ v) = Inr (ks, vs)"
    by (auto simp: fail_def split: if_splits)
  have "ks = (keys @ [key]) @ map fst rows \<and> vs = (vectors @ v) @ concat (map snd rows) \<and> distinct ks \<and>
      [] \<notin> set ks \<and> (\<forall>(key, v) \<in> set rows. length v = d \<and> normalized F v)"
    using c "2.prems"(2,3) by (intro "2.IH" [OF _ _ _ _ r]) auto
  then show ?case using c(3,4) by (elim conjE, intro conjI) (simp_all only: append_assoc append_Cons append_Nil
      list.map fst_conv snd_conv concat.simps, auto)
qed simp

lemma exact_build_Inr:
  assumes "exact_build F rows = Inr ix"
  shows "ex_keys ix = map fst rows" and "ex_vectors ix = concat (map snd rows)"
    and "distinct (map fst rows)" and "(key, v) \<in> set rows \<Longrightarrow> length v = ex_dimension ix"
    and "(key, v) \<in> set rows \<Longrightarrow> key \<noteq> [] \<and> normalized F v"
  using assms build_loop_Inr [of F "case rows of [] \<Rightarrow> 0 | (_, v) # _ \<Rightarrow> length v" rows "[]" "[]"]
  by (auto simp: exact_build_def Let_def and_then_Inr fail_def split: if_splits) force+

lemma exact_build_ok:
  assumes "distinct (map fst rows)" and "\<forall>(key, v) \<in> set rows. key \<noteq> [] \<and> length v = d \<and> normalized F v"
  shows "\<exists>ix. exact_build F rows = Inr ix"
proof -
  have loop: "\<exists>r. build_loop F d rows keys vectors = Inr r"
    if "distinct (keys @ map fst rows)" "\<forall>(key, v) \<in> set rows. key \<noteq> [] \<and> length v = d \<and> normalized F v"
    for rows keys vectors
    using that
  proof (induction rows arbitrary: keys vectors)
    case (Cons r rows)
    obtain key v where r: "r = (key, v)" by force
    have "\<exists>x. build_loop F d rows (keys @ [key]) (vectors @ v) = Inr x"
      using Cons.prems by (intro Cons.IH) (auto simp: r)
    with Cons.prems show ?case by (auto simp: r)
  qed simp
  show ?thesis
  proof (cases rows)
    case Nil
    then show ?thesis by (simp add: exact_build_def)
  next
    case (Cons r rs)
    obtain key v where r: "r = (key, v)" by force
    have d: "length v = d" "v \<noteq> []" using assms(2) Cons r by (auto simp: normalized_def)
    obtain ks vs where "build_loop F d rows [] [] = Inr (ks, vs)" using loop [of "[]" rows "[]"] assms by auto
    with d Cons r show ?thesis by (auto simp: exact_build_def simp del: build_loop.simps)
  qed
qed

lemma concat_slice:
  "\<forall>v \<in> set vs. length v = d \<Longrightarrow> i < length vs \<Longrightarrow> take d (drop (i * d) (concat vs)) = vs ! i"
proof (induction vs arbitrary: i)
  case (Cons v vs)
  show ?case
  proof (cases i)
    case 0
    with Cons.prems show ?thesis by simp
  next
    case (Suc j)
    with Cons show ?thesis by (simp add: add.commute)
  qed
qed simp

lemma score_rows_eq:
  assumes "exact_build F rows = Inr ix"
  shows "score_rows F ix query allowed =
    map (scored F query) (filter (\<lambda>r. allowed = [] \<or> fst r \<in> set allowed) rows)"
proof -
  note b = exact_build_Inr [OF assms]
  have row: "row_vector ix i = snd (rows ! i)" if "i < length rows" for i
    using that b(4) concat_slice [of "map snd rows" "ex_dimension ix" i]
    by (force simp: row_vector_def b(2))
  have "score_rows F ix query allowed =
      map (\<lambda>i. scored F query (rows ! i)) (filter (\<lambda>i. allowed = [] \<or> fst (rows ! i) \<in> set allowed) [0..<length rows])"
    unfolding score_rows_def b(1) using row
    by (auto simp: scored_def intro!: map_cong filter_cong)
  also have "\<dots> = map (scored F query) (filter (\<lambda>r. allowed = [] \<or> fst r \<in> set allowed) (map ((!) rows) [0..<length rows]))"
    by (simp add: filter_map comp_def)
  finally show ?thesis by (simp add: map_nth)
qed

lemma exact_search_eq:
  assumes "exact_build F rows = Inr ix" and "allowed \<noteq> []" and "length query = ex_dimension ix \<or> rows = []"
    and "normalized F query"
  shows "exact_search F ix query allowed k = Inr (take k (rank F query (filter (\<lambda>r. fst r \<in> set allowed) rows)))"
proof (cases "k = 0 \<or> rows = []")
  case True
  then show ?thesis using exact_build_Inr(1) [OF assms(1)] by (auto simp: exact_search_def rank_def)
next
  case False
  let ?c = "map (scored F query) (filter (\<lambda>r. fst r \<in> set allowed) rows)"
  have "take (min k (length xs)) xs = take k xs" for xs :: "candidate list"
    by (simp add: min_def)
  from this [of "sort_key cand_key ?c"]
  have "take (min k (length ?c)) (sort_key cand_key ?c) = take k (sort_key cand_key ?c)" by simp
  with False assms exact_build_Inr(1) [OF assms(1)] show ?thesis
    by (simp add: exact_search_def score_rows_eq [OF assms(1)] rank_def Let_def)
qed

subsection \<open>Two tiers search like one\<close>

lemma merge_unique_take:
  "distinct (map cand_chunk cs) \<Longrightarrow> set (map cand_chunk cs) \<inter> set seen = {} \<Longrightarrow> length out < k \<Longrightarrow>
     merge_unique k cs seen out = out @ take (k - length out) cs"
proof (induction cs arbitrary: seen out)
  case (Cons c cs)
  show ?case
  proof (cases "length (out @ [c]) = k")
    case True
    then have "k - length out = 1" by simp
    with True Cons.prems show ?thesis by simp
  next
    case False
    then have "merge_unique k cs (cand_chunk c # seen) (out @ [c]) = (out @ [c]) @ take (k - length (out @ [c])) cs"
      using Cons.prems by (intro Cons.IH) auto
    moreover have "k - length out = Suc (k - length (out @ [c]))" using False Cons.prems(3) by simp
    ultimately show ?thesis using False Cons.prems by simp
  qed
qed simp

lemma mset_take_subset: "mset (take k xs) \<subseteq># mset xs"
  by (metis append_take_drop_id mset_append mset_subset_eq_add_left)

lemma inj_cand_key: "inj_on cand_chunk S \<Longrightarrow> inj_on cand_key S"
  by (simp add: cand_key_def inj_on_def)

lemma distinct_sub_mset: "mset a \<subseteq># mset b \<Longrightarrow> distinct b \<Longrightarrow> distinct a"
proof -
  assume "mset a \<subseteq># mset b" "distinct b"
  moreover obtain ys where "mset ys = mset b - mset a" using ex_mset by blast
  ultimately have "mset (a @ ys) = mset b" by simp
  with \<open>distinct b\<close> have "distinct (a @ ys)" by (metis mset_eq_imp_distinct_iff)
  then show "distinct a" by simp
qed

lemma tiered_search_rank:
  assumes "base_index (ti_base t) = Exact b" and "exact_build F brows = Inr b"
    and "exact_build F drows = Inr (ti_delta t)"
    and "length query = ex_dimension b \<or> brows = []" and "length query = ex_dimension (ti_delta t) \<or> drows = []"
    and "normalized F query" and "set (map fst brows) \<inter> set base_allowed \<inter> (set (map fst drows) \<inter> set delta_allowed) = {}"
  shows "tiered_search F A t query base_allowed delta_allowed k =
    Inr (take k (rank F query (filter (\<lambda>r. fst r \<in> set base_allowed) brows @
                               filter (\<lambda>r. fst r \<in> set delta_allowed) drows)))"
proof -
  define B where "B = filter (\<lambda>r. fst r \<in> set base_allowed) brows"
  define D where "D = filter (\<lambda>r. fst r \<in> set delta_allowed) drows"
  have base: "(if base_allowed \<noteq> [] then index_search F A (base_index (ti_base t)) query base_allowed k
      else Inr []) = Inr (take k (rank F query B))"
    using exact_search_eq [OF assms(2) _ assms(4,6), of base_allowed k]
    by (simp add: index_search_def assms(1) B_def rank_def)
  have delta: "(if delta_allowed \<noteq> [] then exact_search F (ti_delta t) query delta_allowed k else Inr []) =
      Inr (take k (rank F query D))"
    using exact_search_eq [OF assms(3) _ assms(5,6), of delta_allowed k] by (simp add: D_def rank_def)
  have disj: "set (map fst B) \<inter> set (map fst D) = {}" using assms(7) by (auto simp: B_def D_def)
  have "distinct (map fst B)" "distinct (map fst D)"
    using exact_build_Inr(3) [OF assms(2)] exact_build_Inr(3) [OF assms(3)]
    by (simp_all add: B_def D_def distinct_map_filter)
  with disj have dk: "distinct (map fst (B @ D))" by simp
  have chunk: "cand_chunk \<circ> scored F query = fst" by (auto simp: scored_def)
  have dc: "distinct (map cand_chunk (map (scored F query) (B @ D)))"
    using dk by (simp only: map_map chunk)
  then have ds: "distinct (map (scored F query) (B @ D))"
    using distinct_map [of cand_chunk "map (scored F query) (B @ D)"] by blast
  have "inj_on cand_chunk (set (map (scored F query) (B @ D)))" using dc distinct_map [of cand_chunk "map (scored F query) (B @ D)"] by blast
  then have inj: "inj_on cand_key (set (map (scored F query) (B @ D)))"
    by (rule inj_cand_key)
  let ?m = "sort_key cand_key (take k (rank F query B) @ take k (rank F query D))"
  have top: "take k ?m = take k (rank F query (B @ D))"
    using merge_top [of cand_key "map (scored F query) B" "map (scored F query) D" k] inj ds
    by (simp add: rank_def)
  have dm: "distinct (map cand_chunk ?m)"
  proof -
    have "mset ?m \<subseteq># mset (map (scored F query) (B @ D))"
      using mset_take_subset [of k "rank F query B"] mset_take_subset [of k "rank F query D"]
      by (simp add: rank_def subset_mset.add_mono)
    then have "mset (map cand_chunk ?m) \<subseteq># mset (map cand_chunk (map (scored F query) (B @ D)))"
      by (simp only: mset_map image_mset_subseteq_mono)
    then show ?thesis using dc by (rule distinct_sub_mset)
  qed
  have "merge_unique k ?m [] [] = take k ?m"
  proof (cases k)
    case 0
    then show ?thesis by simp
  next
    case (Suc j)
    then show ?thesis using merge_unique_take [OF dm, of "[]" "[]" k] by simp
  qed
  with top show ?thesis
    unfolding tiered_search_def base delta by (simp add: B_def D_def)
qed

subsection \<open>Properties of dense search\<close>

lemma rank_optimal:
  assumes "c \<in> set (take k (rank F query rows))" and "r \<in> set rows"
    and "scored F query r \<notin> set (take k (rank F query rows))"
  shows "cand_key c \<le> cand_key (scored F query r)"
proof -
  have "scored F query r \<in> set (rank F query rows)" using assms(2) by (simp add: rank_def)
  with assms(3) have "scored F query r \<in> set (drop k (rank F query rows))"
    by (metis UnE append_take_drop_id set_append)
  moreover have "sorted (map cand_key (take k (rank F query rows) @ drop k (rank F query rows)))"
    by (simp add: rank_def)
  then have "\<forall>x \<in> set (take k (rank F query rows)). \<forall>y \<in> set (drop k (rank F query rows)). cand_key x \<le> cand_key y"
    by (simp only: map_append sorted_append) simp
  ultimately show ?thesis using assms(1) by blast
qed


definition sample_fp :: fp where
  "sample_fp = \<lparr>fp_dot = (\<lambda>q v. hd v), fp_norm_error = (\<lambda>v. 0), fp_scale = (\<lambda>n q. of_nat n * q)\<rparr>"

definition sample_rows :: "vector_record list" where
  "sample_rows = [(''a'', [0x3F000000]), (''b'', [0x3F800000])]"

definition sample_ann :: ann where
  "sample_ann = \<lparr>ann_faiss = False, ann_build = (\<lambda>_ _ _. Inr ()), ann_search = (\<lambda>_ _ _ _. Inr [])\<rparr>"


end
