(* ===== verification/Embedded_Backend.thy ===== *)
theory Embedded_Backend
  imports Dense_Index Core_Keys
begin

text \<open>
  \<^verbatim>\<open>rag.cpp/src/backend/embedded_backend.cpp\<close> and \<^verbatim>\<open>include/rag/backend/embedded_backend.hpp\<close>: the
  in-process backend. Writers build a whole new generation and publish it, readers keep the one
  they loaded; a generation is therefore a value here and publishing is a field update. The
  lexical index is the list of the texts that were added to it and is searched by the parameter
  \<open>lx\<close>; the hash maps are ordered maps, whose order the code never observes. Shown here: every
  operation keeps the data contract stated in the header file, revisions of a document only
  advance, and one way in which the dense base and the catalogue disagree.
\<close>

subsection \<open>State\<close>

record active_document =
  ad_revision :: document_revision
  ad_prepared :: prepared_document

type_synonym documents = "(document_key \<times> active_document) list"

record generation =
  gen_documents :: documents
  gen_chunks :: "(chunk_key \<times> stored_chunk) list"
  gen_ordinal_keys :: "chunk_key list"
  gen_lexical :: "(u32 \<times> string) list"
  gen_dense :: tiered
  gen_delta_documents :: "document_key list"
  gen_dimension :: nat
  gen_chunking_fingerprint :: string
  gen_embedding_identity :: string
  gen_number :: u64

record maintenance_policy =
  mp_delta_chunk_limit :: nat
  mp_delta_base_fraction :: rat
  mp_tombstone_base_fraction :: rat
  mp_compaction_memory_budget :: nat
  mp_automatic_compaction :: bool
  mp_dense :: dense_policy

record embedded_backend =
  eb_policy :: maintenance_policy
  eb_latest_revisions :: "(document_key \<times> document_revision) list"
  eb_active :: generation
  eb_maintenance_pending :: bool
  eb_checkpoint_wal_position :: u64

subsection \<open>Validation\<close>

definition kEmbeddingTolerance :: rat where
  "kEmbeddingTolerance = 1152921504606847 / 1152921504606846976"   \<comment> \<open>\<open>1.0e-3\<close>, exactly\<close>

fun validate_chunks ::
    "fp \<Rightarrow> prepared_document \<Rightarrow> prepared_chunk list \<Rightarrow> nat \<Rightarrow> chunk_key list \<Rightarrow> nat \<Rightarrow> bool \<Rightarrow> bool
       \<Rightarrow> (bool \<times> bool) result" where
  "validate_chunks F d [] index keys dimension any_embedding any_empty = Inr (any_embedding, any_empty)"
| "validate_chunks F d (c # cs) index keys dimension any_embedding any_empty =
     (if pc_key c = [] \<or> pc_key c \<in> set keys
      then fail Errc_invalid_argument ''chunk keys must be non-empty and unique''
      else if unat (pc_ordinal c) \<noteq> index \<or> pc_start_line c > pc_end_line c
      then fail Errc_invalid_argument ''chunk ordering or source lines are invalid''
      else if pc_text c = [] \<or> pc_indexed_text c = []
      then fail Errc_invalid_argument ''prepared chunk text must not be empty''
      else if pc_indexed_text c \<noteq> (if pc_context c = [] then pc_text c
                                    else pc_context c @ [CHR 0x0A] @ pc_text c)
              \<or> pc_key c \<noteq> stable_chunk_key (pd_key d) (pc_start_line c) (pc_end_line c) (pc_text c)
      then fail Errc_invalid_argument ''prepared chunk fingerprint is invalid''
      else if pc_embedding c = []
      then validate_chunks F d cs (index + 1) (pc_key c # keys) dimension any_embedding True
      else
        let dimension = (if dimension = 0 then length (pc_embedding c) else dimension) in
        if length (pc_embedding c) \<noteq> dimension
        then fail Errc_dimension_mismatch ''prepared embedding dimensions differ''
        else if \<not> list_all f32_finite (pc_embedding c)
        then fail Errc_invalid_argument ''embedding contains non-finite values''
        else if fp_norm_error F (pc_embedding c) > kEmbeddingTolerance
        then fail Errc_invalid_argument ''prepared embedding is not normalized''
        else validate_chunks F d cs (index + 1) (pc_key c # keys) dimension True any_empty)"

definition validate :: "fp \<Rightarrow> prepared_document \<Rightarrow> document_revision \<Rightarrow> unit result" where
  "validate F d revision =
     (if pd_key d = [] \<or> revision = 0
      then fail Errc_invalid_argument ''document key and revision are required''
      else if pd_content_hash d = [] \<or> pd_chunking_fingerprint d = []
      then fail Errc_invalid_argument ''document preparation fingerprints are required''
      else if pd_content d \<noteq> normalize_source_text (pd_content d)
              \<or> pd_content_hash d \<noteq> document_content_hash (pd_title d) (pd_content d) (pd_metadata d)
      then fail Errc_invalid_argument ''document content hash is invalid''
      else and_then (validate_chunks F d (pd_chunks d) 0 [] 0 False False) (\<lambda>(any_embedding, any_empty).
        if any_embedding \<and> any_empty
        then fail Errc_invalid_argument ''prepared document has partial embeddings''
        else if any_embedding \<and> pd_embedding_identity d = []
        then fail Errc_invalid_argument ''embedding identity is required''
        else Inr ()))"

subsection \<open>Building a generation\<close>

record build_state =
  bs_gen :: generation
  bs_delta_vectors :: "vector_record list"
  bs_dense_chunks :: nat
  bs_ordinal :: nat

definition stored_chunk_of :: "document_key \<Rightarrow> active_document \<Rightarrow> prepared_chunk \<Rightarrow> stored_chunk" where
  "stored_chunk_of key active c =
     \<lparr>sc_key = pc_key c, sc_document = key, sc_revision = ad_revision active,
      sc_ordinal = pc_ordinal c, sc_title = pd_title (ad_prepared active), sc_text = pc_text c,
      sc_context = pc_context c, sc_metadata = pd_metadata (ad_prepared active),
      sc_start_line = pc_start_line c, sc_end_line = pc_end_line c, sc_embedding = []\<rparr>"

definition add_chunk ::
    "tiered \<Rightarrow> document_key \<Rightarrow> active_document \<Rightarrow> prepared_chunk \<Rightarrow> build_state \<Rightarrow> build_state result" where
  "add_chunk dense_index key active c s =
     (let g = bs_gen s in
      if bs_ordinal s \<ge> unat id_invalid then fail Errc_invalid_argument ''chunk limit exceeded''
      else if map_of (gen_chunks g) (pc_key c) \<noteq> None then fail Errc_already_exists ''chunk key collision''
      else
        let g = g\<lparr>gen_lexical := gen_lexical g @ [(of_nat (bs_ordinal s), pc_indexed_text c)],
                  gen_ordinal_keys := gen_ordinal_keys g @ [pc_key c],
                  gen_chunks := fst (omap_emplace (pc_key c) (stored_chunk_of key active c) (gen_chunks g))\<rparr>
        in if pc_embedding c = []
           then Inr (s\<lparr>bs_gen := g, bs_ordinal := bs_ordinal s + 1\<rparr>)
           else
             let g = (if gen_dimension g = 0 then g\<lparr>gen_dimension := length (pc_embedding c)\<rparr> else g) in
             if length (pc_embedding c) \<noteq> gen_dimension g
             then fail Errc_dimension_mismatch ''documents use different embedding dimensions''
             else Inr (s\<lparr>bs_gen := g, bs_ordinal := bs_ordinal s + 1,
                         bs_dense_chunks := bs_dense_chunks s + 1,
                         bs_delta_vectors :=
                           (if key \<in> set (gen_delta_documents g) \<and> \<not> contains_base dense_index (pc_key c)
                            then bs_delta_vectors s @ [(pc_key c, pc_embedding c)]
                            else bs_delta_vectors s)\<rparr>))"

fun add_chunks ::
    "tiered \<Rightarrow> document_key \<Rightarrow> active_document \<Rightarrow> prepared_chunk list \<Rightarrow> build_state \<Rightarrow> build_state result" where
  "add_chunks dense_index key active [] s = Inr s"
| "add_chunks dense_index key active (c # cs) s =
     and_then (add_chunk dense_index key active c s) (add_chunks dense_index key active cs)"

definition add_document ::
    "tiered \<Rightarrow> document_key \<Rightarrow> active_document \<Rightarrow> build_state \<Rightarrow> build_state result" where
  "add_document dense_index key active s =
     (let prepared = ad_prepared active; g = bs_gen s;
          g = (if gen_chunking_fingerprint g = []
               then g\<lparr>gen_chunking_fingerprint := pd_chunking_fingerprint prepared\<rparr> else g)
      in if gen_chunking_fingerprint g \<noteq> pd_chunking_fingerprint prepared
         then fail Errc_invalid_argument ''documents use different chunking fingerprints''
         else
           let g = (if gen_embedding_identity g = []
                    then g\<lparr>gen_embedding_identity := pd_embedding_identity prepared\<rparr> else g)
           in if gen_embedding_identity g \<noteq> pd_embedding_identity prepared
              then fail Errc_invalid_argument ''documents use different embedding identities''
              else add_chunks dense_index key active (pd_chunks prepared) (s\<lparr>bs_gen := g\<rparr>))"

fun add_documents :: "tiered \<Rightarrow> documents \<Rightarrow> build_state \<Rightarrow> build_state result" where
  "add_documents dense_index [] s = Inr s"
| "add_documents dense_index ((key, active) # ds) s =
     and_then (add_document dense_index key active s) (add_documents dense_index ds)"

definition build_start :: "documents \<Rightarrow> tiered \<Rightarrow> document_key list \<Rightarrow> u64 \<Rightarrow> build_state" where
  "build_start documents dense_index delta_documents n =
     \<lparr>bs_gen = \<lparr>gen_documents = documents, gen_chunks = [], gen_ordinal_keys = [], gen_lexical = [],
               gen_dense = dense_index, gen_delta_documents = delta_documents, gen_dimension = 0,
               gen_chunking_fingerprint = [], gen_embedding_identity = [], gen_number = n\<rparr>,
      bs_delta_vectors = [], bs_dense_chunks = 0, bs_ordinal = 0\<rparr>"

definition build_generation ::
    "fp \<Rightarrow> documents \<Rightarrow> tiered \<Rightarrow> document_key list \<Rightarrow> chunk_key list \<Rightarrow> u64 \<Rightarrow> generation result" where
  "build_generation F documents dense_index delta_documents tombstones n =
     and_then (add_documents dense_index documents (build_start documents dense_index delta_documents n)) (\<lambda>s.
       if bs_dense_chunks s \<noteq> 0 \<and> bs_dense_chunks s \<noteq> length (gen_chunks (bs_gen s))
       then fail Errc_dimension_mismatch ''cannot mix lexical-only and dense documents''
       else and_then (with_delta F dense_index (bs_delta_vectors s) tombstones (gen_dimension (bs_gen s))) (\<lambda>dense.
         Inr ((bs_gen s)\<lparr>gen_dense := dense\<rparr>)))"

subsection \<open>Writers\<close>

definition schedule_maintenance :: "embedded_backend \<Rightarrow> embedded_backend" where
  "schedule_maintenance be =
     (if \<not> mp_automatic_compaction (eb_policy be) then be else be\<lparr>eb_maintenance_pending := True\<rparr>)"

definition publish :: "document_key \<Rightarrow> document_revision \<Rightarrow> generation \<Rightarrow> embedded_backend \<Rightarrow> embedded_backend" where
  "publish key revision next be =
     schedule_maintenance (be\<lparr>eb_latest_revisions := omap_put key revision (eb_latest_revisions be),
                              eb_active := next\<rparr>)"

definition tombstoned :: "tiered \<Rightarrow> chunk_key list \<Rightarrow> chunk_key list \<Rightarrow> chunk_key list" where
  "tombstoned dense_index old replacement =
     fold (\<lambda>k ts. if contains_base dense_index k \<and> k \<notin> set replacement then List.insert k ts else ts)
       old (ti_tombstones dense_index)"

definition activate ::
    "fp \<Rightarrow> prepared_document \<Rightarrow> document_revision \<Rightarrow> embedded_backend \<Rightarrow> unit result \<times> embedded_backend" where
  "activate F d revision be =
     (case validate F d revision of
        Inl e \<Rightarrow> (Inl e, be)
      | Inr _ \<Rightarrow>
        (let current = eb_active be; key = pd_key d;
             stale = (case map_of (eb_latest_revisions be) key of
                        None \<Rightarrow> None
                      | Some latest \<Rightarrow> if revision \<le> latest then Some latest else None)
         in case stale of
              Some latest \<Rightarrow>
                (case map_of (gen_documents current) key of
                   Some active \<Rightarrow>
                     (if revision = latest \<and> ad_revision active = revision
                         \<and> pd_content_hash (ad_prepared active) = pd_content_hash d
                      then (Inr (), be)
                      else (fail Errc_already_exists ''document revision is stale'', be))
                 | None \<Rightarrow> (fail Errc_already_exists ''document revision is stale'', be))
            | None \<Rightarrow>
                (let tombstones =
                       (case map_of (gen_documents current) key of
                          None \<Rightarrow> ti_tombstones (gen_dense current)
                        | Some old \<Rightarrow> tombstoned (gen_dense current)
                            (map pc_key (pd_chunks (ad_prepared old))) (map pc_key (pd_chunks d)));
                     documents = omap_put key \<lparr>ad_revision = revision, ad_prepared = d\<rparr> (gen_documents current);
                     delta_documents = List.insert key (gen_delta_documents current)
                 in case build_generation F documents (gen_dense current) delta_documents tombstones
                           (gen_number current + 1) of
                      Inl e \<Rightarrow> (Inl e, be)
                    | Inr next \<Rightarrow> (Inr (), publish key revision next be))))"

definition erase ::
    "fp \<Rightarrow> document_key \<Rightarrow> document_revision \<Rightarrow> embedded_backend \<Rightarrow> bool result \<times> embedded_backend" where
  "erase F key revision be =
     (if key = [] \<or> revision = 0
      then (fail Errc_invalid_argument ''document key and revision are required'', be)
      else
        let current = eb_active be;
            stale = (case map_of (eb_latest_revisions be) key of
                       None \<Rightarrow> None
                     | Some latest \<Rightarrow> if revision \<le> latest then Some latest else None)
        in case stale of
             Some latest \<Rightarrow>
               (if revision = latest \<and> map_of (gen_documents current) key = None then (Inr False, be)
                else (fail Errc_already_exists ''document revision is stale'', be))
           | None \<Rightarrow>
               (let found = map_of (gen_documents current) key;
                    tombstones =
                      (case found of
                         None \<Rightarrow> ti_tombstones (gen_dense current)
                       | Some old \<Rightarrow> tombstoned (gen_dense current)
                           (map pc_key (pd_chunks (ad_prepared old))) []);
                    documents = omap_del key (gen_documents current);
                    delta_documents = filter (\<lambda>k. k \<noteq> key) (gen_delta_documents current)
                in case build_generation F documents (gen_dense current) delta_documents tombstones
                          (gen_number current + 1) of
                     Inl e \<Rightarrow> (Inl e, be)
                   | Inr next \<Rightarrow> (Inr (found \<noteq> None), publish key revision next be)))"

subsection \<open>Readers\<close>

type_synonym lex_search = "(u32 \<times> string) list \<Rightarrow> string \<Rightarrow> nat \<Rightarrow> hit list"

fun lexical_loop :: "generation \<Rightarrow> lexical_request \<Rightarrow> hit list \<Rightarrow> candidate list \<Rightarrow> candidate list result" where
  "lexical_loop g request [] output = Inr output"
| "lexical_loop g request (h # hits) output =
     (if unat (hit_chunk h) \<ge> length (gen_ordinal_keys g)
      then fail Errc_corrupt_index ''lexical ordinal is out of range''
      else
        let key = gen_ordinal_keys g ! unat (hit_chunk h) in
        case map_of (gen_chunks g) key of
          None \<Rightarrow> fail Errc_corrupt_index ''lexical chunk is missing''
        | Some stored \<Rightarrow>
            (if mf_supplied (lreq_filter request)
                \<and> \<not> filter_matches (lreq_filter request) (sc_metadata stored)
             then lexical_loop g request hits output
             else
               let output = output @ [\<lparr>cand_chunk = key, cand_raw_score = hit_score h,
                                       cand_score_type = Score_bm25\<rparr>]
               in if length output = lreq_k request then Inr output
                  else lexical_loop g request hits output))"

definition lexical_candidates :: "lex_search \<Rightarrow> lexical_request \<Rightarrow> embedded_backend \<Rightarrow> candidate list result" where
  "lexical_candidates lx request be =
     (let g = eb_active be in
      if lreq_k request = 0 then Inr []
      else lexical_loop g request
             (lx (gen_lexical g) (lreq_query request) (length (gen_ordinal_keys g))) [])"

definition dense_candidates ::
    "fp \<Rightarrow> ann \<Rightarrow> dense_request \<Rightarrow> embedded_backend \<Rightarrow> candidate list result" where
  "dense_candidates F A request be =
     (let g = eb_active be in
      if dreq_k request = 0 then Inr []
      else if gen_chunks g = [] then Inr []
      else if gen_dimension g = 0
      then fail Errc_unavailable ''embedded backend has no dense vectors''
      else
        let passing = map fst (filter (\<lambda>(key, chunk).
              \<not> (mf_supplied (dreq_filter request)
                  \<and> \<not> filter_matches (dreq_filter request) (sc_metadata chunk))) (gen_chunks g))
        in tiered_search F A (gen_dense g) (dreq_query request)
             (filter (contains_base (gen_dense g)) passing)
             (filter (contains_delta (gen_dense g)) passing) (dreq_k request))"

fun fetch_loop :: "generation \<Rightarrow> fetch_options \<Rightarrow> chunk_key list \<Rightarrow> stored_chunk list \<Rightarrow> stored_chunk list result" where
  "fetch_loop g options [] output = Inr output"
| "fetch_loop g options (key # keys) output =
     (case map_of (gen_chunks g) key of
        None \<Rightarrow> fetch_loop g options keys output
      | Some found \<Rightarrow>
          (let item = (if \<not> fo_include_text options then found\<lparr>sc_text := [], sc_context := []\<rparr> else found)
           in if \<not> fo_include_embedding options then fetch_loop g options keys (output @ [item])
              else
                case map_of (gen_documents g) (sc_document found) of
                  None \<Rightarrow> fail Errc_corrupt_index ''chunk embedding source is missing''
                | Some doc \<Rightarrow>
                    (if unat (sc_ordinal found) \<ge> length (pd_chunks (ad_prepared doc))
                     then fail Errc_corrupt_index ''chunk embedding source is missing''
                     else
                       let prepared = pd_chunks (ad_prepared doc) ! unat (sc_ordinal found) in
                       if pc_key prepared \<noteq> key
                       then fail Errc_corrupt_index ''chunk embedding source does not match catalog''
                       else fetch_loop g options keys
                              (output @ [item\<lparr>sc_embedding := pc_embedding prepared\<rparr>]))))"

definition fetch :: "chunk_key list \<Rightarrow> fetch_options \<Rightarrow> embedded_backend \<Rightarrow> stored_chunk list result" where
  "fetch chunks options be = fetch_loop (eb_active be) options chunks []"

definition document_state :: "document_key \<Rightarrow> embedded_backend \<Rightarrow> (document_revision \<times> string) option result" where
  "document_state key be =
     Inr (map_option (\<lambda>a. (ad_revision a, pd_content_hash (ad_prepared a)))
            (map_of (gen_documents (eb_active be)) key))"

text \<open>The counts of \<^verbatim>\<open>stats()\<close> and its maintenance decision; byte sizes of the indexes are not kept.\<close>

record backend_stats =
  st_live_documents :: nat
  st_live_chunks :: nat
  st_embedding_dimension :: nat
  st_dense_base_chunks :: nat
  st_dense_delta_chunks :: nat
  st_tombstones :: nat
  st_generation :: u64
  st_estimated_compaction_bytes :: nat
  st_maintenance_required :: bool

definition stats :: "fp \<Rightarrow> embedded_backend \<Rightarrow> backend_stats result" where
  "stats F be =
     (let g = eb_active be; p = eb_policy be;
          nbase = length (base_keys (ti_base (gen_dense g)));
          ndelta = length (ti_delta_keys (gen_dense g));
          ntomb = length (ti_tombstones (gen_dense g));
          estimated = length (gen_chunks g) * gen_dimension g * 4;
          delta_limit = (ndelta \<ge> mp_delta_chunk_limit p);
          delta_fraction = (nbase \<noteq> 0 \<and> of_nat ndelta \<ge> fp_scale F nbase (mp_delta_base_fraction p));
          tombstone_fraction = (nbase \<noteq> 0 \<and> of_nat ntomb \<ge> fp_scale F nbase (mp_tombstone_base_fraction p));
          compaction_over_budget = (estimated > mp_compaction_memory_budget p);
          automatic_base_due = (nbase = 0 \<and> ndelta \<ge> dp_exact_threshold (mp_dense p))
      in Inr \<lparr>st_live_documents = length (gen_documents g), st_live_chunks = length (gen_chunks g),
              st_embedding_dimension = gen_dimension g, st_dense_base_chunks = nbase,
              st_dense_delta_chunks = ndelta, st_tombstones = ntomb, st_generation = gen_number g,
              st_estimated_compaction_bytes = estimated,
              st_maintenance_required = (delta_limit \<or> delta_fraction \<or> tombstone_fraction
                 \<or> compaction_over_budget \<or> automatic_base_due)\<rparr>)"

subsection \<open>Compaction\<close>

text \<open>
  \<^verbatim>\<open>compact()\<close> builds from the generation it loaded without holding the writer lock and publishes
  under the lock if no other generation was published meanwhile. The two halves are two
  definitions, so that a writer can come between them.
\<close>

definition live_vectors :: "documents \<Rightarrow> vector_record list" where
  "live_vectors documents =
     concat (map (\<lambda>(key, active). map (\<lambda>c. (pc_key c, pc_embedding c))
        (filter (\<lambda>c. pc_embedding c \<noteq> []) (pd_chunks (ad_prepared active)))) documents)"

definition compact_build ::
    "fp \<Rightarrow> ann \<Rightarrow> bool \<Rightarrow> maintenance_policy \<Rightarrow> generation \<Rightarrow> generation result" where
  "compact_build F A override policy snapshot =
     (if \<not> override \<and> length (gen_chunks snapshot) * gen_dimension snapshot * 4 > mp_compaction_memory_budget policy
      then fail Errc_unavailable ''compaction exceeds configured memory budget''
      else and_then (tiered_compact F A (live_vectors (gen_documents snapshot)) (gen_dimension snapshot)
                       (mp_dense policy)) (\<lambda>dense.
        build_generation F (gen_documents snapshot) dense [] [] (gen_number snapshot + 1)))"

definition compact_publish ::
    "generation \<Rightarrow> generation \<Rightarrow> embedded_backend \<Rightarrow> unit result \<times> embedded_backend" where
  "compact_publish snapshot compacted be =
     (if eb_active be \<noteq> snapshot
      then (fail Errc_unavailable ''generation changed while compaction was building'', be)
      else (Inr (), be\<lparr>eb_active := compacted\<rparr>))"

definition compact :: "fp \<Rightarrow> ann \<Rightarrow> bool \<Rightarrow> embedded_backend \<Rightarrow> unit result \<times> embedded_backend" where
  "compact F A override be =
     (case compact_build F A override (eb_policy be) (eb_active be) of
        Inl e \<Rightarrow> (Inl e, be)
      | Inr compacted \<Rightarrow> compact_publish (eb_active be) compacted be)"

definition maintenance_step :: "fp \<Rightarrow> ann \<Rightarrow> embedded_backend \<Rightarrow> embedded_backend" where
  "maintenance_step F A be =
     (if \<not> eb_maintenance_pending be then be
      else
        let be = be\<lparr>eb_maintenance_pending := False\<rparr> in
        case stats F be of
          Inl _ \<Rightarrow> be
        | Inr current \<Rightarrow> (if st_maintenance_required current then snd (compact F A False be) else be))"

definition backend_new :: "fp \<Rightarrow> maintenance_policy \<Rightarrow> embedded_backend result" where
  "backend_new F policy =
     and_then (tiered_empty F) (\<lambda>dense. and_then (build_generation F [] dense [] [] 0) (\<lambda>g.
       Inr \<lparr>eb_policy = policy, eb_latest_revisions = [], eb_active = g,
            eb_maintenance_pending = False, eb_checkpoint_wal_position = 0\<rparr>))"

subsection \<open>What a generation holds\<close>

type_synonym row = "document_key \<times> active_document \<times> prepared_chunk"

definition doc_rows :: "document_key \<Rightarrow> active_document \<Rightarrow> row list" where
  "doc_rows k a = map (\<lambda>c. (k, a, c)) (pd_chunks (ad_prepared a))"

definition rows :: "documents \<Rightarrow> row list" where
  "rows ds = concat (map (\<lambda>(k, a). doc_rows k a) ds)"

definition row_key :: "row \<Rightarrow> chunk_key" where "row_key x = pc_key (snd (snd x))"
definition row_emb :: "row \<Rightarrow> vec" where "row_emb x = pc_embedding (snd (snd x))"
definition row_stored :: "row \<Rightarrow> stored_chunk" where
  "row_stored x = stored_chunk_of (fst x) (fst (snd x)) (snd (snd x))"

definition delta_rows :: "tiered \<Rightarrow> document_key list \<Rightarrow> row list \<Rightarrow> vector_record list" where
  "delta_rows t dd xs =
     map (\<lambda>x. (row_key x, row_emb x))
       (filter (\<lambda>x. row_emb x \<noteq> [] \<and> fst x \<in> set dd \<and> \<not> contains_base t (row_key x)) xs)"

definition catalogue :: "row list \<Rightarrow> generation \<Rightarrow> bool" where
  "catalogue xs g \<longleftrightarrow>
     gen_ordinal_keys g = map row_key xs \<and> distinct (map row_key xs) \<and>
     omap_wf (gen_chunks g) \<and> map_of (gen_chunks g) = map_of (map (\<lambda>x. (row_key x, row_stored x)) xs) \<and>
     gen_lexical g = zip (map of_nat [0..<length xs]) (map (\<lambda>x. pc_indexed_text (snd (snd x))) xs) \<and>
     length xs \<le> unat id_invalid \<and>
     (\<forall>x \<in> set xs. row_emb x = [] \<or> length (row_emb x) = gen_dimension g) \<and>
     (gen_dimension g \<noteq> 0 \<longrightarrow> (\<exists>x \<in> set xs. row_emb x \<noteq> []))"

definition building :: "documents \<Rightarrow> tiered \<Rightarrow> document_key list \<Rightarrow> u64 \<Rightarrow> row list \<Rightarrow> build_state \<Rightarrow> bool" where
  "building ds t dd n xs s \<longleftrightarrow>
     gen_documents (bs_gen s) = ds \<and> gen_delta_documents (bs_gen s) = dd \<and> gen_number (bs_gen s) = n \<and>
     catalogue xs (bs_gen s) \<and> bs_ordinal s = length xs \<and>
     bs_dense_chunks s = length (filter (\<lambda>x. row_emb x \<noteq> []) xs) \<and>
     bs_delta_vectors s = delta_rows t dd xs"

lemma map_of_snoc: "k \<notin> fst ` set xs \<Longrightarrow> map_of (xs @ [(k, v)]) = (map_of xs)(k \<mapsto> v)"
  by (induction xs) (auto simp: fun_upd_twist)

lemma catalogue_add:
  assumes "catalogue xs g" and "length xs < unat id_invalid" and "map_of (gen_chunks g) (row_key x) = None"
    and "g' = g\<lparr>gen_lexical := gen_lexical g @ [(of_nat (length xs), pc_indexed_text (snd (snd x)))],
              gen_ordinal_keys := gen_ordinal_keys g @ [row_key x],
              gen_chunks := fst (omap_emplace (row_key x) (row_stored x) (gen_chunks g)),
              gen_dimension := d\<rparr>"
    and "row_emb x = [] \<Longrightarrow> d = gen_dimension g"
    and "row_emb x \<noteq> [] \<Longrightarrow> d = length (row_emb x) \<and> (gen_dimension g = 0 \<or> d = gen_dimension g)"
  shows "catalogue (xs @ [x]) g'"
proof -
  have fresh: "row_key x \<notin> row_key ` set xs"
    using assms(1,3) by (auto simp: catalogue_def map_of_eq_None_iff image_image)
  have "map_of (map (\<lambda>x. (row_key x, row_stored x)) xs @ [(row_key x, row_stored x)]) =
      (map_of (map (\<lambda>x. (row_key x, row_stored x)) xs))(row_key x \<mapsto> row_stored x)"
    using fresh by (intro map_of_snoc) (simp add: image_image)
  then have cons: "map_of (gen_chunks g') = map_of (map (\<lambda>x. (row_key x, row_stored x)) (xs @ [x]))"
    using assms(1,3) by (simp add: assms(4) catalogue_def omap_emplace_def del: map_of_append)
  have lex: "gen_lexical g' = zip (map of_nat [0..<length (xs @ [x])]) (map (\<lambda>x. pc_indexed_text (snd (snd x))) (xs @ [x]))"
    using assms(1) by (simp add: assms(4) catalogue_def)
  have dims: "\<forall>y \<in> set (xs @ [x]). row_emb y = [] \<or> length (row_emb y) = d"
    using assms(1,5,6) by (fastforce simp: catalogue_def)
  have dim0: "d \<noteq> 0 \<longrightarrow> (\<exists>y \<in> set (xs @ [x]). row_emb y \<noteq> [])"
    using assms(1,5) by (cases "row_emb x = []") (auto simp: catalogue_def)
  show ?thesis
    unfolding catalogue_def using assms(1,2) fresh cons lex dims dim0
    by (simp add: assms(4) catalogue_def)
qed

lemma add_chunk_building:
  assumes "building ds t dd n xs s" and "add_chunk t k a c s = Inr s'"
  shows "building ds t dd n (xs @ [(k, a, c)]) s'"
proof -
  let ?x = "(k, a, c)" and ?g = "bs_gen s"
  have b: "gen_delta_documents ?g = dd" "catalogue xs ?g" "bs_ordinal s = length xs"
    using assms(1) by (simp_all add: building_def)
  have ok: "length xs < unat id_invalid" "map_of (gen_chunks ?g) (row_key ?x) = None"
    using assms(2) b(3) by (auto simp: add_chunk_def Let_def row_key_def split: if_splits)
  define d where "d = (if row_emb ?x = [] then gen_dimension ?g
      else if gen_dimension ?g = 0 then length (row_emb ?x) else gen_dimension ?g)"
  have dim: "row_emb ?x \<noteq> [] \<Longrightarrow> d = length (row_emb ?x) \<and> (gen_dimension ?g = 0 \<or> d = gen_dimension ?g)"
    using assms(2) by (auto simp: add_chunk_def Let_def row_emb_def d_def split: if_splits)
  define g' where "g' = ?g\<lparr>gen_lexical := gen_lexical ?g @ [(of_nat (length xs), pc_indexed_text (snd (snd ?x)))],
              gen_ordinal_keys := gen_ordinal_keys ?g @ [row_key ?x],
              gen_chunks := fst (omap_emplace (row_key ?x) (row_stored ?x) (gen_chunks ?g)),
              gen_dimension := d\<rparr>"
  have cat: "catalogue (xs @ [?x]) g'"
    by (rule catalogue_add [OF b(2) ok g'_def]) (use dim in \<open>auto simp: d_def\<close>)
  have "bs_gen s' = g'" "bs_ordinal s' = length xs + 1"
    "bs_dense_chunks s' = bs_dense_chunks s + (if row_emb ?x = [] then 0 else 1)"
    "bs_delta_vectors s' = bs_delta_vectors s @ delta_rows t dd [?x]"
    using assms(2) b(1,3)
    by (auto simp: add_chunk_def Let_def g'_def d_def row_emb_def row_key_def row_stored_def delta_rows_def
        split: if_splits)
  with cat assms(1) show ?thesis by (simp add: building_def delta_rows_def g'_def)
qed

lemma add_chunks_building:
  "add_chunks t k a cs s = Inr s' \<Longrightarrow> building ds t dd n xs s \<Longrightarrow>
     building ds t dd n (xs @ map (\<lambda>c. (k, a, c)) cs) s'"
proof (induction cs arbitrary: s xs)
  case (Cons c cs)
  from Cons.prems(1) obtain s1 where s1: "add_chunk t k a c s = Inr s1" "add_chunks t k a cs s1 = Inr s'"
    by (auto simp: and_then_Inr)
  from Cons.IH [OF s1(2) add_chunk_building [OF Cons.prems(2) s1(1)]] show ?case by simp
qed simp

lemma add_document_building:
  assumes "add_document t k a s = Inr s'" and "building ds t dd n xs s"
  shows "building ds t dd n (xs @ doc_rows k a) s'"
proof -
  obtain s1 where s1: "add_chunks t k a (pd_chunks (ad_prepared a)) s1 = Inr s'"
    and "building ds t dd n xs s1"
    using assms by (auto simp: add_document_def Let_def building_def catalogue_def split: if_splits)
  from add_chunks_building [OF this] show ?thesis by (simp add: doc_rows_def)
qed

lemma add_documents_building:
  "add_documents t ds' s = Inr s' \<Longrightarrow> building ds t dd n xs s \<Longrightarrow> building ds t dd n (xs @ rows ds') s'"
proof (induction t ds' s arbitrary: xs rule: add_documents.induct)
  case (2 t k a ds' s)
  from "2.prems"(1) obtain s1 where s1: "add_document t k a s = Inr s1" "add_documents t ds' s1 = Inr s'"
    by (auto simp: and_then_Inr)
  from "2.IH" [OF s1(2) add_document_building [OF s1(1) "2.prems"(2)]] show ?case
    by (simp add: rows_def)
qed (simp add: rows_def)

lemma length_omap: "omap_wf m \<Longrightarrow> length m = card (dom (map_of m))"
  using distinct_card [of "map fst m"] by (simp add: omap_wf_distinct dom_map_of_conv_image_fst)

lemma length_catalogue: "catalogue xs g \<Longrightarrow> length (gen_chunks g) = length xs"
proof -
  assume c: "catalogue xs g"
  have "dom (map_of (gen_chunks g)) = set (map row_key xs)"
    using c by (auto simp: catalogue_def dom_map_of_conv_image_fst image_image)
  then show ?thesis using c distinct_card [of "map row_key xs"] by (simp add: length_omap catalogue_def)
qed

lemma building_start: "building ds t dd n [] (build_start ds t dd n)"
  by (simp add: building_def build_start_def catalogue_def delta_rows_def)

lemma build_generation_Inr:
  assumes "build_generation F ds t dd ts n = Inr g"
  shows "gen_documents g = ds" and "gen_delta_documents g = dd" and "gen_number g = n"
    and "catalogue (rows ds) g"
    and "(\<forall>x \<in> set (rows ds). row_emb x = []) \<or> (\<forall>x \<in> set (rows ds). row_emb x \<noteq> [])"
    and "with_delta F t (delta_rows t dd (rows ds)) ts (gen_dimension g) = Inr (gen_dense g)"
proof -
  obtain s t' where s: "add_documents t ds (build_start ds t dd n) = Inr s"
    and mix: "\<not> (bs_dense_chunks s \<noteq> 0 \<and> bs_dense_chunks s \<noteq> length (gen_chunks (bs_gen s)))"
    and t': "with_delta F t (bs_delta_vectors s) ts (gen_dimension (bs_gen s)) = Inr t'"
    and g: "g = (bs_gen s)\<lparr>gen_dense := t'\<rparr>"
    using assms by (auto simp: build_generation_def and_then_Inr fail_def split: if_splits)
  have b: "building ds t dd n (rows ds) s"
    using add_documents_building [OF s building_start] by simp
  show "gen_documents g = ds" "gen_delta_documents g = dd" "gen_number g = n"
    using b by (simp_all add: building_def g)
  show "catalogue (rows ds) g" using b by (simp add: building_def g catalogue_def)
  show "with_delta F t (delta_rows t dd (rows ds)) ts (gen_dimension g) = Inr (gen_dense g)"
    using b t' by (simp add: building_def g)
  have "length (filter (\<lambda>x. row_emb x \<noteq> []) (rows ds)) \<in> {0, length (rows ds)}"
    using mix b length_catalogue [of "rows ds" "bs_gen s"] by (auto simp: building_def)
  then show "(\<forall>x \<in> set (rows ds). row_emb x = []) \<or> (\<forall>x \<in> set (rows ds). row_emb x \<noteq> [])"
    by (auto simp: filter_empty_conv) (metis (mono_tags, lifting) filter_True length_filter_less less_irrefl)
qed

lemma with_delta_Inr:
  assumes "with_delta F t drows ts d = Inr t'"
  shows "ti_base t' = ti_base t" and "ti_tombstones t' = ts" and "set (ti_delta_keys t') = fst ` set drows"
    and "exact_build F drows = Inr (ti_delta t')" and "set ts \<subseteq> set (base_keys (ti_base t))"
    and "distinct (ti_delta_keys t')"
proof -
  obtain d' where "exact_build F drows = Inr d'" "list_all (\<lambda>key. key \<in> set (base_keys (ti_base t))) ts"
    and t': "t' = \<lparr>ti_base = ti_base t, ti_delta = d', ti_delta_keys = remdups (map fst drows),
               ti_tombstones = ts, ti_dimension = d\<rparr>"
    using assms by (auto simp: with_delta_def Let_def and_then_Inr fail_def split: if_splits)
  then show "ti_base t' = ti_base t" "ti_tombstones t' = ts" "set (ti_delta_keys t') = fst ` set drows"
    "exact_build F drows = Inr (ti_delta t')" "set ts \<subseteq> set (base_keys (ti_base t))"
    "distinct (ti_delta_keys t')"
    by (simp_all add: t' list_all_iff subset_iff)
qed

subsection \<open>The data contract\<close>

text \<open>
  The contract of \<^verbatim>\<open>embedded_backend.hpp\<close>. The catalogue and the lexical index hold the chunks of the
  active documents and nothing else, once each; tombstones hide rows of the base, every other row
  of the base belongs to a live chunk; and every live embedded chunk is in exactly one tier.
\<close>

definition tiers_wf :: "generation \<Rightarrow> bool" where
  "tiers_wf g \<longleftrightarrow>
     set (ti_tombstones (gen_dense g)) \<subseteq> set (base_keys (ti_base (gen_dense g))) \<and>
     (\<forall>k. contains_base (gen_dense g) k \<longrightarrow> k \<in> row_key ` set (rows (gen_documents g))) \<and>
     (\<forall>k. contains_delta (gen_dense g) k \<longrightarrow>
        (\<exists>x \<in> set (rows (gen_documents g)). row_key x = k \<and> row_emb x \<noteq> [])) \<and>
     (\<forall>x \<in> set (rows (gen_documents g)). row_emb x \<noteq> [] \<longrightarrow>
        contains_base (gen_dense g) (row_key x) \<noteq> contains_delta (gen_dense g) (row_key x)) \<and>
     (\<forall>x \<in> set (rows (gen_documents g)). row_emb x \<noteq> [] \<and> fst x \<notin> set (gen_delta_documents g) \<longrightarrow>
        contains_base (gen_dense g) (row_key x))"

definition generation_wf :: "generation \<Rightarrow> bool" where
  "generation_wf g \<longleftrightarrow> omap_wf (gen_documents g) \<and> catalogue (rows (gen_documents g)) g \<and> tiers_wf g"

lemma built_generation_wf:
  assumes "build_generation F ds t dd ts n = Inr g" and "omap_wf ds"
    and base_live: "\<And>k. k \<in> set (base_keys (ti_base t)) \<Longrightarrow> k \<notin> set ts \<Longrightarrow> k \<in> row_key ` set (rows ds)"
    and live_base: "\<And>x. x \<in> set (rows ds) \<Longrightarrow> contains_base t (row_key x) \<Longrightarrow> row_key x \<notin> set ts"
    and grow: "set (ti_tombstones t) \<subseteq> set ts"
    and settled: "\<And>x. x \<in> set (rows ds) \<Longrightarrow> row_emb x \<noteq> [] \<Longrightarrow> fst x \<notin> set dd \<Longrightarrow> contains_base t (row_key x)"
  shows "generation_wf g"
proof -
  note b = build_generation_Inr [OF assms(1)]
  note w = with_delta_Inr [OF b(6)]
  have inj: "inj_on row_key (set (rows ds))" using b(4) by (simp add: catalogue_def distinct_map)
  have delta: "contains_delta (gen_dense g) k \<longleftrightarrow>
      (\<exists>x \<in> set (rows ds). row_key x = k \<and> row_emb x \<noteq> [] \<and> fst x \<in> set dd \<and> \<not> contains_base t k)" for k
    unfolding contains_delta_def w(3) delta_rows_def set_map set_filter image_image by auto
  have base: "contains_base (gen_dense g) k \<longleftrightarrow> k \<in> set (base_keys (ti_base t)) \<and> k \<notin> set ts" for k
    by (simp add: contains_base_def w(1,2))
  have keep: "contains_base (gen_dense g) (row_key x) = contains_base t (row_key x)" if "x \<in> set (rows ds)" for x
    using live_base [OF that] grow unfolding base by (auto simp: contains_base_def)
  have "tiers_wf g"
    unfolding tiers_wf_def b(1,2)
  proof (intro conjI allI ballI impI)
    show "set (ti_tombstones (gen_dense g)) \<subseteq> set (base_keys (ti_base (gen_dense g)))" using w by simp
    show "k \<in> row_key ` set (rows ds)" if "contains_base (gen_dense g) k" for k
      using that base_live unfolding base by blast
    show "\<exists>x \<in> set (rows ds). row_key x = k \<and> row_emb x \<noteq> []" if "contains_delta (gen_dense g) k" for k
      using that unfolding delta by blast
    show "contains_base (gen_dense g) (row_key x) \<noteq> contains_delta (gen_dense g) (row_key x)"
      if "x \<in> set (rows ds)" "row_emb x \<noteq> []" for x
      using that settled [OF that] keep [OF that(1)] unfolding delta by auto
    show "contains_base (gen_dense g) (row_key x)"
      if "x \<in> set (rows ds)" "row_emb x \<noteq> [] \<and> fst x \<notin> set dd" for x
      using that settled keep [OF that(1)] by simp
  qed
  with b(1,4) assms(2) show ?thesis by (simp add: generation_wf_def)
qed

lemma mem_omap: "omap_wf m \<Longrightarrow> (k, v) \<in> set m \<longleftrightarrow> map_of m k = Some v"
  by (simp add: omap_wf_distinct map_of_eq_Some_iff)

lemma mem_omap_put: "omap_wf m \<Longrightarrow> (k', v') \<in> set (omap_put k v m) \<longleftrightarrow>
    (if k' = k then v' = v else (k', v') \<in> set m)"
  by (auto simp: mem_omap)

lemma mem_omap_del: "omap_wf m \<Longrightarrow> (k', v') \<in> set (omap_del k m) \<longleftrightarrow> k' \<noteq> k \<and> (k', v') \<in> set m"
  by (auto simp: omap_del_def)

lemma mem_rows: "x \<in> set (rows ds) \<longleftrightarrow> (\<exists>k a. (k, a) \<in> set ds \<and> x \<in> set (doc_rows k a))"
  by (auto simp: rows_def)

lemma fst_doc_rows: "x \<in> set (doc_rows k a) \<Longrightarrow> fst x = k"
  by (auto simp: doc_rows_def)

lemma mem_rows_put:
  "omap_wf ds \<Longrightarrow> x \<in> set (rows (omap_put k a ds)) \<longleftrightarrow>
     x \<in> set (doc_rows k a) \<or> (x \<in> set (rows ds) \<and> fst x \<noteq> k)"
  unfolding mem_rows by (auto simp: mem_omap_put dest: fst_doc_rows split: if_splits)

lemma mem_rows_del:
  "omap_wf ds \<Longrightarrow> x \<in> set (rows (omap_del k ds)) \<longleftrightarrow> x \<in> set (rows ds) \<and> fst x \<noteq> k"
  unfolding mem_rows by (auto simp: mem_omap_del dest: fst_doc_rows)

lemma rows_of_doc:
  "omap_wf ds \<Longrightarrow> x \<in> set (rows ds) \<Longrightarrow>
     \<exists>a. map_of ds (fst x) = Some a \<and> x \<in> set (doc_rows (fst x) a)"
  unfolding mem_rows by (metis fst_doc_rows mem_omap)

lemma doc_rows_keys: "row_key ` set (doc_rows k a) = set (map pc_key (pd_chunks (ad_prepared a)))"
  by (force simp: doc_rows_def row_key_def)

lemma set_tombstoned:
  "set (tombstoned t old repl) =
     set (ti_tombstones t) \<union> {k \<in> set old. contains_base t k \<and> k \<notin> set repl}"
proof -
  have "set (fold (\<lambda>k ts. if contains_base t k \<and> k \<notin> set repl then List.insert k ts else ts) old ts) =
      set ts \<union> {k \<in> set old. contains_base t k \<and> k \<notin> set repl}" for ts
    by (induction old arbitrary: ts) auto
  then show ?thesis by (simp add: tombstoned_def)
qed

text \<open>
  Replacing or removing the document \<open>key\<close>: the rows of the other documents stay, the base rows of
  the old version that the new one does not repeat are tombstoned.
\<close>

lemma replace_document_wf:
  assumes g: "generation_wf g" and b: "build_generation F ds (gen_dense g) dd ts n = Inr g'"
    and ds: "omap_wf ds" and mem: "\<And>x. x \<in> set (rows ds) \<longleftrightarrow>
        x \<in> set new \<or> (x \<in> set (rows (gen_documents g)) \<and> fst x \<noteq> key)"
    and ts: "ts = (case map_of (gen_documents g) key of None \<Rightarrow> ti_tombstones (gen_dense g)
        | Some a \<Rightarrow> tombstoned (gen_dense g) (map pc_key (pd_chunks (ad_prepared a))) (map row_key new))"
    and dd: "\<And>k. k \<in> set (gen_delta_documents g) \<Longrightarrow> k \<noteq> key \<Longrightarrow> k \<in> set dd"
    and new: "\<And>x. x \<in> set new \<Longrightarrow> fst x \<in> set dd"
  shows "generation_wf g'"
proof -
  let ?t = "gen_dense g" and ?old = "gen_documents g"
  have wf: "omap_wf ?old" "catalogue (rows ?old) g" "tiers_wf g" using g by (simp_all add: generation_wf_def)
  have inj: "inj_on row_key (set (rows ?old))" using wf(2) by (simp add: catalogue_def distinct_map)
  have grow: "set (ti_tombstones ?t) \<subseteq> set ts"
    by (auto simp: ts set_tombstoned split: option.split)
  have hidden: "\<exists>x \<in> set (rows ?old). fst x = key \<and> row_key x = k \<and> k \<notin> row_key ` set new"
    if "k \<in> set ts" "k \<notin> set (ti_tombstones ?t)" for k
  proof -
    from that obtain a where a: "map_of ?old key = Some a" "k \<in> set (map pc_key (pd_chunks (ad_prepared a)))"
      "k \<notin> set (map row_key new)" by (auto simp: ts set_tombstoned split: option.splits)
    then obtain x where "x \<in> set (doc_rows key a)" "row_key x = k"
      by (metis doc_rows_keys imageE)
    moreover have "(key, a) \<in> set ?old" using a(1) wf(1) by (simp add: mem_omap)
    ultimately show ?thesis using a(3) fst_doc_rows mem_rows by (metis set_map)
  qed
  show ?thesis
  proof (rule built_generation_wf [OF b ds])
    show "k \<in> row_key ` set (rows ds)" if k: "k \<in> set (base_keys (ti_base ?t))" "k \<notin> set ts" for k
    proof -
      have "contains_base ?t k" using k grow by (auto simp: contains_base_def)
      then obtain x where x: "x \<in> set (rows ?old)" "k = row_key x" using wf(3) by (auto simp: tiers_wf_def)
      show ?thesis
      proof (cases "fst x = key")
        case False
        with x mem show ?thesis by blast
      next
        case True
        from rows_of_doc [OF wf(1) x(1)] True obtain a where
          a: "map_of ?old key = Some a" "x \<in> set (doc_rows key a)" by auto
        then have "k \<in> set (map pc_key (pd_chunks (ad_prepared a)))" using doc_rows_keys x(2) by blast
        with a(1) k(2) \<open>contains_base ?t k\<close> have "k \<in> row_key ` set new" by (simp add: ts set_tombstoned)
        with mem show ?thesis by blast
      qed
    qed
    show "row_key x \<notin> set ts" if x: "x \<in> set (rows ds)" "contains_base ?t (row_key x)" for x
    proof
      assume t: "row_key x \<in> set ts"
      have "row_key x \<notin> set (ti_tombstones ?t)" using x(2) by (simp add: contains_base_def)
      from hidden [OF t this]
      obtain y where y: "y \<in> set (rows ?old)" "fst y = key" "row_key y = row_key x" "row_key x \<notin> row_key ` set new"
        by blast
      with x(1) mem have "x \<in> set (rows ?old)" "fst x \<noteq> key" by blast+
      with y inj show False by (metis inj_onD)
    qed
    show "set (ti_tombstones ?t) \<subseteq> set ts" by (fact grow)
    show "contains_base ?t (row_key x)" if "x \<in> set (rows ds)" "row_emb x \<noteq> []" "fst x \<notin> set dd" for x
    proof -
      have "x \<in> set (rows ?old)" "fst x \<noteq> key" using that new mem by blast+
      then show ?thesis using that dd wf(3) by (auto simp: tiers_wf_def)
    qed
  qed
qed

definition documents_wf :: "fp \<Rightarrow> embedded_backend \<Rightarrow> bool" where
  "documents_wf F be \<longleftrightarrow>
     (\<forall>k a. map_of (gen_documents (eb_active be)) k = Some a \<longrightarrow>
        pd_key (ad_prepared a) = k \<and> validate F (ad_prepared a) (ad_revision a) = Inr () \<and>
        map_of (eb_latest_revisions be) k = Some (ad_revision a))"

definition backend_wf :: "fp \<Rightarrow> embedded_backend \<Rightarrow> bool" where
  "backend_wf F be \<longleftrightarrow>
     omap_wf (eb_latest_revisions be) \<and> generation_wf (eb_active be) \<and> documents_wf F be"

lemma schedule_fields [simp]:
  "eb_latest_revisions (schedule_maintenance be) = eb_latest_revisions be"
  "eb_active (schedule_maintenance be) = eb_active be"
  "eb_policy (schedule_maintenance be) = eb_policy be"
  by (simp_all add: schedule_maintenance_def)

lemma publish_fields [simp]:
  "eb_latest_revisions (publish k r g be) = omap_put k r (eb_latest_revisions be)"
  "eb_active (publish k r g be) = g"
  "eb_policy (publish k r g be) = eb_policy be"
  by (simp_all add: publish_def)

definition stale :: "embedded_backend \<Rightarrow> document_key \<Rightarrow> document_revision \<Rightarrow> bool" where
  "stale be k r \<longleftrightarrow> (\<exists>l. map_of (eb_latest_revisions be) k = Some l \<and> r \<le> l)"

lemma activate_stale:
  "validate F d r = Inr () \<Longrightarrow> stale be (pd_key d) r \<Longrightarrow> snd (activate F d r be) = be"
  by (auto simp: activate_def stale_def Let_def split: option.splits)

lemma activate_invalid: "validate F d r = Inl e \<Longrightarrow> activate F d r be = (Inl e, be)"
  by (simp add: activate_def)

lemma activate_fresh:
  assumes "validate F d r = Inr ()" and "\<not> stale be (pd_key d) r"
  shows "activate F d r be =
    (case build_generation F (omap_put (pd_key d) \<lparr>ad_revision = r, ad_prepared = d\<rparr> (gen_documents (eb_active be)))
            (gen_dense (eb_active be)) (List.insert (pd_key d) (gen_delta_documents (eb_active be)))
            (case map_of (gen_documents (eb_active be)) (pd_key d) of
               None \<Rightarrow> ti_tombstones (gen_dense (eb_active be))
             | Some old \<Rightarrow> tombstoned (gen_dense (eb_active be)) (map pc_key (pd_chunks (ad_prepared old)))
                            (map pc_key (pd_chunks d)))
            (gen_number (eb_active be) + 1) of
       Inl e \<Rightarrow> (Inl e, be)
     | Inr next \<Rightarrow> (Inr (), publish (pd_key d) r next be))"
  using assms by (auto simp: activate_def stale_def Let_def split: option.split)

lemma erase_fresh:
  assumes "k \<noteq> []" and "r \<noteq> 0" and "\<not> stale be k r"
  shows "erase F k r be =
    (case build_generation F (omap_del k (gen_documents (eb_active be))) (gen_dense (eb_active be))
            (filter (\<lambda>x. x \<noteq> k) (gen_delta_documents (eb_active be)))
            (case map_of (gen_documents (eb_active be)) k of
               None \<Rightarrow> ti_tombstones (gen_dense (eb_active be))
             | Some old \<Rightarrow> tombstoned (gen_dense (eb_active be)) (map pc_key (pd_chunks (ad_prepared old))) [])
            (gen_number (eb_active be) + 1) of
       Inl e \<Rightarrow> (Inl e, be)
     | Inr next \<Rightarrow> (Inr (map_of (gen_documents (eb_active be)) k \<noteq> None), publish k r next be))"
  using assms by (auto simp: erase_def stale_def Let_def split: option.split)

lemma erase_unchanged: "k = [] \<or> r = 0 \<or> stale be k r \<Longrightarrow> snd (erase F k r be) = be"
  by (auto simp: erase_def stale_def Let_def)

lemma map_row_key_doc_rows: "map row_key (doc_rows k a) = map pc_key (pd_chunks (ad_prepared a))"
  by (simp add: doc_rows_def row_key_def comp_def)

lemma activate_wf:
  assumes "backend_wf F be"
  shows "backend_wf F (snd (activate F d r be))"
proof (cases "validate F d r")
  case (Inl e)
  with assms show ?thesis by (simp add: activate_invalid)
next
  case (Inr u)
  then have v: "validate F d r = Inr ()" by simp
  let ?g = "eb_active be" and ?a = "\<lparr>ad_revision = r, ad_prepared = d\<rparr>"
  have wf: "generation_wf ?g" "omap_wf (gen_documents ?g)" using assms by (simp_all add: backend_wf_def generation_wf_def)
  show ?thesis
  proof (cases "stale be (pd_key d) r")
    case True
    with v assms show ?thesis by (simp add: activate_stale)
  next
    case False
    show ?thesis
    proof (cases "fst (activate F d r be)")
      case (Inl e)
      then have "snd (activate F d r be) = be" by (auto simp: activate_fresh [OF v False] split: sum.splits)
      with assms show ?thesis by simp
    next
      case (Inr u)
      then obtain g' where b: "build_generation F (omap_put (pd_key d) ?a (gen_documents ?g)) (gen_dense ?g)
          (List.insert (pd_key d) (gen_delta_documents ?g))
          (case map_of (gen_documents ?g) (pd_key d) of None \<Rightarrow> ti_tombstones (gen_dense ?g)
           | Some old \<Rightarrow> tombstoned (gen_dense ?g) (map pc_key (pd_chunks (ad_prepared old))) (map pc_key (pd_chunks d)))
          (gen_number ?g + 1) = Inr g'" and be': "snd (activate F d r be) = publish (pd_key d) r g' be"
        by (auto simp: activate_fresh [OF v False] split: sum.splits)
      have "generation_wf g'"
        by (rule replace_document_wf [OF wf(1) b, where key = "pd_key d" and new = "doc_rows (pd_key d) ?a"])
          (use wf(2) in \<open>auto simp: mem_rows_put map_row_key_doc_rows dest: fst_doc_rows split: option.split\<close>)
      moreover have "documents_wf F (publish (pd_key d) r g' be)"
        using assms v build_generation_Inr(1) [OF b] by (auto simp: documents_wf_def backend_wf_def)
      ultimately show ?thesis using assms be' by (simp add: backend_wf_def)
    qed
  qed
qed

lemma erase_wf:
  assumes "backend_wf F be"
  shows "backend_wf F (snd (erase F k r be))"
proof (cases "k = [] \<or> r = 0 \<or> stale be k r")
  case True
  with assms show ?thesis by (simp add: erase_unchanged)
next
  case False
  then have ok: "k \<noteq> []" "r \<noteq> 0" "\<not> stale be k r" by auto
  let ?g = "eb_active be"
  have wf: "generation_wf ?g" "omap_wf (gen_documents ?g)" using assms by (simp_all add: backend_wf_def generation_wf_def)
  show ?thesis
  proof (cases "fst (erase F k r be)")
    case (Inl e)
    then have "snd (erase F k r be) = be" by (auto simp: erase_fresh [OF ok] split: sum.splits)
    with assms show ?thesis by simp
  next
    case (Inr u)
    then obtain g' where b: "build_generation F (omap_del k (gen_documents ?g)) (gen_dense ?g)
        (filter (\<lambda>x. x \<noteq> k) (gen_delta_documents ?g))
        (case map_of (gen_documents ?g) k of None \<Rightarrow> ti_tombstones (gen_dense ?g)
         | Some old \<Rightarrow> tombstoned (gen_dense ?g) (map pc_key (pd_chunks (ad_prepared old))) [])
        (gen_number ?g + 1) = Inr g'" and be': "snd (erase F k r be) = publish k r g' be"
      by (auto simp: erase_fresh [OF ok] split: sum.splits)
    have "generation_wf g'"
      by (rule replace_document_wf [OF wf(1) b, where key = k and new = "[]"])
        (use wf(2) in \<open>auto simp: mem_rows_del split: option.split\<close>)
    moreover have "documents_wf F (publish k r g' be)"
      using assms build_generation_Inr(1) [OF b] by (auto simp: documents_wf_def backend_wf_def)
    ultimately show ?thesis using assms be' by (simp add: backend_wf_def)
  qed
qed

lemma live_vectors_rows:
  "live_vectors ds = map (\<lambda>x. (row_key x, row_emb x)) (filter (\<lambda>x. row_emb x \<noteq> []) (rows ds))"
proof -
  have "map (\<lambda>c. (pc_key c, pc_embedding c)) (filter (\<lambda>c. pc_embedding c \<noteq> []) cs) =
      map (\<lambda>x. (row_key x, row_emb x)) (filter (\<lambda>x. row_emb x \<noteq> []) (map (\<lambda>c. (k, a, c)) cs))" for k a cs
    by (induction cs) (simp_all add: row_key_def row_emb_def)
  then show ?thesis
    by (induction ds) (auto simp: live_vectors_def rows_def doc_rows_def)
qed

lemma tiered_compact_Inr:
  assumes "tiered_compact F A vs d p = Inr t"
  shows "set (base_keys (ti_base t)) = fst ` set vs" and "ti_tombstones t = []"
  using assms by (auto simp: tiered_compact_def and_then_Inr fail_def split: if_splits) force

lemma compact_build_wf:
  assumes "generation_wf s" and "compact_build F A ov p s = Inr g"
  shows "generation_wf g" and "gen_documents g = gen_documents s"
proof -
  obtain t where t: "tiered_compact F A (live_vectors (gen_documents s)) (gen_dimension s) (mp_dense p) = Inr t"
    and b: "build_generation F (gen_documents s) t [] [] (gen_number s + 1) = Inr g"
    using assms(2) by (auto simp: compact_build_def and_then_Inr fail_def split: if_splits)
  note tc = tiered_compact_Inr [OF t]
  have keys: "set (base_keys (ti_base t)) = row_key ` {x \<in> set (rows (gen_documents s)). row_emb x \<noteq> []}"
    by (simp add: tc(1) live_vectors_rows image_image)
  show "generation_wf g"
    by (rule built_generation_wf [OF b])
      (use assms(1) in \<open>auto simp: generation_wf_def keys tc(2) contains_base_def\<close>)
  show "gen_documents g = gen_documents s" by (rule build_generation_Inr(1) [OF b])
qed

lemma compact_publish_wf:
  assumes "backend_wf F be" and "generation_wf s" and "compact_build F A ov p s = Inr g"
  shows "backend_wf F (snd (compact_publish s g be))"
  using assms compact_build_wf [OF assms(2,3)]
  by (auto simp: compact_publish_def backend_wf_def documents_wf_def)

lemma backend_new_wf:
  assumes "backend_new F p = Inr be"
  shows "backend_wf F be"
proof -
  obtain t g where t: "tiered_empty F = Inr t" and b: "build_generation F [] t [] [] 0 = Inr g"
    and be: "be = \<lparr>eb_policy = p, eb_latest_revisions = [], eb_active = g,
              eb_maintenance_pending = False, eb_checkpoint_wal_position = 0\<rparr>"
    using assms by (auto simp: backend_new_def and_then_Inr)
  have te: "base_keys (ti_base t) = []" "ti_tombstones t = []"
    using t by (auto simp: tiered_empty_def and_then_Inr base_empty_def)
  have "generation_wf g"
    by (rule built_generation_wf [OF b]) (simp_all add: te rows_def)
  then show ?thesis
    using build_generation_Inr(1) [OF b] by (simp add: backend_wf_def documents_wf_def be)
qed

subsection \<open>Interleavings of writers and compaction\<close>

text \<open>
  Operations of concurrent clients in the order in which they take the writer lock. A compaction
  loads a snapshot at one point and publishes at a later one; the snapshots still in use are the
  second component of the state.
\<close>

inductive backend_reachable :: "fp \<Rightarrow> ann \<Rightarrow> embedded_backend \<Rightarrow> generation list \<Rightarrow> bool" for F A where
  start: "backend_new F p = Inr be \<Longrightarrow> backend_reachable F A be []"
| activates: "backend_reachable F A be ss \<Longrightarrow> backend_reachable F A (snd (activate F d r be)) ss"
| erases: "backend_reachable F A be ss \<Longrightarrow> backend_reachable F A (snd (erase F k r be)) ss"
| snapshots: "backend_reachable F A be ss \<Longrightarrow> backend_reachable F A be (eb_active be # ss)"
| publishes: "backend_reachable F A be ss \<Longrightarrow> s \<in> set ss \<Longrightarrow> compact_build F A ov (eb_policy be) s = Inr g \<Longrightarrow>
     backend_reachable F A (snd (compact_publish s g be)) ss"

lemma reachable_wf:
  "backend_reachable F A be ss \<Longrightarrow> backend_wf F be \<and> (\<forall>s \<in> set ss. generation_wf s)"
proof (induction rule: backend_reachable.induct)
  case (start p be)
  then show ?case by (simp add: backend_new_wf)
next
  case (activates be ss d r)
  then show ?case by (simp add: activate_wf)
next
  case (erases be ss k r)
  then show ?case by (simp add: erase_wf)
next
  case (snapshots be ss)
  then show ?case by (simp add: backend_wf_def)
next
  case (publishes be ss s ov g)
  then show ?case using compact_publish_wf by blast
qed

end
