(* ===== verification/Embedded_Contract.thy ===== *)
theory Embedded_Contract
  imports Embedded_Backend
begin

text \<open>
  What clients of \<^verbatim>\<open>EmbeddedBackend\<close> rely on, over the model of \<open>Embedded_Backend\<close>: the data contract
  in every reachable state, atomic and revision-ordered writes, complete fetches, exact dense
  search, and the one case in which the dense base keeps a vector that is no longer current.
\<close>

subsection \<open>A concrete backend\<close>

definition sample_policy :: maintenance_policy where
  "sample_policy = \<lparr>mp_delta_chunk_limit = 10000, mp_delta_base_fraction = 1 / 10,
     mp_tombstone_base_fraction = 1 / 10, mp_compaction_memory_budget = 1073741824,
     mp_automatic_compaction = False,
     mp_dense = \<lparr>dp_implementation = Impl_native, dp_algorithm = Alg_automatic, dp_exact_threshold = 2000\<rparr>\<rparr>"

definition sample_chunk :: "string \<Rightarrow> f32 \<Rightarrow> prepared_chunk" where
  "sample_chunk ctx e =
     \<lparr>pc_key = stable_chunk_key ''d'' 1 1 ''x'', pc_ordinal = 0, pc_text = ''x'',
      pc_indexed_text = (if ctx = [] then ''x'' else ctx @ [CHR 0x0A] @ ''x''), pc_context = ctx,
      pc_start_line = 1, pc_end_line = 1, pc_embedding = [e]\<rparr>"

definition sample_document :: "string \<Rightarrow> f32 \<Rightarrow> prepared_document" where
  "sample_document ctx e =
     \<lparr>pd_key = ''d'', pd_title = ''t'', pd_content = ''x'', pd_metadata = [],
      pd_content_hash = document_content_hash ''t'' ''x'' [], pd_chunking_fingerprint = ''f'',
      pd_embedding_identity = ''m'', pd_chunks = [sample_chunk ctx e]\<rparr>"

definition sample_backend :: embedded_backend where
  "sample_backend = projr (backend_new sample_fp sample_policy)"

definition sample_indexed :: embedded_backend where
  "sample_indexed = snd (compact sample_fp sample_ann True
     (snd (activate sample_fp (sample_document [] 0x3F800000) 1 sample_backend)))"

lemma sample_key_nonempty: "stable_chunk_key k s e t \<noteq> []"
  by (simp add: stable_chunk_key_def)

lemma sample_hash_nonempty: "document_content_hash t c m \<noteq> []"
  by (simp add: document_content_hash_def)

lemma sample_norm: "fp_norm_error sample_fp v = 0"
  by (simp add: sample_fp_def)

lemma sample_validate:
  assumes "f32_finite e"
  shows "validate sample_fp (sample_document ctx e) 1 = Inr ()"
    and "validate sample_fp (sample_document ctx e) 2 = Inr ()"
proof -
  have n: "normalize_source_text ''x'' = ''x''" by code_simp
  show "validate sample_fp (sample_document ctx e) 1 = Inr ()" "validate sample_fp (sample_document ctx e) 2 = Inr ()"
    using assms n by (simp_all add: validate_def sample_document_def sample_chunk_def sample_key_nonempty
        sample_hash_nonempty sample_norm kEmbeddingTolerance_def)
qed

definition empty_gen :: generation where
  "empty_gen = \<lparr>gen_documents = [], gen_chunks = [], gen_ordinal_keys = [], gen_lexical = [],
     gen_dense = \<lparr>ti_base = base_empty, ti_delta = exact_new, ti_delta_keys = [], ti_tombstones = [], ti_dimension = 0\<rparr>,
     gen_delta_documents = [], gen_dimension = 0, gen_chunking_fingerprint = [], gen_embedding_identity = [], gen_number = 0\<rparr>"
lemma sample_new: "backend_new sample_fp sample_policy = Inr \<lparr>eb_policy = sample_policy, eb_latest_revisions = [],
   eb_active = empty_gen, eb_maintenance_pending = False, eb_checkpoint_wal_position = 0\<rparr>"
  by (simp add: backend_new_def tiered_empty_def exact_build_def build_generation_def build_start_def with_delta_def base_empty_def empty_gen_def exact_new_def)

definition sample_gen :: "string \<Rightarrow> f32 \<Rightarrow> u64 \<Rightarrow> tiered \<Rightarrow> document_key list \<Rightarrow> u64 \<Rightarrow> generation" where
  "sample_gen ctx e r t dd n = \<lparr>gen_documents = [(''d'', \<lparr>ad_revision = r, ad_prepared = sample_document ctx e\<rparr>)],
     gen_chunks = [(pc_key (sample_chunk ctx e), stored_chunk_of ''d'' \<lparr>ad_revision = r, ad_prepared = sample_document ctx e\<rparr> (sample_chunk ctx e))],
     gen_ordinal_keys = [pc_key (sample_chunk ctx e)], gen_lexical = [(0, pc_indexed_text (sample_chunk ctx e))],
     gen_dense = t, gen_delta_documents = dd, gen_dimension = 1, gen_chunking_fingerprint = ''f'',
     gen_embedding_identity = ''m'', gen_number = n\<rparr>"

lemma sample_build:
  "build_generation sample_fp [(''d'', \<lparr>ad_revision = r, ad_prepared = sample_document ctx e\<rparr>)] t dd ts n =
     and_then (with_delta sample_fp t (if ''d'' \<in> set dd \<and> \<not> contains_base t (pc_key (sample_chunk ctx e))
                then [(pc_key (sample_chunk ctx e), [e])] else []) ts 1) (\<lambda>t'. Inr (sample_gen ctx e r t' dd n))"
  by (simp add: build_generation_def build_start_def add_document_def add_chunk_def sample_document_def Let_def
     id_invalid_def omap_emplace_def sample_gen_def) (simp add: sample_chunk_def)

lemma sample_backend_value: "sample_backend = \<lparr>eb_policy = sample_policy, eb_latest_revisions = [],
   eb_active = empty_gen, eb_maintenance_pending = False, eb_checkpoint_wal_position = 0\<rparr>"
  by (simp add: sample_backend_def sample_new)
lemma sample_policy_fields: "mp_automatic_compaction sample_policy = False" "mp_dense sample_policy = \<lparr>dp_implementation = Impl_native, dp_algorithm = Alg_automatic, dp_exact_threshold = 2000\<rparr>"
  by (simp_all add: sample_policy_def)
definition sample_key :: chunk_key where "sample_key = stable_chunk_key ''d'' 1 1 ''x''"
lemma sample_chunk_key: "pc_key (sample_chunk ctx e) = sample_key" "sample_key \<noteq> []"
  by (simp_all add: sample_chunk_def sample_key_def sample_key_nonempty)
lemma sample_exact: "f32_finite e \<Longrightarrow> exact_build sample_fp [(sample_key, [e])] = Inr \<lparr>ex_keys = [sample_key], ex_vectors = [e], ex_dimension = 1\<rparr>"
  by (simp add: exact_build_def sample_chunk_key normalized_def sample_norm kUnitTolerance_def)
lemma exact_build_Nil: "exact_build sample_fp [] = Inr exact_new" by (simp add: exact_build_def exact_new_def)
lemma sample_embedding: "pc_embedding (sample_chunk ctx e) = [e]" by (simp add: sample_chunk_def)
lemma sample_fields: "pd_key (sample_document ctx e) = ''d''" "pd_chunks (sample_document ctx e) = [sample_chunk ctx e]"
  by (simp_all add: sample_document_def)
lemma sample_finite: "f32_finite 0x3F800000" "f32_finite 0x3F000000" by (simp_all add: f32_finite_def)
definition tier_delta :: "f32 \<Rightarrow> tiered" where "tier_delta e = \<lparr>ti_base = base_empty, ti_delta = \<lparr>ex_keys = [sample_key], ex_vectors = [e], ex_dimension = 1\<rparr>,
   ti_delta_keys = [sample_key], ti_tombstones = [], ti_dimension = 1\<rparr>"
definition tier_base :: "f32 \<Rightarrow> tiered" where "tier_base e = \<lparr>ti_base = \<lparr>base_index = Exact \<lparr>ex_keys = [sample_key], ex_vectors = [e], ex_dimension = 1\<rparr>,
    base_keys = [sample_key], base_dimension = 1\<rparr>, ti_delta = exact_new, ti_delta_keys = [], ti_tombstones = [], ti_dimension = 1\<rparr>"
lemma sample_activated: "activate sample_fp (sample_document [] 0x3F800000) 1 sample_backend =
   (Inr (), \<lparr>eb_policy = sample_policy, eb_latest_revisions = [(''d'', 1)],
   eb_active = sample_gen [] 0x3F800000 1 (tier_delta 0x3F800000) [''d''] 1, eb_maintenance_pending = False, eb_checkpoint_wal_position = 0\<rparr>)"
proof -
  have "\<not> stale sample_backend (pd_key (sample_document [] 0x3F800000)) 1" by (simp add: stale_def sample_backend_value)
  from activate_fresh [OF sample_validate(1) [OF sample_finite(1)] this] show ?thesis
   by (simp add: sample_backend_value empty_gen_def sample_fields sample_build contains_base_def base_empty_def with_delta_def sample_chunk_key sample_exact sample_finite
    publish_def schedule_maintenance_def sample_policy_fields tier_delta_def)
qed
lemma sample_compacted: "sample_indexed = \<lparr>eb_policy = sample_policy, eb_latest_revisions = [(''d'', 1)],
   eb_active = sample_gen [] 0x3F800000 1 (tier_base 0x3F800000) [] 2, eb_maintenance_pending = False, eb_checkpoint_wal_position = 0\<rparr>"
 by (simp add: sample_indexed_def sample_activated compact_def compact_build_def sample_gen_def live_vectors_def sample_fields sample_build contains_base_def 
   tiered_compact_def build_dense_index_def resolve_dense_algorithm_def sample_ann_def sample_policy_fields sample_exact sample_finite sample_chunk_key exact_build_Nil with_delta_def tier_base_def compact_publish_def sample_embedding)

subsection \<open>The data contract\<close>

text \<open>
  C13: the data contract of \<^verbatim>\<open>embedded_backend.hpp\<close> holds in every state that activations, erasures
  and compactions reach, in whatever order they take the writer lock and however late a compaction
  publishes the generation it built from an older snapshot: the catalogue and the lexical index
  hold each chunk of each active document once and nothing else, tombstones only hide base rows,
  every embedded live chunk is in exactly one of the two dense tiers, and each active document is
  a validated one at the newest revision seen for its key.\<close>
theorem embedded_data_contract:
  "backend_reachable F A be ss \<Longrightarrow> generation_wf (eb_active be) \<and> documents_wf F be"
  using reachable_wf by (simp add: backend_wf_def)

lemma compact_reachable:
  assumes "backend_reachable F A be ss"
  shows "\<exists>ss'. backend_reachable F A (snd (compact F A ov be)) ss'"
proof (cases "compact_build F A ov (eb_policy be) (eb_active be)")
  case (Inl e)
  with assms show ?thesis by (auto simp: compact_def)
next
  case (Inr g)
  have "backend_reachable F A (snd (compact_publish (eb_active be) g be)) (eb_active be # ss)"
    by (rule publishes [OF snapshots [OF assms] _ Inr]) simp
  with Inr show ?thesis by (auto simp: compact_def)
qed

lemma sample_reachable: "\<exists>ss. backend_reachable sample_fp sample_ann sample_indexed ss"
proof -
  have "backend_new sample_fp sample_policy = Inr sample_backend" by (simp add: sample_new sample_backend_value)
  from compact_reachable [OF activates [OF start [OF this]]] show ?thesis
    by (simp add: sample_indexed_def)
qed

theorem embedded_data_contract_witness:
  "generation_wf (eb_active sample_indexed) \<and> gen_documents (eb_active sample_indexed) \<noteq> []"
proof -
  obtain ss where "backend_reachable sample_fp sample_ann sample_indexed ss" using sample_reachable by blast
  from embedded_data_contract [OF this] show ?thesis by (simp add: sample_compacted sample_gen_def)
qed

subsection \<open>Writes are atomic and ordered by revision\<close>

definition latest :: "embedded_backend \<Rightarrow> document_key \<Rightarrow> document_revision option" where
  "latest be = map_of (eb_latest_revisions be)"

definition active :: "embedded_backend \<Rightarrow> document_key \<Rightarrow> active_document option" where
  "active be = map_of (gen_documents (eb_active be))"

lemma activate_Inl: "activate F d r be = (Inl e, be') \<Longrightarrow> be' = be"
proof (cases "validate F d r = Inr () \<and> \<not> stale be (pd_key d) r")
  case False
  then show "activate F d r be = (Inl e, be') \<Longrightarrow> be' = be"
    using activate_stale [of F d r be] activate_invalid [of F d r _ be] by (cases "validate F d r") auto
next
  case True
  then show "activate F d r be = (Inl e, be') \<Longrightarrow> be' = be"
    by (auto simp: activate_fresh split: sum.splits)
qed

lemma activate_Inr:
  assumes "activate F d r be = (Inr u, be')"
  shows "validate F d r = Inr () \<and> (be' = be \<and> stale be (pd_key d) r
     \<or> \<not> stale be (pd_key d) r \<and> latest be' = (latest be)(pd_key d \<mapsto> r) \<and>
       active be' = (active be)(pd_key d \<mapsto> \<lparr>ad_revision = r, ad_prepared = d\<rparr>))"
proof -
  have v: "validate F d r = Inr ()" using assms by (cases "validate F d r") (simp_all add: activate_invalid)
  show ?thesis
  proof (cases "stale be (pd_key d) r")
    case True
    then show ?thesis using assms activate_stale [OF v True] v by simp
  next
    case False
    then show ?thesis using assms v build_generation_Inr(1)
      by (auto simp: activate_fresh [OF v False] latest_def active_def split: sum.splits)
  qed
qed

lemma erase_Inl: "erase F k q be = (Inl e, be') \<Longrightarrow> be' = be"
proof (cases "k = [] \<or> q = 0 \<or> stale be k q")
  case True
  then show "erase F k q be = (Inl e, be') \<Longrightarrow> be' = be" using erase_unchanged [OF True, of F] by simp
next
  case False
  then show "erase F k q be = (Inl e, be') \<Longrightarrow> be' = be" by (auto simp: erase_fresh split: sum.splits)
qed

lemma erase_Inr:
  assumes "erase F k q be = (Inr existed, be')"
  shows "be' = be \<and> stale be k q
     \<or> \<not> stale be k q \<and> existed = (active be k \<noteq> None) \<and>
       latest be' = (latest be)(k \<mapsto> q) \<and> active be' = (active be)(k := None)"
proof (cases "stale be k q")
  case True
  then show ?thesis using assms erase_unchanged [of k q be F] by simp
next
  case False
  then have ok: "k \<noteq> []" "q \<noteq> 0" "\<not> stale be k q"
    using assms by (auto simp: erase_def fail_def split: if_splits)
  show ?thesis
    using assms build_generation_Inr(1) ok
    by (auto simp: erase_fresh [OF ok] latest_def active_def fun_eq_iff split: sum.splits)
qed

lemma activate_behind: "latest be k = Some q \<Longrightarrow> r \<le> q \<Longrightarrow> pd_key d = k \<Longrightarrow> active (snd (activate F d r be)) = active be"
  using activate_stale [of F d r be] activate_invalid [of F d r _ be]
  by (cases "validate F d r") (auto simp: stale_def latest_def)

text \<open>
  C14: a write takes effect as a whole or not at all, and only forward. An activation that fails
  or whose revision is not newer than the newest one seen for its key leaves the backend as it
  was; a newer valid one that succeeds makes exactly that revision active, records it as the
  newest and touches no other document. An erasure behaves in the same way, and its revision is
  remembered although no document is left, so an activation ordered before it cannot bring the
  document back.\<close>
theorem embedded_writes_ordered:
  assumes "activate F d r be = (res, be')" and "erase F k q be = (res', be'')"
  shows "(case res of Inl _ \<Rightarrow> be' = be
          | Inr _ \<Rightarrow> be' = be \<and> stale be (pd_key d) r
              \<or> \<not> stale be (pd_key d) r \<and> latest be' = (latest be)(pd_key d \<mapsto> r) \<and>
                active be' = (active be)(pd_key d \<mapsto> \<lparr>ad_revision = r, ad_prepared = d\<rparr>)) \<and>
         (case res' of Inl _ \<Rightarrow> be'' = be
          | Inr existed \<Rightarrow> be'' = be \<and> stale be k q
              \<or> \<not> stale be k q \<and> existed = (active be k \<noteq> None) \<and>
                latest be'' = (latest be)(k \<mapsto> q) \<and> active be'' = (active be)(k := None) \<and>
                (r \<le> q \<longrightarrow> pd_key d = k \<longrightarrow> active (snd (activate F d r be'')) k = None))"
proof -
  have "active (snd (activate F d r be'')) k = None"
    if "latest be'' = (latest be)(k \<mapsto> q)" "active be'' = (active be)(k := None)" "r \<le> q" "pd_key d = k"
    using activate_behind [of be'' k q r d F] that by simp
  then show ?thesis
    using assms activate_Inl [of F d r be _ be'] activate_Inr [of F d r be _ be']
      erase_Inl [of F k q be _ be''] erase_Inr [of F k q be _ be'']
    by (auto split: sum.split)
qed

theorem embedded_writes_ordered_witness:
  "latest (snd (activate sample_fp (sample_document [] 0x3F800000) 1 sample_backend)) ''d'' = Some 1"
proof -
  have "\<not> stale sample_backend ''d'' 1" by (simp add: stale_def sample_backend_value)
  then show ?thesis
    using embedded_writes_ordered [OF sample_activated surjective_pairing, of "''d''" 1]
    by (simp add: sample_activated sample_fields)
qed

subsection \<open>Fetching\<close>

definition live_row :: "generation \<Rightarrow> chunk_key \<Rightarrow> row option" where
  "live_row g k = find (\<lambda>x. row_key x = k) (rows (gen_documents g))"

definition fetched :: "fetch_options \<Rightarrow> row \<Rightarrow> stored_chunk" where
  "fetched opts x = (row_stored x)\<lparr>sc_text := (if fo_include_text opts then pc_text (snd (snd x)) else []),
     sc_context := (if fo_include_text opts then pc_context (snd (snd x)) else []),
     sc_embedding := (if fo_include_embedding opts then row_emb x else [])\<rparr>"

lemma validate_chunks_ordinal:
  "validate_chunks F d cs i keys dm ae em = Inr r \<Longrightarrow> j < length cs \<Longrightarrow> unat (pc_ordinal (cs ! j)) = i + j"
proof (induction F d cs i keys dm ae em arbitrary: j rule: validate_chunks.induct)
  case (2 F d c cs i keys dm ae em)
  show ?case
  proof (cases j)
    case 0
    with "2.prems" show ?thesis by (auto simp: fail_def split: if_splits)
  next
    case (Suc j')
    from "2.prems"(1) obtain keys' dm' ae' em' where
      "validate_chunks F d cs (i + 1) keys' dm' ae' em' = Inr r" by (auto simp: fail_def Let_def split: if_splits)
    with "2.IH" "2.prems" Suc show ?thesis
      by (auto simp: fail_def Let_def split: if_splits)
  qed
qed simp

lemma live_row_lookup:
  assumes "generation_wf g"
  shows "map_of (gen_chunks g) k = map_option row_stored (live_row g k)"
proof -
  have "map_of (map (\<lambda>x. (row_key x, row_stored x)) xs) k = map_option row_stored (find (\<lambda>x. row_key x = k) xs)" for xs
    by (induction xs) auto
  with assms show ?thesis by (simp add: generation_wf_def catalogue_def live_row_def)
qed

lemma live_row_source:
  assumes "generation_wf (eb_active be)" and "documents_wf F be" and "live_row (eb_active be) k = Some (dk, a, c)"
  shows "map_of (gen_documents (eb_active be)) dk = Some a \<and> pc_key c = k \<and>
     unat (pc_ordinal c) < length (pd_chunks (ad_prepared a)) \<and> pd_chunks (ad_prepared a) ! unat (pc_ordinal c) = c"
proof -
  have mem: "(dk, a, c) \<in> set (rows (gen_documents (eb_active be)))" and k: "pc_key c = k"
    using find_SomeD [OF assms(3) [unfolded live_row_def]] by (simp_all add: row_key_def)
  from rows_of_doc [OF _ mem] assms(1) have doc: "map_of (gen_documents (eb_active be)) dk = Some a"
    and "c \<in> set (pd_chunks (ad_prepared a))" by (auto simp: generation_wf_def doc_rows_def)
  then obtain j where j: "j < length (pd_chunks (ad_prepared a))" "pd_chunks (ad_prepared a) ! j = c"
    by (auto simp: in_set_conv_nth)
  have "validate F (ad_prepared a) (ad_revision a) = Inr ()" using assms(2) doc by (auto simp: documents_wf_def)
  then obtain r where "validate_chunks F (ad_prepared a) (pd_chunks (ad_prepared a)) 0 [] 0 False False = Inr r"
    by (auto simp: validate_def fail_def and_then_Inr split: if_splits)
  from validate_chunks_ordinal [OF this j(1)] j doc k show ?thesis by simp
qed

lemma fetch_loop_live:
  assumes "generation_wf (eb_active be)" and "documents_wf F be"
  shows "fetch_loop (eb_active be) opts keys out =
    Inr (out @ List.map_filter (\<lambda>k. map_option (fetched opts) (live_row (eb_active be) k)) keys)"
proof (induction keys arbitrary: out)
  case (Cons k keys)
  show ?case
  proof (cases "live_row (eb_active be) k")
    case None
    with Cons show ?thesis by (simp add: live_row_lookup [OF assms(1)] List.map_filter_def)
  next
    case (Some x)
    obtain dk a c where x: "x = (dk, a, c)" by (cases x)
    note src = live_row_source [OF assms Some [unfolded x]]
    show ?thesis using Cons Some src
      by (auto simp: live_row_lookup [OF assms(1)] List.map_filter_def x fetched_def row_stored_def row_emb_def
          stored_chunk_of_def Let_def)
  qed
qed (simp add: List.map_filter_def)

text \<open>
  C15: a fetch never fails in a reachable state and never mixes revisions: it returns, in the order
  of the requested keys and without the keys that are not live, the chunk of the active revision
  of its document, with its text and context and with the embedding of that very revision when
  they are asked for. In particular the consistency errors of \<^verbatim>\<open>fetch()\<close> are unreachable.\<close>
theorem embedded_fetch_live:
  "backend_reachable F A be ss \<Longrightarrow>
     fetch keys opts be = Inr (List.map_filter (\<lambda>k. map_option (fetched opts) (live_row (eb_active be) k)) keys)"
  using fetch_loop_live [of be F opts keys "[]"] reachable_wf [of F A be ss]
  by (simp add: fetch_def backend_wf_def)

theorem embedded_fetch_live_witness:
  "\<exists>x. fetch [''missing'', sample_key] \<lparr>fo_include_text = True, fo_include_embedding = True\<rparr> sample_indexed = Inr [x] \<and>
     sc_text x = ''x'' \<and> sc_embedding x = [0x3F800000]"
proof -
  obtain ss where "backend_reachable sample_fp sample_ann sample_indexed ss" using sample_reachable by blast
  from embedded_fetch_live [OF this, of "[''missing'', sample_key]"] show ?thesis
    by (simp add: List.map_filter_def live_row_def sample_compacted sample_gen_def rows_def doc_rows_def sample_fields
        row_key_def sample_chunk_key fetched_def row_emb_def sample_embedding) (simp add: sample_chunk_def sample_key_def stable_chunk_key_def)
qed

subsection \<open>Dense search over a generation\<close>

definition vec_row :: "row \<Rightarrow> vector_record" where
  "vec_row x = (row_key x, row_emb x)"

definition delta_exact :: "fp \<Rightarrow> generation \<Rightarrow> bool" where
  "delta_exact F g \<longleftrightarrow> (\<exists>drows. exact_build F drows = Inr (ti_delta (gen_dense g)) \<and>
     set drows = vec_row ` {x \<in> set (rows (gen_documents g)). row_emb x \<noteq> [] \<and> contains_delta (gen_dense g) (row_key x)})"

text \<open>The base is an exact index, and the rows that are not hidden are those of the live chunks.\<close>

definition base_current :: "fp \<Rightarrow> generation \<Rightarrow> bool" where
  "base_current F g \<longleftrightarrow> (\<exists>b brows. base_index (ti_base (gen_dense g)) = Exact b \<and> exact_build F brows = Inr b \<and>
     (brows = [] \<or> ex_dimension b = gen_dimension g) \<and>
     (\<forall>x \<in> set (rows (gen_documents g)). contains_base (gen_dense g) (row_key x) \<longrightarrow> vec_row x \<in> set brows))"

lemma built_delta_exact:
  assumes "build_generation F ds t dd ts n = Inr g"
  shows "delta_exact F g"
proof -
  note b = build_generation_Inr [OF assms]
  note w = with_delta_Inr [OF b(6)]
  have inj: "inj_on row_key (set (rows ds))" using b(4) by (simp add: catalogue_def distinct_map)
  have keys: "contains_delta (gen_dense g) (row_key x) \<longleftrightarrow>
      row_emb x \<noteq> [] \<and> fst x \<in> set dd \<and> \<not> contains_base t (row_key x)" if "x \<in> set (rows ds)" for x
    unfolding contains_delta_def w(3) delta_rows_def set_map set_filter image_image
    using that inj by (auto dest: inj_onD)
  have "set (delta_rows t dd (rows ds)) =
      vec_row ` {x \<in> set (rows ds). row_emb x \<noteq> [] \<and> contains_delta (gen_dense g) (row_key x)}"
    by (auto simp: delta_rows_def vec_row_def keys)
  then show ?thesis using w(4) unfolding delta_exact_def b(1) by blast
qed

lemma activate_delta_exact:
  "delta_exact F (eb_active be) \<Longrightarrow> delta_exact F (eb_active (snd (activate F d r be)))"
  using activate_invalid [of F d r _ be] activate_stale [of F d r be] activate_fresh [of F d r be]
  by (cases "validate F d r"; cases "stale be (pd_key d) r") (auto dest: built_delta_exact split: sum.splits)

lemma erase_delta_exact:
  "delta_exact F (eb_active be) \<Longrightarrow> delta_exact F (eb_active (snd (erase F k r be)))"
  using erase_unchanged [of k r be F] erase_fresh [of k r be F]
  by (cases "k = [] \<or> r = 0 \<or> stale be k r") (auto dest: built_delta_exact split: sum.splits)

lemma reachable_delta_exact: "backend_reachable F A be ss \<Longrightarrow> delta_exact F (eb_active be)"
proof (induction rule: backend_reachable.induct)
  case (start p be)
  then show ?case by (auto simp: backend_new_def and_then_Inr intro: built_delta_exact)
next
  case (publishes be ss s ov g)
  then have "delta_exact F g"
    by (auto simp: compact_build_def and_then_Inr fail_def split: if_splits intro: built_delta_exact)
  with publishes show ?case by (simp add: compact_publish_def)
qed (simp_all add: activate_delta_exact erase_delta_exact)

definition passes :: "metadata_filter \<Rightarrow> row \<Rightarrow> bool" where
  "passes f x \<longleftrightarrow> \<not> mf_supplied f \<or> filter_matches f (pd_metadata (ad_prepared (fst (snd x))))"

lemma set_passing:
  assumes "generation_wf g"
  shows "set (map fst (filter (\<lambda>(key, chunk). \<not> (mf_supplied f \<and> \<not> filter_matches f (sc_metadata chunk))) (gen_chunks g))) =
    row_key ` {x \<in> set (rows (gen_documents g)). passes f x}"
proof -
  let ?rows = "rows (gen_documents g)"
  have c: "omap_wf (gen_chunks g)" "map_of (gen_chunks g) = map_of (map (\<lambda>x. (row_key x, row_stored x)) ?rows)"
    "distinct (map row_key ?rows)" using assms by (simp_all add: generation_wf_def catalogue_def)
  have "distinct (map fst (map (\<lambda>x. (row_key x, row_stored x)) ?rows))" using c(3) by (simp add: comp_def)
  then have eq: "set (gen_chunks g) = (\<lambda>x. (row_key x, row_stored x)) ` set ?rows"
    using map_of_inject_set [OF omap_wf_distinct [OF c(1)]] c(2) by (metis (no_types) set_map)
  have meta: "sc_metadata (row_stored x) = pd_metadata (ad_prepared (fst (snd x)))" for x
    by (simp add: row_stored_def stored_chunk_of_def)
  have "fst ` {p \<in> (\<lambda>x. (K x, S x)) ` R. P p} = K ` {x \<in> R. P (K x, S x)}"
    for K :: "row \<Rightarrow> chunk_key" and S :: "row \<Rightarrow> stored_chunk" and R P by force
  note this [of row_key row_stored "set ?rows"]
  then show ?thesis unfolding set_map set_filter eq by (simp add: passes_def meta)
qed

lemma vec_row_inj: "generation_wf g \<Longrightarrow> inj_on vec_row (set (rows (gen_documents g)))"
  by (auto simp: generation_wf_def catalogue_def distinct_map vec_row_def inj_on_def)

lemma rank_perm:
  assumes "mset xs = mset ys" and "distinct (map fst xs)"
  shows "rank F q xs = rank F q ys"
proof -
  have "inj_on cand_chunk (set (map (scored F q) xs))"
    using assms(2) by (auto simp: distinct_map inj_on_def scored_def)
  then show ?thesis unfolding rank_def
    by (intro sort_key_inj_mset inj_cand_key) (simp_all add: assms(1))
qed

lemma dense_rows_live:
  assumes "inj_on row_key (set (rows ds))"
    and base: "\<And>x. x \<in> set (rows ds) \<Longrightarrow> contains_base t (row_key x) \<Longrightarrow> vec_row x \<in> set brows"
    and norm: "\<And>key v. (key, v) \<in> set brows \<Longrightarrow> key \<noteq> [] \<and> normalized F v"
    and dist: "distinct (map fst brows)"
    and delta: "set drows = vec_row ` {x \<in> set (rows ds). row_emb x \<noteq> [] \<and> contains_delta t (row_key x)}"
    and pass: "set passing = row_key ` {x \<in> set (rows ds). passes f x}"
    and tiers: "\<forall>x \<in> set (rows ds). row_emb x \<noteq> [] \<longrightarrow>
        contains_base t (row_key x) \<noteq> contains_delta t (row_key x)"
  shows "set (filter (\<lambda>r. fst r \<in> set (filter (contains_base t) passing)) brows @
              filter (\<lambda>r. fst r \<in> set (filter (contains_delta t) passing)) drows) =
    set (map vec_row (filter (\<lambda>x. row_emb x \<noteq> [] \<and> passes f x) (rows ds)))"
proof (intro equalityI subsetI)
  have fst_vec: "fst (vec_row x) = row_key x" for x by (simp add: vec_row_def)
  fix r
  assume r: "r \<in> set (filter (\<lambda>r. fst r \<in> set (filter (contains_base t) passing)) brows @
              filter (\<lambda>r. fst r \<in> set (filter (contains_delta t) passing)) drows)"
  then obtain x where x: "x \<in> set (rows ds)" "passes f x" "fst r = row_key x" by (auto simp: pass)
  have "r = vec_row x \<and> row_emb x \<noteq> []"
  proof (cases "r \<in> set drows")
    case True
    then show ?thesis using delta x assms(1) by (auto simp: fst_vec dest: inj_onD)
  next
    case False
    with r x have rb: "r \<in> set brows" "vec_row x \<in> set brows" by (auto intro: base)
    with dist x(3) have "r = vec_row x" by (metis distinct_map fst_vec inj_onD)
    with rb norm show ?thesis by (force simp: vec_row_def normalized_def)
  qed
  with x show "r \<in> set (map vec_row (filter (\<lambda>x. row_emb x \<noteq> [] \<and> passes f x) (rows ds)))" by auto
next
  fix r
  assume "r \<in> set (map vec_row (filter (\<lambda>x. row_emb x \<noteq> [] \<and> passes f x) (rows ds)))"
  then obtain x where x: "x \<in> set (rows ds)" "passes f x" "row_emb x \<noteq> []" "r = vec_row x" by auto
  have k: "row_key x \<in> set passing" "fst r = row_key x" using x by (auto simp: pass vec_row_def)
  show "r \<in> set (filter (\<lambda>r. fst r \<in> set (filter (contains_base t) passing)) brows @
              filter (\<lambda>r. fst r \<in> set (filter (contains_delta t) passing)) drows)"
    using x k base delta tiers by (cases "contains_base t (row_key x)") auto
qed

lemma delta_dimension:
  assumes "catalogue (rows (gen_documents g)) g" and "exact_build F drows = Inr d"
    and "set drows = vec_row ` {x \<in> set (rows (gen_documents g)). row_emb x \<noteq> [] \<and> P x}"
  shows "drows = [] \<or> ex_dimension d = gen_dimension g"
proof (cases drows)
  case (Cons r rs)
  then have "r \<in> vec_row ` {x \<in> set (rows (gen_documents g)). row_emb x \<noteq> [] \<and> P x}"
    by (simp flip: assms(3))
  then obtain x where x: "x \<in> set (rows (gen_documents g))" "row_emb x \<noteq> []" "vec_row x \<in> set drows"
    using Cons by auto
  then have "length (row_emb x) = gen_dimension g" using assms(1) by (auto simp: catalogue_def)
  with exact_build_Inr(4) [OF assms(2), of "row_key x" "row_emb x"] x(3) show ?thesis by (simp add: vec_row_def)
qed simp

text \<open>
  C16: dense search over a generation is exact over its live chunks: in a reachable state whose base
  is an exact index with current vectors, a unit query of the right dimension gets the \<open>k\<close> best of
  the embedded live chunks that pass the filter, whichever tier they are in, with tombstoned rows
  never among them.\<close>
theorem embedded_dense_exact:
  assumes "backend_reachable F A be ss" and "base_current F (eb_active be)"
    and "gen_dimension (eb_active be) \<noteq> 0" and "length (dreq_query q) = gen_dimension (eb_active be)"
    and "normalized F (dreq_query q)"
  shows "dense_candidates F A q be =
    Inr (take (dreq_k q) (rank F (dreq_query q)
      (map vec_row (filter (\<lambda>x. row_emb x \<noteq> [] \<and> passes (dreq_filter q) x) (rows (gen_documents (eb_active be)))))))"
proof -
  let ?g = "eb_active be"
  let ?R = "rows (gen_documents ?g)" and ?t = "gen_dense ?g"
  define passing where "passing = map fst (filter (\<lambda>(key, chunk). \<not> (mf_supplied (dreq_filter q)
      \<and> \<not> filter_matches (dreq_filter q) (sc_metadata chunk))) (gen_chunks ?g))"
  have wf: "generation_wf ?g" using assms(1) reachable_wf by (auto simp: backend_wf_def)
  then have cat: "catalogue ?R ?g" "tiers_wf ?g" by (simp_all add: generation_wf_def)
  then have inj: "inj_on row_key (set ?R)" and dR: "distinct (map row_key ?R)" by (simp_all add: catalogue_def distinct_map)
  obtain b brows where b: "base_index (ti_base ?t) = Exact b" "exact_build F brows = Inr b"
    "brows = [] \<or> ex_dimension b = gen_dimension ?g"
    "\<And>x. x \<in> set ?R \<Longrightarrow> contains_base ?t (row_key x) \<Longrightarrow> vec_row x \<in> set brows"
    using assms(2) by (auto simp: base_current_def)
  obtain drows where d: "exact_build F drows = Inr (ti_delta ?t)"
    "set drows = vec_row ` {x \<in> set ?R. row_emb x \<noteq> [] \<and> contains_delta ?t (row_key x)}"
    using reachable_delta_exact [OF assms(1)] by (auto simp: delta_exact_def)
  have pass: "set passing = row_key ` {x \<in> set ?R. passes (dreq_filter q) x}"
    unfolding passing_def by (rule set_passing [OF wf])
  have ddim: "length (dreq_query q) = ex_dimension (ti_delta ?t) \<or> drows = []"
    using delta_dimension [OF cat(1) d] assms(4) by auto
  let ?ba = "filter (contains_base ?t) passing" and ?da = "filter (contains_delta ?t) passing"
  let ?live = "filter (\<lambda>x. row_emb x \<noteq> [] \<and> passes (dreq_filter q) x) ?R"
  let ?rows = "filter (\<lambda>r. fst r \<in> set ?ba) brows @ filter (\<lambda>r. fst r \<in> set ?da) drows"
  have one_tier: "\<not> (contains_base ?t k \<and> contains_delta ?t k)" for k
    using cat(2) unfolding tiers_wf_def by metis
  have search: "tiered_search F A ?t (dreq_query q) ?ba ?da (dreq_k q) = Inr (take (dreq_k q) (rank F (dreq_query q) ?rows))"
    by (rule tiered_search_rank [OF b(1,2) d(1) _ ddim assms(5)]) (use b(3) assms(4) one_tier in auto)
  have dist: "distinct (map fst brows)" "distinct (map fst drows)" using exact_build_Inr(3) b(2) d(1) by auto
  have mem: "set ?rows = set (map vec_row ?live)"
    by (rule dense_rows_live [OF inj b(4) exact_build_Inr(5) [OF b(2)] dist(1) d(2) pass])
      (use cat(2) in \<open>simp_all add: tiers_wf_def\<close>)
  have dk: "distinct (map fst ?rows)"
    using dist one_tier by (auto simp: distinct_map_filter)
  have dl: "distinct (map fst (map vec_row ?live))"
    using dR by (simp add: vec_row_def comp_def distinct_map_filter)
  have "distinct ?rows" "distinct (map vec_row ?live)"
    using dk dl distinct_map [of fst ?rows] distinct_map [of fst "map vec_row ?live"] by blast+
  then have "mset ?rows = mset (map vec_row ?live)"
    using set_eq_iff_mset_eq_distinct [of ?rows "map vec_row ?live"] mem by blast
  then have same: "rank F (dreq_query q) ?rows = rank F (dreq_query q) (map vec_row ?live)"
    using dk by (rule rank_perm)
  have ne: "gen_chunks ?g \<noteq> []"
    using length_catalogue [OF cat(1)] cat(1) assms(3) by (auto simp: catalogue_def)
  show ?thesis
    unfolding dense_candidates_def Let_def passing_def [symmetric] using assms(3) ne search same by simp
qed

lemma sample_base_current: "base_current sample_fp (eb_active sample_indexed)"
proof -
  have "contains_base (tier_base 0x3F800000) k \<longleftrightarrow> k = sample_key" for k
    by (simp add: contains_base_def tier_base_def)
  then show ?thesis
    unfolding base_current_def
    by (intro exI [of _ "\<lparr>ex_keys = [sample_key], ex_vectors = [0x3F800000], ex_dimension = 1\<rparr>"]
        exI [of _ "[(sample_key, [0x3F800000])]"])
      (simp add: sample_compacted sample_gen_def sample_exact sample_finite rows_def doc_rows_def sample_fields
        row_key_def row_emb_def vec_row_def sample_embedding sample_chunk_key tier_base_def)
qed

definition sample_request :: dense_request where
  "sample_request = \<lparr>dreq_query = [0x3F800000], dreq_k = 5, dreq_filter = filter_none\<rparr>"

lemma sample_unit: "f32_finite e \<Longrightarrow> normalized sample_fp [e]"
  by (simp add: normalized_def sample_norm kUnitTolerance_def)

theorem embedded_dense_exact_witness:
  "\<exists>c. dense_candidates sample_fp sample_ann sample_request sample_indexed = Inr [c] \<and> cand_chunk c = sample_key"
proof -
  obtain ss where "backend_reachable sample_fp sample_ann sample_indexed ss" using sample_reachable by blast
  from embedded_dense_exact [OF this sample_base_current, of sample_request] show ?thesis
    by (simp add: sample_compacted sample_gen_def sample_request_def sample_unit sample_finite rows_def doc_rows_def
        sample_fields row_emb_def sample_embedding passes_def filter_none_def vec_row_def row_key_def sample_chunk_key
        rank_def scored_def)
qed

text \<open>
  A compaction whose policy selects the exact index makes the base current, whatever it was
  before, so that dense search is exact again.\<close>
theorem embedded_compaction_restores:
  assumes "backend_reachable F A be ss" and "compact F A ov be = (Inr (), be')"
    and "resolve_dense_algorithm (ann_faiss A) (mp_dense (eb_policy be))
           (length (live_vectors (gen_documents (eb_active be)))) = Inr Alg_exact"
  shows "base_current F (eb_active be') \<and> gen_documents (eb_active be') = gen_documents (eb_active be) \<and>
     ti_tombstones (gen_dense (eb_active be')) = []"
proof -
  let ?g = "eb_active be" and ?vs = "live_vectors (gen_documents (eb_active be))"
  obtain g' where cb: "compact_build F A ov (eb_policy be) ?g = Inr g'" and be': "eb_active be' = g'"
    using assms(2) by (auto simp: compact_def compact_publish_def fail_def split: sum.splits if_splits)
  obtain t where t: "tiered_compact F A ?vs (gen_dimension ?g) (mp_dense (eb_policy be)) = Inr t"
    and b: "build_generation F (gen_documents ?g) t [] [] (gen_number ?g + 1) = Inr g'"
    using cb by (auto simp: compact_build_def and_then_Inr fail_def split: if_splits)
  note bg = build_generation_Inr [OF b]
  note w = with_delta_Inr [OF bg(6)]
  obtain e where e: "exact_build F ?vs = Inr e" "base_index (ti_base t) = Exact e"
    using t assms(3) by (auto simp: tiered_compact_def build_dense_index_def and_then_Inr fail_def split: if_splits)
  have vs: "set ?vs = vec_row ` {x \<in> set (rows (gen_documents ?g)). row_emb x \<noteq> []}"
    by (simp add: live_vectors_rows vec_row_def [abs_def])
  have dm: "?vs = [] \<or> ex_dimension e = gen_dimension g'"
  proof (cases ?vs)
    case (Cons r rs)
    then have "r \<in> set ?vs" by simp
    then obtain x where x: "x \<in> set (rows (gen_documents ?g))" "row_emb x \<noteq> []" "vec_row x \<in> set ?vs"
      unfolding vs by auto
    with exact_build_Inr(4) [OF e(1), of "row_key x" "row_emb x"] bg(4) show ?thesis
      by (auto simp: vec_row_def catalogue_def)
  qed simp
  have "vec_row x \<in> set ?vs" if "x \<in> set (rows (gen_documents ?g))" "contains_base (gen_dense g') (row_key x)" for x
  proof -
    have "row_key x \<in> fst ` set ?vs" using that(2) tiered_compact_Inr(1) [OF t] by (simp add: contains_base_def w(1))
    then obtain y where y: "y \<in> set (rows (gen_documents ?g))" "row_emb y \<noteq> []" "row_key y = row_key x"
      unfolding vs by (auto simp: vec_row_def)
    have "inj_on row_key (set (rows (gen_documents ?g)))" using bg(4) by (simp add: catalogue_def distinct_map)
    with y that(1) have "y = x" by (auto dest: inj_onD)
    with y show ?thesis unfolding vs by simp
  qed
  then have "base_current F g'"
    unfolding base_current_def bg(1) w(1) using e dm by (intro exI [of _ e] exI [of _ ?vs]) simp
  then show ?thesis using bg(1) w(2) by (simp add: be')
qed

theorem embedded_compaction_restores_witness:
  "base_current sample_fp (eb_active (snd (compact sample_fp sample_ann True
     (snd (activate sample_fp (sample_document [] 0x3F800000) 1 sample_backend)))))"
proof -
  let ?be = "snd (activate sample_fp (sample_document [] 0x3F800000) 1 sample_backend)"
  have "backend_new sample_fp sample_policy = Inr sample_backend" by (simp add: sample_new sample_backend_value)
  from activates [OF start [OF this]] have r: "backend_reachable sample_fp sample_ann ?be []" .
  have c: "compact sample_fp sample_ann True ?be = (Inr (), snd (compact sample_fp sample_ann True ?be))"
    by (simp add: sample_activated compact_def compact_build_def sample_gen_def live_vectors_def sample_fields
        sample_build contains_base_def tiered_compact_def build_dense_index_def resolve_dense_algorithm_def
        sample_ann_def sample_policy_fields sample_exact sample_finite sample_chunk_key exact_build_Nil
        with_delta_def tier_base_def compact_publish_def sample_embedding)
  from embedded_compaction_restores [OF r c] show ?thesis
    by (simp add: sample_activated sample_gen_def live_vectors_def sample_fields resolve_dense_algorithm_def
        sample_ann_def sample_policy_fields sample_embedding)
qed

text \<open>
  C17: replacing a document without changing the text and lines of a chunk does not replace the
  vector of that chunk. The key of a chunk covers its document, lines and text but not its context
  and not the embedding model; when the dense base holds the key, the activation neither
  tombstones the old base row nor puts the new row into the delta, so that dense search scores the
  chunk by the vector of the previous revision until the next compaction, while \<^verbatim>\<open>fetch\<close> returns the
  new one.\<close>
theorem reactivation_keeps_stale_vector:
  assumes "activate F d r be = (Inr (), be')" and "\<not> stale be (pd_key d) r"
    and "c \<in> set (pd_chunks d)" and "contains_base (gen_dense (eb_active be)) (pc_key c)"
  shows "ti_base (gen_dense (eb_active be')) = ti_base (gen_dense (eb_active be)) \<and>
     contains_base (gen_dense (eb_active be')) (pc_key c) \<and> \<not> contains_delta (gen_dense (eb_active be')) (pc_key c)"
proof -
  let ?g = "eb_active be"
  have v: "validate F d r = Inr ()" using assms(1) by (cases "validate F d r") (auto simp: activate_invalid)
  define ts where "ts = (case map_of (gen_documents ?g) (pd_key d) of None \<Rightarrow> ti_tombstones (gen_dense ?g)
           | Some old \<Rightarrow> tombstoned (gen_dense ?g) (map pc_key (pd_chunks (ad_prepared old))) (map pc_key (pd_chunks d)))"
  obtain g' where b: "build_generation F (omap_put (pd_key d) \<lparr>ad_revision = r, ad_prepared = d\<rparr> (gen_documents ?g))
      (gen_dense ?g) (List.insert (pd_key d) (gen_delta_documents ?g)) ts (gen_number ?g + 1) = Inr g'"
    and be': "eb_active be' = g'"
    using assms(1) by (auto simp: activate_fresh [OF v assms(2)] ts_def split: sum.splits)
  note w = with_delta_Inr [OF build_generation_Inr(6) [OF b]]
  have "pc_key c \<notin> set ts"
    using assms(3,4) by (auto simp: ts_def set_tombstoned contains_base_def split: option.split)
  then show ?thesis
    using assms(4) unfolding be' contains_delta_def w(3)
    by (auto simp: contains_base_def w(1,2) delta_rows_def)
qed

theorem reactivation_keeps_stale_vector_witness:
  "let be' = snd (activate sample_fp (sample_document ''c'' 0x3F000000) 2 sample_indexed)
   in fst (activate sample_fp (sample_document ''c'' 0x3F000000) 2 sample_indexed) = Inr () \<and>
      ti_base (gen_dense (eb_active be')) = ti_base (tier_base 0x3F800000) \<and>
      \<not> contains_delta (gen_dense (eb_active be')) sample_key"
proof -
  let ?d = "sample_document ''c'' 0x3F000000"
  let ?be' = "snd (activate sample_fp ?d 2 sample_indexed)"
  have fresh: "\<not> stale sample_indexed (pd_key ?d) 2" by (simp add: stale_def sample_compacted sample_fields word_le_nat_alt)
  have b: "contains_base (gen_dense (eb_active sample_indexed)) sample_key"
    by (simp add: sample_compacted sample_gen_def contains_base_def tier_base_def)
  have "\<exists>g. build_generation sample_fp [(''d'', \<lparr>ad_revision = 2, ad_prepared = ?d\<rparr>)] (tier_base 0x3F800000) [''d''] [] 3 = Inr g"
    using b by (simp add: sample_build sample_compacted sample_gen_def sample_chunk_key with_delta_def exact_build_Nil tier_base_def)
  then have ok: "activate sample_fp ?d 2 sample_indexed = (Inr (), ?be')"
    unfolding activate_fresh [OF sample_validate(2) [OF sample_finite(2)] fresh]
    by (auto simp: sample_compacted sample_gen_def sample_fields tombstoned_def sample_chunk_key tier_base_def)
  have base: "ti_base (gen_dense (eb_active sample_indexed)) = ti_base (tier_base 0x3F800000)"
    by (simp add: sample_compacted sample_gen_def)
  have c: "sample_chunk ''c'' 0x3F000000 \<in> set (pd_chunks ?d)" by (simp add: sample_fields)
  have "fst (activate sample_fp ?d 2 sample_indexed) = Inr ()" using ok by (metis fst_conv)
  with reactivation_keeps_stale_vector [OF ok fresh c] b base show ?thesis
    unfolding Let_def sample_chunk_key by argo
qed

end
