(* ===== verification/Coordinator_Lifecycle.thy ===== *)
theory Coordinator_Lifecycle
  imports Ingestion_Coordinator Embedded_Contract
begin

text \<open>
  Properties of the coordinator of \<open>Ingestion_Coordinator\<close> over every interleaving of submissions,
  deletions, workers and shutdown. First the effect of each locked region in one place
  (\<open>commit_effect\<close>, \<open>transition_effect\<close>, \<open>register_effect\<close>); then the invariant of the running
  system, by rule induction over \<open>coord_step\<close>; then what a single execution does to its job. The
  interface that the coordinator needs from a backend is the locale \<open>revision_backend\<close>; the embedded
  backend is its interpretation.
\<close>

subsection \<open>Effects of the locked regions\<close>

definition same_control :: "('b, 's) coordinator \<Rightarrow> ('b, 's) coordinator \<Rightarrow> bool" where
  "same_control s s' \<longleftrightarrow>
     co_backend s' = co_backend s \<and> co_sequence s' = co_sequence s \<and> co_stopping s' = co_stopping s \<and>
     co_queue s' = co_queue s \<and> co_latest_revision s' = co_latest_revision s \<and>
     co_latest_job s' = co_latest_job s \<and> co_ready_calls s' = co_ready_calls s"

lemma same_control_refl [simp]: "same_control s s"
  by (simp add: same_control_def)

lemma same_control_trans: "same_control s s' \<Longrightarrow> same_control s' s'' \<Longrightarrow> same_control s s''"
  by (simp add: same_control_def)

lemma same_control_latest: "same_control s s' \<Longrightarrow> latest_revision s' k = latest_revision s k"
  by (simp add: same_control_def latest_revision_def)

lemma now_ms_effect: "now_ms D s = (t, s') \<Longrightarrow> same_control s s' \<and> co_jobs s' = co_jobs s \<and> co_store s' = co_store s"
  by (auto simp: now_ms_def same_control_def)

lemma persist_effect: "persist D job s = (r, s') \<Longrightarrow> same_control s s' \<and> co_jobs s' = co_jobs s"
  by (auto simp: persist_def same_control_def split: prod.splits)

lemma commit_effect:
  assumes "commit D job s = (r, s')"
  shows "same_control s s' \<and>
    (case r of Inl _ \<Rightarrow> co_jobs s' = co_jobs s | Inr _ \<Rightarrow> co_jobs s' = omap_put (job_id job) job (co_jobs s))"
  using assms persist_effect [of D job s]
  by (auto simp: commit_def put_memory_def same_control_def split: prod.splits sum.splits)

lemma next_snapshot_fields [simp]:
  "job_id (next_snapshot j st t e p a) = job_id j"
  "job_status (next_snapshot j st t e p a) = st"
  "job_operation (next_snapshot j st t e p a) = job_operation j"
  "job_revision (next_snapshot j st t e p a) = job_revision j"
  "job_content_hash (next_snapshot j st t e p a) = job_content_hash j"
  "job_created_at_ms (next_snapshot j st t e p a) = job_created_at_ms j"
  "in_document (job_input (next_snapshot j st t e p a)) = in_document (job_input j)"
  "in_title (job_input (next_snapshot j st t e p a)) = in_title (job_input j)"
  by (simp_all add: next_snapshot_def Let_def)

lemma superseded_fields [simp]:
  "job_id (superseded_snapshot j t) = job_id j"
  "job_status (superseded_snapshot j t) = Job_superseded"
  "job_operation (superseded_snapshot j t) = job_operation j"
  "job_revision (superseded_snapshot j t) = job_revision j"
  "job_content_hash (superseded_snapshot j t) = job_content_hash j"
  "job_created_at_ms (superseded_snapshot j t) = job_created_at_ms j"
  "in_document (job_input (superseded_snapshot j t)) = in_document (job_input j)"
  "in_title (job_input (superseded_snapshot j t)) = in_title (job_input j)"
  by (simp_all add: superseded_snapshot_def)

definition current :: "('b, 's) coordinator \<Rightarrow> ingestion_job \<Rightarrow> bool" where
  "current s j \<longleftrightarrow> latest_revision s (in_document (job_input j)) = job_revision j"

text \<open>
  One transition: nothing happens to a missing or finished job, an overtaken one becomes superseded,
  a current one takes the requested status, and an error means that memory is unchanged.
\<close>

lemma transition_effect:
  assumes "transition D i st e p a s = (r, s')"
  shows "same_control s s' \<and>
    (case job_at s i of
       None \<Rightarrow> s' = s \<and> (\<exists>x. r = Inl x)
     | Some j \<Rightarrow>
         (if terminal (job_status j) then s' = s \<and> r = Inr False
          else (\<exists>x. r = Inl x) \<and> co_jobs s' = co_jobs s
            \<or> \<not> current s j \<and> r = Inr False \<and>
              (\<exists>t. co_jobs s' = omap_put (job_id j) ((superseded_snapshot j t)\<lparr>job_error := None\<rparr>) (co_jobs s))
            \<or> current s j \<and> r = Inr True \<and>
              (\<exists>t. co_jobs s' = omap_put (job_id j) (next_snapshot j st t e p a) (co_jobs s))))"
proof (cases "job_at s i")
  case None
  with assms show ?thesis by (auto simp: transition_def fail_def)
next
  case (Some j)
  show ?thesis
  proof (cases "terminal (job_status j)")
    case True
    with assms Some show ?thesis by (simp add: transition_def)
  next
    case False
    obtain t s1 where n: "now_ms D s = (t, s1)" by force
    note ne = now_ms_effect [OF n]
    have cur: "(latest_revision s1 (in_document (job_input j)) \<noteq> job_revision j) = (\<not> current s j)"
      using same_control_latest [of s s1] ne by (simp add: current_def)
    define snap where "snap = (if current s j then next_snapshot j st t e p a
        else (superseded_snapshot j t)\<lparr>job_error := None\<rparr>)"
    obtain r1 s2 where c: "commit D snap s1 = (r1, s2)" by force
    have id: "job_id snap = job_id j" by (simp add: snap_def)
    have res: "s' = s2 \<and> r = (case r1 of Inl x \<Rightarrow> Inl x | Inr _ \<Rightarrow> Inr (current s j))"
      using assms Some False n c cur
      by (cases "current s j") (auto simp: transition_def snap_def split: prod.splits sum.splits)
    from commit_effect [OF c] ne res Some False show ?thesis
      by (auto simp: same_control_def id snap_def split: sum.splits if_splits)
  qed
qed

lemma fail_volatile_effect:
  "same_control s (fail_volatile D i e s) \<and> co_store (fail_volatile D i e s) = co_store s \<and>
    (case job_at s i of
       None \<Rightarrow> fail_volatile D i e s = s
     | Some j \<Rightarrow>
         (if terminal (job_status j) then fail_volatile D i e s = s
          else \<exists>j'. co_jobs (fail_volatile D i e s) = omap_put (job_id j) j' (co_jobs s) \<and>
            job_status j' = (if current s j then Job_failed else Job_superseded) \<and>
            job_error j' = Some (bounded_error e) \<and>
            job_id j' = job_id j \<and> job_operation j' = job_operation j \<and> job_revision j' = job_revision j \<and>
            job_content_hash j' = job_content_hash j \<and> job_created_at_ms j' = job_created_at_ms j \<and>
            in_document (job_input j') = in_document (job_input j) \<and> in_title (job_input j') = in_title (job_input j)))"
  by (auto simp: fail_volatile_def put_memory_def now_ms_def same_control_def current_def latest_revision_def
      split: option.split)

subsection \<open>Job histories\<close>

definition identity where
  "identity j = (job_id j, job_operation j, in_document (job_input j), in_title (job_input j), job_revision j,
     job_content_hash j, job_created_at_ms j)"

fun status_rank :: "job_status \<Rightarrow> nat" where
  "status_rank Job_queued = 0" | "status_rank Job_chunking = 1" | "status_rank Job_embedding = 2"
| "status_rank Job_publishing = 3" | "status_rank st = 4"

lemma rank_terminal: "terminal st \<longleftrightarrow> status_rank st = 4"
  by (cases st) (simp_all add: terminal.simps)

lemma rank_le [simp]: "status_rank st \<le> 4"
  by (cases st) simp_all

definition advances :: "ingestion_job \<Rightarrow> ingestion_job \<Rightarrow> bool" where
  "advances j j' \<longleftrightarrow>
     (if terminal (job_status j) then j' = j
      else identity j' = identity j \<and> status_rank (job_status j) \<le> status_rank (job_status j'))"

lemma advances_refl [simp]: "advances j j"
  by (simp add: advances_def)

lemma advances_trans: "advances j j' \<Longrightarrow> advances j' j'' \<Longrightarrow> advances j j''"
  by (auto simp: advances_def split: if_splits)

lemma advances_id: "advances j j' \<Longrightarrow> job_id j' = job_id j \<and> in_document (job_input j') = in_document (job_input j)
    \<and> job_revision j' = job_revision j \<and> job_operation j' = job_operation j"
  by (auto simp: advances_def identity_def split: if_splits)

lemma advances_terminal: "advances j j' \<Longrightarrow> terminal (job_status j) \<Longrightarrow> j' = j"
  by (simp add: advances_def)

definition only_job :: "string \<Rightarrow> ('b, 's) coordinator \<Rightarrow> ('b, 's) coordinator \<Rightarrow> bool" where
  "only_job i s s' \<longleftrightarrow> (keyed (co_jobs s) \<longrightarrow> keyed (co_jobs s')) \<and> (\<forall>i'. i' \<noteq> i \<longrightarrow> job_at s' i' = job_at s i')"

lemma only_job_refl [simp]: "only_job i s s"
  by (simp add: only_job_def)

lemma only_job_put: "co_jobs s' = omap_put (job_id j) j (co_jobs s) \<Longrightarrow> only_job (job_id j) s s'"
  using keyed_put [of "co_jobs s" j] by (simp add: only_job_def put_job_def)

lemma only_job_same: "co_jobs s' = co_jobs s \<Longrightarrow> only_job i s s'"
  by (simp add: only_job_def)

lemma keyed_id: "keyed m \<Longrightarrow> map_of m i = Some j \<Longrightarrow> job_id j = i"
  by (auto simp: keyed_def dest: map_of_SomeD)

lemma transition_moves:
  assumes "transition D i st e p a s = (r, s')" and "job_at s i = Some j" and "job_id j = i"
    and "\<not> terminal (job_status j) \<longrightarrow> status_rank (job_status j) \<le> status_rank st"
  shows "same_control s s'" and "only_job i s s'"
    and "\<exists>j'. job_at s' i = Some j' \<and> advances j j' \<and>
      (case r of Inl _ \<Rightarrow> j' = j
       | Inr b \<Rightarrow> (if b then \<not> terminal (job_status j) \<and> current s j \<and> (\<exists>t. j' = next_snapshot j st t e p a)
                  else terminal (job_status j')))"
proof -
  note te = transition_effect [OF assms(1), unfolded assms(2)]
  show "same_control s s'" using te by simp
  show "only_job i s s'"
    using te assms(3) by (auto intro: only_job_same only_job_put [of _ "next_snapshot j st _ e p a", simplified]
        only_job_put [of _ "(superseded_snapshot j _)\<lparr>job_error := None\<rparr>", simplified] split: if_splits)
  show "\<exists>j'. job_at s' i = Some j' \<and> advances j j' \<and>
      (case r of Inl _ \<Rightarrow> j' = j
       | Inr b \<Rightarrow> (if b then \<not> terminal (job_status j) \<and> current s j \<and> (\<exists>t. j' = next_snapshot j st t e p a)
                  else terminal (job_status j')))"
    using te assms(2-4) by (auto simp: advances_def identity_def terminal.simps split: if_splits)
qed

lemma fail_volatile_moves:
  assumes "job_at s i = Some j" and "job_id j = i"
  shows "same_control s (fail_volatile D i e s)" and "only_job i s (fail_volatile D i e s)"
    and "\<exists>j'. job_at (fail_volatile D i e s) i = Some j' \<and> advances j j' \<and> terminal (job_status j')"
proof -
  note fe = fail_volatile_effect [of s D i e, unfolded assms(1)]
  show "same_control s (fail_volatile D i e s)" using fe by simp
  show "only_job i s (fail_volatile D i e s)"
    using fe assms(2) only_job_put [of "fail_volatile D i e s" _ s] by (auto split: if_splits) metis+
  show "\<exists>j'. job_at (fail_volatile D i e s) i = Some j' \<and> advances j j' \<and> terminal (job_status j')"
    using fe assms by (auto simp: advances_def identity_def terminal.simps split: if_splits)
qed

subsection \<open>One region of an execution\<close>

fun task_ids :: "task \<Rightarrow> string list" where
  "task_ids (T_begin i) = [i]" | "task_ids (T_erase_publishing i) = [i]" | "task_ids (T_erase_apply i) = [i]"
| "task_ids (T_erase_ready i a) = [i]" | "task_ids (T_chunking i) = [i]" | "task_ids (T_read_input i) = [i]"
| "task_ids (T_prepare i inp) = [i]" | "task_ids (T_embedding i p) = [i]" | "task_ids (T_embed i p) = [i]"
| "task_ids (T_publishing i p) = [i]" | "task_ids (T_activate i p) = [i]" | "task_ids (T_ready i p) = [i]"
| "task_ids (T_fail i e) = [i]" | "task_ids (T_fail_volatile i e) = [i]" | "task_ids T_done = []" | "task_ids T_crashed = []"

text \<open>The furthest status an unfinished job can have when its executor stands at a task.\<close>

fun stage :: "task \<Rightarrow> nat" where
  "stage (T_begin i) = 0" | "stage (T_erase_publishing i) = 0" | "stage (T_chunking i) = 0"
| "stage (T_read_input i) = 1" | "stage (T_prepare i inp) = 1" | "stage (T_embedding i p) = 1"
| "stage (T_embed i p) = 2" | "stage (T_publishing i p) = 2" | "stage t = 3"

definition staged :: "ingestion_job \<Rightarrow> nat \<Rightarrow> bool" where
  "staged j n \<longleftrightarrow> (\<not> terminal (job_status j) \<longrightarrow> status_rank (job_status j) \<le> n)"

lemma staged_mono: "staged j n \<Longrightarrow> n \<le> m \<Longrightarrow> staged j m"
  by (auto simp: staged_def)

lemma staged_any [simp]: "staged j 3" "staged j (Suc (Suc (Suc 0)))"
proof -
  have "status_rank (job_status j) \<noteq> 4 \<Longrightarrow> status_rank (job_status j) \<le> 3"
    using rank_le [of "job_status j"] by linarith
  then show "staged j 3" by (simp add: staged_def rank_terminal)
  then show "staged j (Suc (Suc (Suc 0)))" by (simp add: numeral_eq_Suc)
qed

definition region_ok :: "string \<Rightarrow> ingestion_job \<Rightarrow> ('b, 's) coordinator \<Rightarrow> task \<Rightarrow> ('b, 's) coordinator \<Rightarrow> bool" where
  "region_ok i j s t' s' \<longleftrightarrow>
     (task_ids t' = [i] \<or> t' = T_done) \<and> only_job i s s' \<and>
     co_sequence s' = co_sequence s \<and> co_stopping s' = co_stopping s \<and> co_queue s' = co_queue s \<and>
     co_latest_revision s' = co_latest_revision s \<and> co_latest_job s' = co_latest_job s \<and>
     (\<exists>j'. job_at s' i = Some j' \<and> advances j j' \<and> staged j' (stage t'))"

lemma region_unchanged:
  "job_at s i = Some j \<Longrightarrow> staged j (stage t') \<Longrightarrow> task_ids t' = [i] \<or> t' = T_done \<Longrightarrow>
     s' = s \<or> (\<exists>b. s' = s\<lparr>co_backend := b\<rparr>) \<Longrightarrow> region_ok i j s t' s'"
  by (auto simp: region_ok_def only_job_same)

lemma region_after:
  assumes "job_at s i = Some j" and "job_id j = i" and "staged j (status_rank st)" and "task_ids proceed = [i]"
    and "status_rank st \<le> stage proceed"
    and "after i proceed (transition D i st e p a s) = (t', s')"
  shows "region_ok i j s t' s'"
proof -
  obtain r where tr: "transition D i st e p a s = (r, s')"
    and t': "t' = (case r of Inl e \<Rightarrow> T_fail_volatile i e | Inr b \<Rightarrow> if b then proceed else T_done)"
    using assms(6) by (auto simp: after_def split: prod.splits sum.splits bool.splits)
  from transition_moves [OF tr assms(1,2)] assms(3) obtain j' where
    m: "same_control s s'" "only_job i s s'" "job_at s' i = Some j'" "advances j j'"
      "case r of Inl _ \<Rightarrow> j' = j
       | Inr b \<Rightarrow> (if b then \<not> terminal (job_status j) \<and> current s j \<and> (\<exists>t. j' = next_snapshot j st t e p a)
                  else terminal (job_status j'))" by (auto simp: staged_def)
  have "staged j' (stage t')"
  proof (cases r)
    case (Inl e)
    then show ?thesis by (simp add: t')
  next
    case (Inr b)
    then show ?thesis using m(5) assms(5) by (auto simp: t' staged_def split: if_splits)
  qed
  with m t' assms(4) show ?thesis by (auto simp: region_ok_def same_control_def split: sum.split)
qed

lemma region_notify:
  assumes "job_at s i = Some j" and "job_id j = i"
    and "notify_ready i (transition D i Job_ready e p a s) = (t', s')"
  shows "region_ok i j s t' s'"
proof -
  obtain r s1 where tr: "transition D i Job_ready e p a s = (r, s1)"
    and t': "t' = (case r of Inl e \<Rightarrow> T_fail_volatile i e | Inr b \<Rightarrow> T_done)"
    and s': "s' = s1 \<or> s' = s1\<lparr>co_ready_calls := co_ready_calls s1 + 1\<rparr>"
    using assms(3) by (auto simp: notify_ready_def split: prod.splits sum.splits bool.splits)
  from transition_moves [OF tr assms(1,2)] obtain j' where
    m: "same_control s s1" "only_job i s s1" "job_at s1 i = Some j'" "advances j j'" by auto
  have "only_job i s s'" "job_at s' i = Some j'" using s' m by (auto simp: only_job_def)
  then show ?thesis using m s' t' by (auto simp: region_ok_def same_control_def split: sum.splits)
qed

lemma region_effect:
  assumes "exec_step D t s = (t', s')" and "task_ids t = [i]" and "job_at s i = Some j" and "job_id j = i"
    and "staged j (stage t)"
  shows "region_ok i j s t' s'"
proof (cases t)
  case (T_fail i' e)
  with assms(2) have i': "i' = i" by simp
  obtain r where tr: "transition D i Job_failed (Some (bounded_error e)) None None s = (r, s')"
    and t': "t' = (case r of Inl e' \<Rightarrow> T_fail_volatile i e' | Inr _ \<Rightarrow> T_done)"
    using assms(1) by (auto simp: T_fail i' split: prod.splits sum.splits)
  from transition_moves [OF tr assms(3,4)] obtain j' where
    m: "same_control s s'" "only_job i s s'" "job_at s' i = Some j'" "advances j j'" by auto
  then show ?thesis using t' by (auto simp: region_ok_def same_control_def split: sum.splits)
next
  case (T_fail_volatile i' e)
  with assms fail_volatile_moves [OF assms(3,4), of D e] show ?thesis
    by (auto simp: region_ok_def same_control_def)
next
  case (T_erase_publishing i')
  with assms show ?thesis by (intro region_after [OF assms(3,4), of Job_publishing "T_erase_apply i"]) auto
next
  case (T_chunking i')
  with assms show ?thesis
    by (intro region_after [OF assms(3,4), of Job_chunking "T_read_input i"]) (auto intro: staged_mono)
next
  case (T_embedding i' p)
  with assms show ?thesis
    by (intro region_after [OF assms(3,4), of Job_embedding "T_embed i p"]) (auto intro: staged_mono)
next
  case (T_publishing i' p)
  with assms show ?thesis by (intro region_after [OF assms(3,4), of Job_publishing "T_activate i p"]) auto
next
  case (T_erase_ready i' a)
  with assms show ?thesis by (intro region_notify [OF assms(3,4)]) auto
next
  case (T_ready i' p)
  with assms show ?thesis by (intro region_notify [OF assms(3,4)]) auto
qed (use assms in \<open>auto intro!: region_unchanged split: if_splits option.splits sum.splits prod.splits\<close>)

subsection \<open>New jobs\<close>

definition make_id :: "nat \<Rightarrow> nat \<Rightarrow> string" where
  "make_id c q = ''job_'' @ to_dec c @ ''_'' @ to_dec q"

lemma to_dec_no_underscore [simp]: "CHR ''_'' \<notin> set (to_dec n)"
  using to_dec_digits [of _ n] by fastforce

lemma make_id_inject: "make_id c q = make_id c' q' \<Longrightarrow> q = q'"
  using append_sep_inject [of "to_dec c" "CHR ''_''" "to_dec q" "to_dec c'" "to_dec q'"] by (simp add: make_id_def)

lemma new_job_effect:
  assumes "new_job D op inp fp s = (job, s')"
  shows "job_id job = make_id (d_steady D (co_ticks s)) (co_sequence s)"
    and "job_status job = Job_queued" and "job_input job = inp" and "job_operation job = op"
    and "job_revision job = latest_revision s (in_document inp) + 1" and "job_content_hash job = fp"
    and "co_sequence s' = co_sequence s + 1" and "same_control s (s'\<lparr>co_sequence := co_sequence s\<rparr>)"
    and "co_jobs s' = co_jobs s" and "co_store s' = co_store s"
  using assms by (auto simp: new_job_def next_job_id_def now_ms_def make_id_def same_control_def latest_revision_def)

definition quiet :: "('b, 's) coordinator \<Rightarrow> ('b, 's) coordinator \<Rightarrow> bool" where
  "quiet s s' \<longleftrightarrow> co_backend s' = co_backend s \<and> (\<forall>i j. job_at s i = Some j \<longrightarrow>
     (\<exists>j'. job_at s' i = Some j' \<and> advances j j' \<and> (j' = j \<or> job_status j' = Job_superseded))) \<and>
     (\<forall>i j. job_at s i = None \<longrightarrow> job_at s' i = Some j \<longrightarrow> job_status j = Job_queued)"

lemma quiet_same: "co_jobs s' = co_jobs s \<Longrightarrow> co_backend s' = co_backend s \<Longrightarrow> quiet s s'"
  by (simp add: quiet_def)

lemma supersede_older_effect:
  assumes "supersede_older D k s = (r, s')"
    and "\<And>i. map_of (co_latest_job s) k = Some i \<Longrightarrow> \<exists>j. job_at s i = Some j"
    and "keyed (co_jobs s)"
  shows "r \<noteq> None" and "same_control s s'" and "keyed (co_jobs s')" and "quiet s s'"
    and "dom (map_of (co_jobs s')) = dom (map_of (co_jobs s))"
proof -
  have "r \<noteq> None \<and> same_control s s' \<and> (co_jobs s' = co_jobs s \<or>
      (\<exists>i j t. job_at s i = Some j \<and> \<not> terminal (job_status j) \<and>
         co_jobs s' = omap_put (job_id j) (superseded_snapshot j t) (co_jobs s)))"
  proof (cases "map_of (co_latest_job s) k")
    case None
    with assms(1) show ?thesis by (auto simp: supersede_older_def)
  next
    case (Some i)
    then obtain j where j: "job_at s i = Some j" using assms(2) by auto
    show ?thesis
    proof (cases "terminal (job_status j)")
      case True
      with assms(1) Some j show ?thesis by (auto simp: supersede_older_def)
    next
      case False
      obtain t s1 where n: "now_ms D s = (t, s1)" by force
      obtain r1 s2 where c: "commit D (superseded_snapshot j t) s1 = (r1, s2)" by force
      have "r = Some r1 \<and> s' = s2" using assms(1) Some j False n c by (simp add: supersede_older_def)
      then show ?thesis
        using now_ms_effect [OF n] commit_effect [OF c] j False
        by (cases r1) (auto intro: same_control_trans)
    qed
  qed
  then have b: "r \<noteq> None" "same_control s s'" "co_jobs s' = co_jobs s \<or>
      (\<exists>i j t. job_at s i = Some j \<and> \<not> terminal (job_status j) \<and>
         co_jobs s' = omap_put (job_id j) (superseded_snapshot j t) (co_jobs s))" by blast+
  show "r \<noteq> None" "same_control s s'" using b by blast+
  show "keyed (co_jobs s')"
    using b(3) assms(3) keyed_put [OF assms(3)] by (auto simp: put_job_def) (metis superseded_fields(1))
  show "quiet s s'"
    using b(3)
  proof (elim disjE exE conjE)
    fix i j t
    assume a: "job_at s i = Some j" "\<not> terminal (job_status j)"
      "co_jobs s' = omap_put (job_id j) (superseded_snapshot j t) (co_jobs s)"
    then have "job_id j = i" using keyed_id assms(3) by blast
    with a b(2) show ?thesis
      by (auto simp: quiet_def advances_def identity_def terminal.simps same_control_def)
  qed (use b(2) in \<open>simp add: quiet_same same_control_def\<close>)
  show "dom (map_of (co_jobs s')) = dom (map_of (co_jobs s))"
    using b(3) keyed_id [OF assms(3)] by (auto simp: dom_def split: if_splits)
qed

lemma register_effect:
  assumes "register D job s = (r, s')" and "keyed (co_jobs s)"
    and "\<forall>i. map_of (co_latest_job s) (in_document (job_input job)) = Some i \<longrightarrow> (\<exists>j. job_at s i = Some j)"
    and "job_at s (job_id job) = None" and "job_status job = Job_queued"
  shows "r \<noteq> None" and "keyed (co_jobs s')" and "quiet s s'"
    and "co_backend s' = co_backend s" and "co_sequence s' = co_sequence s" and "co_stopping s' = co_stopping s"
    and "co_queue s' = co_queue s"
    and "r = Some (Inl e) \<Longrightarrow> same_control s s' \<and> dom (map_of (co_jobs s')) = dom (map_of (co_jobs s))"
    and "r = Some (Inr ()) \<Longrightarrow> job_at s' (job_id job) = Some job \<and>
      dom (map_of (co_jobs s')) = insert (job_id job) (dom (map_of (co_jobs s))) \<and>
      co_latest_revision s' = omap_put (in_document (job_input job)) (job_revision job) (co_latest_revision s) \<and>
      co_latest_job s' = omap_put (in_document (job_input job)) (job_id job) (co_latest_job s)"
proof -
  let ?k = "in_document (job_input job)"
  obtain r1 s1 where p: "persist D job s = (r1, s1)" by force
  note pe = persist_effect [OF p]
  obtain r2 s2 where o: "supersede_older D ?k s1 = (r2, s2)" by force
  have older: "\<exists>j. job_at s1 i = Some j" if "map_of (co_latest_job s1) ?k = Some i" for i
    using assms(3) that pe by (auto simp: same_control_def)
  note oe = supersede_older_effect [OF o older] pe assms(2)
  have q: "quiet s s2" using oe pe by (auto simp: quiet_def same_control_def)
  have new: "job_at s2 (job_id job) = None" using oe pe assms(4) by (auto simp: domIff)
  have res: "(case r1 of Inl e \<Rightarrow> r = Some (Inl e) \<and> s' = s1
      | Inr _ \<Rightarrow> (case r2 of Some (Inr _) \<Rightarrow> r = Some (Inr ()) \<and> s' = (put_memory job s2)\<lparr>
            co_latest_revision := omap_put ?k (job_revision job) (co_latest_revision s2),
            co_latest_job := omap_put ?k (job_id job) (co_latest_job s2)\<rparr>
          | _ \<Rightarrow> r = r2 \<and> s' = s2))"
    using assms(1) p o by (auto simp: register_def Let_def split: sum.splits option.splits)
  have put: "keyed (co_jobs (put_memory job s2))" "quiet s (put_memory job s2)"
    using oe keyed_put [of "co_jobs s2" job] q new assms(5)
    by (auto simp: put_memory_def put_job_def quiet_def)
  have ctl: "same_control s s1" "same_control s s2" using pe oe same_control_trans by auto
  show "r \<noteq> None" using res oe by (auto split: sum.splits option.splits)
  show "keyed (co_jobs s')" "quiet s s'" "co_backend s' = co_backend s" "co_sequence s' = co_sequence s"
    "co_stopping s' = co_stopping s" "co_queue s' = co_queue s"
    using res oe q put ctl pe assms(2)
    by (auto simp: same_control_def quiet_same quiet_def put_memory_def split: sum.splits option.splits)
  show "r = Some (Inl e) \<Longrightarrow> same_control s s' \<and> dom (map_of (co_jobs s')) = dom (map_of (co_jobs s))"
    using res oe ctl pe by (auto split: sum.splits option.splits)
  show "r = Some (Inr ()) \<Longrightarrow> job_at s' (job_id job) = Some job \<and>
      dom (map_of (co_jobs s')) = insert (job_id job) (dom (map_of (co_jobs s))) \<and>
      co_latest_revision s' = omap_put ?k (job_revision job) (co_latest_revision s) \<and>
      co_latest_job s' = omap_put ?k (job_id job) (co_latest_job s)"
    using res oe ctl pe by (auto simp: put_memory_def same_control_def split: sum.splits option.splits)
qed

subsection \<open>The invariant\<close>

definition owned :: "('b, 's) coordinator \<Rightarrow> string \<Rightarrow> nat \<Rightarrow> bool" where
  "owned s i n \<longleftrightarrow> (\<exists>j. job_at s i = Some j \<and> staged j n)"

definition fresh_ids :: "('b, 's) deps \<Rightarrow> ('b, 's) coordinator \<Rightarrow> bool" where
  "fresh_ids D s \<longleftrightarrow> (\<forall>n q. co_sequence s \<le> q \<longrightarrow> job_at s (make_id (d_steady D n) q) = None)"

text \<open>
  Jobs are filed under their ids; every queued id and every running task has its own job, which is
  no further than its executor; the latest job of a document exists; new ids are unused.
\<close>

definition coord_inv :: "('b, 's) deps \<Rightarrow> ('b, 's) coordinator \<Rightarrow> task list \<Rightarrow> bool" where
  "coord_inv D s ts \<longleftrightarrow>
     keyed (co_jobs s) \<and> distinct (co_queue s @ concat (map task_ids ts)) \<and>
     (\<forall>i \<in> set (co_queue s). owned s i 0) \<and> (\<forall>t \<in> set ts. \<forall>i \<in> set (task_ids t). owned s i (stage t)) \<and>
     T_crashed \<notin> set ts \<and>
     (\<forall>k i. map_of (co_latest_job s) k = Some i \<longrightarrow> job_at s i \<noteq> None) \<and> fresh_ids D s"

lemma owned_quiet: "quiet s s' \<Longrightarrow> owned s i n \<Longrightarrow> owned s' i n"
  by (fastforce simp: quiet_def owned_def staged_def terminal.simps)

lemma owned_other: "job_at s' i = job_at s i \<Longrightarrow> owned s' i n = owned s i n"
  by (simp add: owned_def)

lemma take_work_inv:
  assumes "coord_inv D s ts" and "take_work s = Some (t, s')"
  shows "coord_inv D s' (ts @ [t])"
proof -
  obtain i q where "co_queue s = i # q" "t = T_begin i" "s' = s\<lparr>co_queue := q\<rparr>"
    using assms(2) by (auto simp: take_work_def split: if_splits list.splits)
  with assms(1) show ?thesis by (auto simp: coord_inv_def owned_def fresh_ids_def)
qed

lemma concat_update:
  assumes "n < length ts" and "distinct (q @ concat (map f ts))" and "f t = f (ts ! n) \<or> f t = []"
  shows "distinct (q @ concat (map f (ts[n := t])))"
proof -
  have "ts = take n ts @ ts ! n # drop (Suc n) ts" using assms(1) by (rule id_take_nth_drop)
  then have "distinct (q @ concat (map f (take n ts)) @ f (ts ! n) @ concat (map f (drop (Suc n) ts)))"
    using assms(2) by (metis concat.simps(2) concat_append list.map(2) map_append)
  with assms(1,3) show ?thesis by (auto simp: upd_conv_take_nth_drop)
qed

lemma exec_done: "task_ids t = [] \<Longrightarrow> exec_step D t s = (t, s)"
  by (cases t) simp_all

lemma task_ids_cases: "task_ids t = [] \<or> (\<exists>i. task_ids t = [i])"
  by (cases t) simp_all

lemma task_ids_disjoint:
  assumes "distinct (q @ concat (map f ts))" and "m < length ts" and "n < length ts" and "m \<noteq> n"
  shows "set (f (ts ! m)) \<inter> set (f (ts ! n)) = {}"
proof -
  have *: "set (f (ts ! m)) \<inter> set (f (ts ! n)) = {}" if "m < n" "n < length ts" for m n
  proof -
    have d: "distinct (concat (map f (take n ts)) @ concat (map f (drop n ts)))"
      using assms(1) by (simp flip: concat_append map_append)
    have "ts ! m \<in> set (take n ts)" using that by (metis in_set_conv_nth length_take min_less_iff_conj nth_take order.strict_trans)
    moreover have "ts ! n \<in> set (drop n ts)" using that by (metis in_set_conv_nth Cons_nth_drop_Suc list.set_intros(1))
    ultimately show ?thesis using d by auto
  qed
  show ?thesis using * [of m n] * [of n m] assms(2-4) by (cases "m < n") auto
qed

lemma region_inv:
  assumes "coord_inv D s ts" and "n < length ts" and "exec_step D (ts ! n) s = (t, s')"
  shows "coord_inv D s' (ts[n := t])"
proof (cases "task_ids (ts ! n) = []")
  case True
  with assms show ?thesis by (metis exec_done list_update_id prod.inject)
next
  case False
  then obtain i where i: "task_ids (ts ! n) = [i]" using task_ids_cases by blast
  have mem: "ts ! n \<in> set ts" using assms(2) by simp
  then obtain j where j: "job_at s i = Some j" "staged j (stage (ts ! n))"
    using assms(1) i by (fastforce simp: coord_inv_def owned_def)
  have "job_id j = i" using j(1) assms(1) keyed_id by (auto simp: coord_inv_def)
  note ok = region_effect [OF assms(3) i j(1) this j(2)]
  then obtain j' where j': "job_at s' i = Some j'" "staged j' (stage t)" and other: "\<And>i'. i' \<noteq> i \<Longrightarrow> job_at s' i' = job_at s i'"
    and ctl: "co_queue s' = co_queue s" "co_sequence s' = co_sequence s" "co_latest_job s' = co_latest_job s"
    and k: "keyed (co_jobs s')" and t: "task_ids t = [i] \<or> t = T_done"
    using assms(1) by (auto simp: region_ok_def only_job_def coord_inv_def)
  have dist: "distinct (co_queue s @ concat (map task_ids ts))" using assms(1) by (simp add: coord_inv_def)
  have exists: "job_at s' i' = None \<longleftrightarrow> job_at s i' = None" for i'
    using other j(1) j'(1) by (cases "i' = i") auto
  have solo: "i \<notin> set (co_queue s)" using dist i mem by (fastforce simp: disjoint_iff)
  have rest: "i \<notin> set (task_ids (ts ! m))" if "m < length ts" "m \<noteq> n" for m
    using task_ids_disjoint [OF dist that(1) assms(2) that(2)] i by simp
  have "owned s' i' 0" if "i' \<in> set (co_queue s)" for i'
    using that assms(1) solo other owned_other by (metis coord_inv_def)
  moreover have "owned s' i' (stage u)" if u: "u \<in> set (ts[n := t])" "i' \<in> set (task_ids u)" for u i'
  proof -
    obtain m where m: "m < length ts" "u = ts[n := t] ! m" using u(1) by (auto simp: in_set_conv_nth)
    show ?thesis
    proof (cases "m = n")
      case True
      with m u(2) t j' show ?thesis by (auto simp: owned_def)
    next
      case False
      with m rest u(2) have "i' \<noteq> i" "u = ts ! m" by auto
      with m(1) u(2) assms(1) other show ?thesis by (auto simp: coord_inv_def owned_def)
    qed
  qed
  moreover have "T_crashed \<notin> set (ts[n := t])"
    using assms(1) t set_update_subset_insert [of ts n t] by (auto simp: coord_inv_def)
  moreover have "task_ids t = task_ids (ts ! n) \<or> task_ids t = []" using t i by auto
  then have "distinct (co_queue s @ concat (map task_ids (ts[n := t])))"
    by (rule concat_update [OF assms(2) dist])
  moreover have "fresh_ids D s'" "\<forall>k i. map_of (co_latest_job s) k = Some i \<longrightarrow> job_at s' i \<noteq> None"
    using assms(1) by (simp_all add: coord_inv_def fresh_ids_def ctl exists)
  ultimately show ?thesis unfolding coord_inv_def ctl using k by blast
qed

lemma created_inv:
  assumes inv: "coord_inv D s ts" and n: "new_job D op inp fp s = (job, s1)" and r: "register D job s1 = (r, s2)"
  shows "r \<noteq> None" and "quiet s s2" and "co_queue s2 = co_queue s" and "co_stopping s2 = co_stopping s"
    and "r = Some (Inl e) \<Longrightarrow> coord_inv D s2 ts"
    and "r = Some (Inr ()) \<Longrightarrow> coord_inv D s2 (ts @ [T_begin (job_id job)])"
    and "r = Some (Inr ()) \<Longrightarrow> coord_inv D (s2\<lparr>co_queue := co_queue s2 @ [job_id job]\<rparr>) ts"
proof -
  note ne = new_job_effect [OF n]
  have s1: "co_jobs s1 = co_jobs s" "co_latest_job s1 = co_latest_job s" "co_queue s1 = co_queue s"
    "co_stopping s1 = co_stopping s" "co_sequence s1 = co_sequence s + 1"
    using ne by (simp_all add: same_control_def)
  have k: "keyed (co_jobs s1)" using inv s1 by (simp add: coord_inv_def)
  have lt: "\<forall>i. map_of (co_latest_job s1) (in_document (job_input job)) = Some i \<longrightarrow> (\<exists>j. job_at s1 i = Some j)"
    using inv s1 by (auto simp: coord_inv_def)
  have free: "job_at s1 (job_id job) = None" using inv ne(1) s1 by (simp add: coord_inv_def fresh_ids_def)
  note re = register_effect [OF r k lt free ne(2)]
  show "r \<noteq> None" by (rule re(1))
  show qu: "quiet s s2" using re(3) s1 ne(8) by (simp add: quiet_def same_control_def)
  show "co_queue s2 = co_queue s" "co_stopping s2 = co_stopping s" using re(6,7) s1 by simp_all
  have own: "owned s2 i m" if "owned s i m" for i m using owned_quiet [OF qu that] .
  show "coord_inv D s2 ts" if "r = Some (Inl e)"
  proof -
    have "dom (map_of (co_jobs s2)) = dom (map_of (co_jobs s1))" and "same_control s1 s2" using re(8) [OF that] by simp_all
    then have exists: "job_at s2 i = None \<longleftrightarrow> job_at s i = None" for i using s1 by (metis domIff)
    have "co_latest_job s2 = co_latest_job s" using \<open>same_control s1 s2\<close> s1 by (simp add: same_control_def)
    then show ?thesis
      using inv re(2,5,7) s1 own unfolding coord_inv_def fresh_ids_def exists by simp
  qed
  show "coord_inv D s2 (ts @ [T_begin (job_id job)])"
    and "coord_inv D (s2\<lparr>co_queue := co_queue s2 @ [job_id job]\<rparr>) ts" if ok: "r = Some (Inr ())"
  proof -
    have "dom (map_of (co_jobs s2)) = insert (job_id job) (dom (map_of (co_jobs s1)))" using re(9) [OF ok] by simp
    then have exists: "job_at s2 i = None \<longleftrightarrow> i \<noteq> job_id job \<and> job_at s i = None" for i
      using s1 by (metis domIff insert_iff)
    have new: "job_id job \<notin> set (co_queue s)" "\<forall>t \<in> set ts. job_id job \<notin> set (task_ids t)"
      using inv free s1 unfolding coord_inv_def owned_def by (fastforce, fastforce)
    have fr: "job_at s2 (make_id (d_steady D m) q) = None" if q: "Suc (co_sequence s) \<le> q" for m q
      using inv q make_id_inject ne(1) unfolding exists by (fastforce simp: coord_inv_def fresh_ids_def)
    have l: "job_at s2 i \<noteq> None" if "map_of (co_latest_job s2) k = Some i" for k i
      using that re(9) [OF ok] inv s1 unfolding exists by (auto simp: coord_inv_def split: if_splits)
    have o: "owned s2 (job_id job) 0" using re(9) [OF ok] ne(2) by (simp add: owned_def staged_def)
    have o': "owned (s2\<lparr>co_queue := q\<rparr>) i m = owned s2 i m" for q i m by (simp add: owned_def)
    have inv': "keyed (co_jobs s)" "distinct (co_queue s)" "distinct (concat (map task_ids ts))"
      "\<forall>i \<in> set (co_queue s). \<forall>t \<in> set ts. i \<notin> set (task_ids t)" "T_crashed \<notin> set ts"
      "\<forall>i \<in> set (co_queue s). owned s2 i 0" "\<forall>t \<in> set ts. \<forall>i \<in> set (task_ids t). owned s2 i (stage t)"
      using inv own by (auto simp: coord_inv_def disjoint_iff)
    show "coord_inv D s2 (ts @ [T_begin (job_id job)])"
      unfolding coord_inv_def fresh_ids_def
      using inv' re(2,5,7) s1 new fr l o by (simp add: disjoint_iff)
    show "coord_inv D (s2\<lparr>co_queue := co_queue s2 @ [job_id job]\<rparr>) ts"
      unfolding coord_inv_def fresh_ids_def
      using inv' re(2,5,7) s1 new fr l o o' by (simp add: disjoint_iff)
  qed
qed

lemma quiet_refl [simp]: "quiet s s"
  by (simp add: quiet_same)

lemma new_job_quiet: "new_job D op inp fp s = (job, s1) \<Longrightarrow> quiet s1 s2 \<Longrightarrow> quiet s s2"
  using new_job_effect(8,9) [of D op inp fp s job s1] by (simp add: quiet_def same_control_def)

lemma submit_create_inv:
  assumes "coord_inv D s ts" and "submit_create D input fp asy s = (x, s')"
  shows "x \<noteq> S_crashed \<and> quiet s s' \<and> coord_inv D s' (ts @ spawned x)"
proof (cases "asy \<and> length (co_queue s) \<ge> d_queue_capacity D")
  case True
  with assms show ?thesis by (auto simp: submit_create_def)
next
  case False
  obtain job s1 where n: "new_job D Op_upsert input fp s = (job, s1)" by force
  obtain r s2 where r: "register D job s1 = (r, s2)" by force
  note c = created_inv [OF assms(1) n r]
  have "quiet s (s2\<lparr>co_queue := q\<rparr>)" for q using c(2) by (simp add: quiet_def)
  with False assms(2) n r c show ?thesis
    by (auto simp: submit_create_def split: option.splits sum.splits if_splits)
qed

lemma submit_inv:
  assumes "coord_inv D s ts" and "submit D input asy s = (x, s')"
  shows "x \<noteq> S_crashed \<and> quiet s s' \<and> coord_inv D s' (ts @ spawned x)"
proof -
  have "x \<noteq> S_crashed \<and> quiet s s' \<and> coord_inv D s' (ts @ spawned x)"
    if "submit_region D input fp asy s = (x, s')" for input fp
  proof -
    have latest: "job_at s i \<noteq> None" if "map_of (co_latest_job s) k = Some i" for k i
      using assms(1) that by (simp add: coord_inv_def)
    show ?thesis
    proof (cases "map_of (co_latest_job s) (in_document input)")
      case None
      then show ?thesis using that assms(1) submit_create_inv [OF assms(1)]
        by (auto simp: submit_region_def split: if_splits)
    next
      case (Some i)
      then obtain j where "job_at s i = Some j" using latest by blast
      with Some show ?thesis using that assms(1) submit_create_inv [OF assms(1)]
        by (auto simp: submit_region_def split: if_splits)
    qed
  qed
  with assms show ?thesis by (auto simp: submit_def Let_def split: if_splits)
qed

lemma erase_region_inv:
  assumes "coord_inv D s ts" and "erase_region D k s = (x, s')"
  shows "x \<noteq> S_crashed \<and> quiet s s' \<and> coord_inv D s' (ts @ spawned x)"
proof (cases "k = [] \<or> co_stopping s")
  case True
  with assms show ?thesis by (auto simp: erase_region_def split: if_splits)
next
  case False
  obtain job s1 where n: "new_job D Op_erase \<lparr>in_document = k, in_title = [], in_content = [], in_metadata = []\<rparr>
      ''deleted'' s = (job, s1)" by force
  obtain r s2 where r: "register D job s1 = (r, s2)" by force
  note c = created_inv [OF assms(1) n r]
  with False assms(2) n r show ?thesis
    by (auto simp: erase_region_def split: option.splits sum.splits if_splits)
qed

lemma coord_step_inv:
  assumes "coord_step D s ts s' ts'" and "coord_inv D s ts"
  shows "coord_inv D s' ts'"
  using assms
proof (induction rule: coord_step.induct)
  case (submits input asy s x s' ts)
  then show ?case using submit_inv by blast
next
  case (deletes k s x s' ts)
  then show ?case using erase_region_inv by blast
next
  case (works s t s' ts)
  then show ?case using take_work_inv by blast
next
  case (regions n ts s t s')
  then show ?case using region_inv by blast
qed (auto simp: coord_inv_def shutdown_begin_def shutdown_end_def owned_def fresh_ids_def)

subsection \<open>Recovery establishes the invariant\<close>

lemma run_task_inv:
  "run_task D t s = (t', s') \<Longrightarrow> coord_inv D s (t # ts) \<Longrightarrow> coord_inv D s' (t' # ts) \<and> finished t'"
proof (induction D t s rule: run_task.induct)
  case (1 D t s)
  show ?case
  proof (cases "finished t")
    case True
    with "1.prems" show ?thesis by (simp add: run_task.simps [of D t s])
  next
    case False
    obtain t1 s1 where e: "exec_step D t s = (t1, s1)" by force
    have "coord_inv D s1 (t1 # ts)" using region_inv [OF "1.prems"(2), of 0 t1 s1] e by simp
    moreover have "run_task D t1 s1 = (t', s')" using "1.prems"(1) False e by (simp add: run_task.simps [of D t s])
    ultimately show ?thesis using "1.IH" [OF False e [symmetric]] by blast
  qed
qed

lemma finished_cases: "finished t \<Longrightarrow> t = T_done \<or> t = T_crashed"
  by (cases t) simp_all

lemma execute_inv:
  assumes "coord_inv D s (T_begin i # ts)"
  shows "coord_inv D (snd (execute D i s)) ts"
proof -
  obtain t' s' where e: "run_task D (T_begin i) s = (t', s')" by force
  from run_task_inv [OF e assms] have "coord_inv D s' (t' # ts)" "finished t'" by auto
  then have "coord_inv D s' (T_done # ts)" using finished_cases by (fastforce simp: coord_inv_def)
  then show ?thesis by (simp add: execute_def e coord_inv_def)
qed

lemma executes_inv:
  "coord_inv D s (map T_begin ids) \<Longrightarrow> coord_inv D (fold (\<lambda>i s. snd (execute D i s)) ids s) []"
proof (induction ids arbitrary: s)
  case (Cons i ids)
  from execute_inv [of D s i "map T_begin ids"] Cons.prems
  have "coord_inv D (snd (execute D i s)) (map T_begin ids)" by simp
  from Cons.IH [OF this] show ?case by simp
qed simp

lemma recover_load_effect:
  "co_backend (recover_load js s) = co_backend s \<and> co_store (recover_load js s) = co_store s \<and>
   co_queue (recover_load js s) = co_queue s \<and> co_sequence (recover_load js s) = co_sequence s \<and>
   co_stopping (recover_load js s) = co_stopping s \<and> co_jobs (recover_load js s) = fold put_job js (co_jobs s)"
proof (induction js arbitrary: s)
  case (Cons j js)
  then show ?case
    by (auto simp: recover_load_def Let_def put_memory_def put_job_def split: option.splits)
qed (simp add: recover_load_def)

lemma recover_load_latest:
  "\<forall>k i. map_of (co_latest_job s) k = Some i \<longrightarrow> job_at s i \<noteq> None \<Longrightarrow>
   map_of (co_latest_job (recover_load js s)) k = Some i \<Longrightarrow> job_at (recover_load js s) i \<noteq> None"
proof (induction js arbitrary: s)
  case (Cons j js)
  define s1 where "s1 = recover_load [j] s"
  have "\<forall>k i. map_of (co_latest_job s1) k = Some i \<longrightarrow> job_at s1 i \<noteq> None"
    using Cons.prems(1) by (auto simp: s1_def recover_load_def Let_def put_memory_def split: option.splits if_splits)
  moreover have "recover_load (j # js) s = recover_load js s1" by (simp add: recover_load_def s1_def)
  ultimately show ?case using Cons.IH [of s1] Cons.prems(2) by simp
qed (simp add: recover_load_def)

lemma recover_apply_effect:
  "recover_apply D js s = (r, s') \<Longrightarrow> \<exists>b. s' = s\<lparr>co_backend := b\<rparr>"
proof (induction D js s rule: recover_apply.induct)
  case (2 D job jobs s)
  have self: "\<exists>b. s = s\<lparr>co_backend := b\<rparr>" by (rule exI [of _ "co_backend s"]) simp
  from 2 self show ?case
    by (auto split: if_splits option.splits sum.splits prod.splits)
qed (auto, metis coordinator.surjective coordinator.update_convs(1))

text \<open>While recovery requeues, the deletions it will run count as tasks at their beginning.\<close>

lemma requeue_one:
  assumes inv: "coord_inv D s (map T_begin dels)" and j: "job_at s i = Some j"
    and new: "i \<notin> set (co_queue s)" "i \<notin> set dels" and id: "job_id j' = i"
    and s': "co_jobs s' = omap_put i j' (co_jobs s)" "same_control s s'"
  shows "coord_inv D s' (map T_begin dels)"
    and "staged j' 0 \<Longrightarrow> coord_inv D s' (map T_begin (dels @ [i]))"
    and "staged j' 0 \<Longrightarrow> coord_inv D (s'\<lparr>co_queue := co_queue s' @ [i]\<rparr>) (map T_begin dels)"
proof -
  have k: "keyed (co_jobs s')" using keyed_put [of "co_jobs s" j'] inv id s'(1) by (simp add: coord_inv_def put_job_def)
  have exists: "job_at s' i' = None \<longleftrightarrow> job_at s i' = None" for i' using s'(1) j by simp
  have own: "owned s' i' n = owned s i' n" if "i' \<noteq> i" for i' n using s'(1) that by (simp add: owned_def)
  have q: "co_queue s' = co_queue s" "co_latest_job s' = co_latest_job s" "co_sequence s' = co_sequence s"
    using s'(2) by (simp_all add: same_control_def)
  have ids: "concat (map task_ids (map T_begin xs)) = xs" for xs by (induction xs) simp_all
  have o': "owned (s'\<lparr>co_queue := x\<rparr>) i' n = owned s' i' n" for x i' n by (simp add: owned_def)
  have "\<forall>i' \<in> set (co_queue s) \<union> set dels. owned s i' 0 \<and> i' \<noteq> i"
    using inv new by (auto simp: coord_inv_def)
  then have o2: "\<forall>i \<in> set (co_queue s). owned s' i 0" "\<forall>i \<in> set dels. owned s' i 0"
    by (simp_all add: own)
  have inv': "distinct (co_queue s)" "distinct dels" "set (co_queue s) \<inter> set dels = {}" "fresh_ids D s'"
    "\<forall>k i. map_of (co_latest_job s) k = Some i \<longrightarrow> job_at s' i \<noteq> None"
    using inv own new unfolding coord_inv_def ids fresh_ids_def exists q by (simp_all add: disjoint_iff)
  note inv' = inv' o2
  show "coord_inv D s' (map T_begin dels)"
    unfolding coord_inv_def ids q using inv' k by (auto simp: image_iff)
  assume "staged j' 0"
  then have o: "owned s' i 0" using s'(1) by (simp add: owned_def)
  show "coord_inv D s' (map T_begin (dels @ [i]))"
    unfolding coord_inv_def ids q using inv' k o new by (auto simp: image_iff)
  show "coord_inv D (s'\<lparr>co_queue := co_queue s' @ [i]\<rparr>) (map T_begin dels)"
    unfolding coord_inv_def ids fresh_ids_def using inv' k o o' new q by (auto simp: image_iff fresh_ids_def)
qed

lemma recover_requeue_inv:
  assumes "recover_requeue D ids dels s = (Inr dels', s')" and "coord_inv D s (map T_begin dels)"
    and "distinct ids" and "set ids \<inter> (set (co_queue s) \<union> set dels) = {}"
  shows "coord_inv D s' (map T_begin dels')"
  using assms
proof (induction ids arbitrary: dels s)
  case Nil
  then show ?case by simp
next
  case (Cons i ids)
  have rest: "distinct ids" "set ids \<inter> (set (co_queue s) \<union> set dels) = {}" "i \<notin> set ids"
    and new: "i \<notin> set (co_queue s)" "i \<notin> set dels" using Cons.prems(3,4) by auto
  show ?case
  proof (cases "\<exists>job. job_at s i = Some job \<and> \<not> terminal (job_status job)")
    case False
    then have "recover_requeue D ids dels s = (Inr dels', s')"
      using Cons.prems(1) by (auto split: option.splits if_splits)
    from Cons.IH [OF this Cons.prems(2)] rest show ?thesis by simp
  next
    case True
    then obtain job where job: "job_at s i = Some job" "\<not> terminal (job_status job)" by blast
    obtain t s1 where n: "now_ms D s = (t, s1)" by force
    define stale where "stale = (latest_revision s1 (in_document (job_input job)) \<noteq> job_revision job)"
    define job' where "job' = (if stale then job\<lparr>job_status := Job_superseded, job_updated_at_ms := t\<rparr>
        else job\<lparr>job_status := Job_queued, job_updated_at_ms := t, job_error := None, job_prepared := None\<rparr>)"
    obtain r s2 where p: "persist D job' (put_memory job' s1) = (r, s2)" by force
    have id: "job_id job' = i" using job Cons.prems(2) keyed_id by (auto simp: job'_def coord_inv_def)
    have jobs: "co_jobs s2 = omap_put i job' (co_jobs s)" and ctl: "same_control s s2"
      using persist_effect [OF p] now_ms_effect [OF n] id by (simp_all add: put_memory_def same_control_def)
    note one = requeue_one [OF Cons.prems(2) job(1) new id jobs ctl]
    have q: "co_queue s2 = co_queue s" using ctl by (simp add: same_control_def)
    have st: "\<not> stale \<Longrightarrow> staged job' 0" by (simp add: job'_def staged_def)
    have op: "job_operation job' = job_operation job" by (simp add: job'_def)
    have step: "recover_requeue D (i # ids) dels s =
        (case r of Inl e \<Rightarrow> (Inl e, s2)
         | Inr _ \<Rightarrow> if stale then recover_requeue D ids dels s2
            else if job_operation job = Op_erase then recover_requeue D ids (dels @ [i]) s2
            else recover_requeue D ids dels (s2\<lparr>co_queue := co_queue s2 @ [i]\<rparr>))"
      using job n p op by (cases stale) (simp_all add: job'_def stale_def Let_def split: sum.split)
    consider "stale" "recover_requeue D ids dels s2 = (Inr dels', s')"
      | "\<not> stale" "recover_requeue D ids (dels @ [i]) s2 = (Inr dels', s')"
      | "\<not> stale" "recover_requeue D ids dels (s2\<lparr>co_queue := co_queue s2 @ [i]\<rparr>) = (Inr dels', s')"
      using Cons.prems(1) unfolding step by (auto split: sum.splits if_splits)
    then show ?thesis
    proof cases
      case 1
      from Cons.IH [OF 1(2) one(1)] rest q show ?thesis by simp
    next
      case 2
      from Cons.IH [OF 2(2) one(2) [OF st [OF 2(1)]]] rest q show ?thesis by auto
    next
      case 3
      from Cons.IH [OF 3(2) one(3) [OF st [OF 3(1)]]] rest q show ?thesis by auto
    qed
  qed
qed

text \<open>
  What a start needs: the hash map is iterated over its own keys, and the readings of the steady
  clock differ from those that the recovered job ids were made from.
\<close>

definition deps_ok :: "('b, 's) deps \<Rightarrow> 's \<Rightarrow> bool" where
  "deps_ok D s0 \<longleftrightarrow> (\<forall>ids. mset (d_order D ids) = mset ids) \<and>
     (\<forall>js. d_load_latest D s0 = Inr js \<longrightarrow> (\<forall>j \<in> set js. \<forall>n q. job_id j \<noteq> make_id (d_steady D n) q))"

lemma open_phases:
  assumes "coordinator_open D b0 s0 = Inr s" and "deps_ok D s0"
  obtains js s1 ids s2 dels s3 b where "d_load_latest D s0 = Inr js" and "co_jobs s1 = latest_of js"
    and "co_backend s1 = b0"
    and "ids = d_order D (map fst (co_jobs s1))" and "mset ids = mset (map fst (co_jobs s1))"
    and "recover_apply D (sort_key (\<lambda>j. (job_revision j, job_id j)) (map snd (active_ready s1 ids))) s1 = (Inr (), s2)"
    and "s2 = s1\<lparr>co_backend := b\<rparr>" and "recover_requeue D ids [] s2 = (Inr dels, s3)"
    and "coord_inv D s2 []" and "coord_inv D s3 (map T_begin dels)"
    and "s = fold (\<lambda>i s. snd (execute D i s)) dels s3"
proof -
  let ?s0 = "\<lparr>co_backend = b0, co_store = s0, co_ticks = 0, co_sequence = 0,
                       co_ready_calls = 0, co_stopping = False, co_queue = [], co_jobs = [],
                       co_latest_revision = [], co_latest_job = []\<rparr>"
  obtain js where js: "d_load_latest D s0 = Inr js" and rec: "recover D ?s0 = (Inr (), s)"
    using assms(1) by (auto simp: coordinator_open_def fail_def recover_def split: if_splits sum.splits prod.splits)
  define s1 where "s1 = recover_load js ?s0"
  define ids where "ids = d_order D (map fst (co_jobs s1))"
  note le = recover_load_effect [of js ?s0, folded s1_def]
  obtain s2 dels s3 where ap: "recover_apply D (sort_key (\<lambda>j. (job_revision j, job_id j)) (map snd (active_ready s1 ids))) s1 = (Inr (), s2)"
    and rq: "recover_requeue D ids [] s2 = (Inr dels, s3)" and s: "s = fold (\<lambda>i s. snd (execute D i s)) dels s3"
    using rec js by (auto simp: recover_def Let_def s1_def ids_def split: sum.splits prod.splits)
  obtain b where s2: "s2 = s1\<lparr>co_backend := b\<rparr>" using recover_apply_effect [OF ap] by blast
  have jobs: "co_jobs s1 = latest_of js" using le by (simp add: latest_of_def)
  have keyed: "keyed (co_jobs s1)" using jobs keyed_latest by simp
  have fresh: "job_at s1 (make_id (d_steady D n) q) = None" for n q
  proof (rule ccontr)
    assume "job_at s1 (make_id (d_steady D n) q) \<noteq> None"
    then obtain j where "map_of (latest_of js) (make_id (d_steady D n) q) = Some j" using jobs by auto
    then have "j \<in> set js" "job_id j = make_id (d_steady D n) q"
      using find_SomeD by (auto simp: map_of_latest) fastforce+
    with assms(2) js show False by (auto simp: deps_ok_def)
  qed
  have inv2: "coord_inv D s2 (map T_begin [])"
    using le keyed fresh recover_load_latest [where s = ?s0 and js = js, folded s1_def] by (auto simp: coord_inv_def fresh_ids_def s2)
  have ids: "mset ids = mset (map fst (co_jobs s1))" using assms(2) by (simp add: deps_ok_def ids_def)
  then have "distinct ids" using keyed omap_wf_distinct mset_eq_imp_distinct_iff by (metis keyed_def)
  then have inv3: "coord_inv D s3 (map T_begin dels)"
    by (rule recover_requeue_inv [OF rq inv2]) (use le in \<open>simp add: s2\<close>)
  have "co_backend s1 = b0" "coord_inv D s2 []" using le inv2 by simp_all
  with js jobs ids_def ids ap s2 rq inv3 s show ?thesis by (intro that)
qed

lemma open_inv:
  assumes "coordinator_open D b0 s0 = Inr s" and "deps_ok D s0"
  shows "coord_inv D s []"
  using open_phases [OF assms] executes_inv by metis

lemma reachable_inv:
  "coord_reachable D b0 s0 s ts \<Longrightarrow> deps_ok D s0 \<Longrightarrow> coord_inv D s ts"
  by (induction rule: coord_reachable.induct) (auto intro: open_inv coord_step_inv)

definition progresses :: "('b, 's) coordinator \<Rightarrow> ('b, 's) coordinator \<Rightarrow> bool" where
  "progresses s s' \<longleftrightarrow> (\<forall>i j. job_at s i = Some j \<longrightarrow> (\<exists>j'. job_at s' i = Some j' \<and> advances j j'))"

lemma quiet_progresses: "quiet s s' \<Longrightarrow> progresses s s'"
  by (fastforce simp: quiet_def progresses_def)

lemma region_progresses:
  assumes "coord_inv D s ts" and "n < length ts" and "exec_step D (ts ! n) s = (t, s')"
  shows "progresses s s'"
proof (cases "task_ids (ts ! n) = []")
  case True
  with assms(3) show ?thesis by (simp add: exec_done progresses_def)
next
  case False
  then obtain i where i: "task_ids (ts ! n) = [i]" using task_ids_cases by blast
  with assms(1,2) obtain j where j: "job_at s i = Some j" "staged j (stage (ts ! n))"
    by (fastforce simp: coord_inv_def owned_def)
  have "job_id j = i" using j(1) assms(1) keyed_id by (auto simp: coord_inv_def)
  from region_effect [OF assms(3) i j(1) this j(2)] j(1) show ?thesis
    unfolding progresses_def region_ok_def only_job_def by (metis advances_refl option.inject)
qed

lemma step_progresses:
  assumes "coord_step D s ts s' ts'" and "coord_inv D s ts"
  shows "progresses s s'"
  using assms
proof (induction rule: coord_step.induct)
  case (submits input asy s x s' ts)
  then show ?case using submit_inv quiet_progresses by blast
next
  case (deletes k s x s' ts)
  then show ?case using erase_region_inv quiet_progresses by blast
next
  case (works s t s' ts)
  then show ?case by (auto simp: take_work_def progresses_def split: if_splits list.splits)
next
  case (regions n ts s t s')
  then show ?case using region_progresses by blast
qed (auto simp: progresses_def shutdown_begin_def shutdown_end_def)

subsection \<open>The lifecycle of a job\<close>

text \<open>
  C23: in every interleaving of submissions, deletions, workers and shutdown a job is never lost or
  renamed: its identity (id, operation, document, revision, content hash, creation time) stays, its
  status only moves forward through queued, chunking, embedding, publishing, and once it is ready,
  failed, superseded or cancelled the record never changes again. Each unfinished job has at most
  one executor, counting the queue, and no executor ever looks up a job that does not exist.\<close>
theorem job_lifecycle:
  assumes "coord_reachable D b0 s0 s ts" and "deps_ok D s0" and "coord_step D s ts s' ts'"
  shows "(\<forall>i j. job_at s i = Some j \<longrightarrow> (\<exists>j'. job_at s' i = Some j' \<and> identity j' = identity j \<and>
            status_rank (job_status j) \<le> status_rank (job_status j') \<and> (terminal (job_status j) \<longrightarrow> j' = j))) \<and>
         distinct (co_queue s' @ concat (map task_ids ts')) \<and> T_crashed \<notin> set ts'"
proof -
  have inv: "coord_inv D s ts" by (rule reachable_inv [OF assms(1,2)])
  have "progresses s s'" by (rule step_progresses [OF assms(3) inv])
  then have "\<forall>i j. job_at s i = Some j \<longrightarrow> (\<exists>j'. job_at s' i = Some j' \<and> identity j' = identity j \<and>
            status_rank (job_status j) \<le> status_rank (job_status j') \<and> (terminal (job_status j) \<longrightarrow> j' = j))"
    unfolding progresses_def advances_def by (metis order_refl)
  moreover have "coord_inv D s' ts'" by (rule coord_step_inv [OF assms(3) inv])
  ultimately show ?thesis by (simp add: coord_inv_def)
qed

definition sample_deps :: "(embedded_backend, ingestion_job list) deps" where
  "sample_deps =
     \<lparr>d_activate = activate sample_fp, d_erase = erase sample_fp,
      d_persist = (\<lambda>j js. (Inr (), js @ [j])), d_load_latest = Inr,
      d_prepare = (\<lambda>inp. if in_document inp = ''d'' then Inr (sample_document [] 0x3F800000)
                          else fail Errc_invalid_argument []), d_embed = None,
      d_system_ms = int, d_steady = (\<lambda>n. n), d_order = (\<lambda>ids. ids), d_workers = 1, d_queue_capacity = 2\<rparr>"

definition sample_start :: "(embedded_backend, ingestion_job list) coordinator" where
  "sample_start = \<lparr>co_backend = sample_backend, co_store = [], co_ticks = 0, co_sequence = 0,
     co_ready_calls = 0, co_stopping = False, co_queue = [], co_jobs = [],
     co_latest_revision = [], co_latest_job = []\<rparr>"

definition sample_input :: ingestion_input where
  "sample_input = \<lparr>in_document = ''d'', in_title = ''t'', in_content = ''x'', in_metadata = []\<rparr>"

definition sample_queued :: "(embedded_backend, ingestion_job list) coordinator" where
  "sample_queued = snd (submit sample_deps sample_input True sample_start)"

definition sample_id :: string where "sample_id = make_id 0 0"

definition sample_queued_job :: ingestion_job where
  "sample_queued_job =
     \<lparr>job_id = sample_id, job_operation = Op_upsert, job_input = sample_input, job_revision = 1,
      job_content_hash = document_content_hash ''t'' ''x'' [], job_status = Job_queued,
      job_created_at_ms = 1, job_updated_at_ms = 1, job_error = None, job_prepared = None,
      job_mutation_applied = None\<rparr>"

lemma sample_open: "coordinator_open sample_deps sample_backend [] = Inr sample_start"
  by (simp add: coordinator_open_def sample_deps_def recover_def recover_load_def active_ready_def sample_start_def)

lemma sample_deps_ok: "deps_ok sample_deps []"
  by (simp add: deps_ok_def sample_deps_def)

lemma sample_submitted:
  "submit sample_deps sample_input True sample_start =
     (S_return \<lparr>su_job = sample_queued_job, su_unchanged = False, su_existing_pending = False\<rparr>,
      sample_start\<lparr>co_store := [sample_queued_job], co_ticks := 2, co_sequence := 1, co_queue := [sample_id],
        co_jobs := [(sample_id, sample_queued_job)], co_latest_revision := [(''d'', 1)],
        co_latest_job := [(''d'', sample_id)]\<rparr>)"
proof -
  have "normalize_source_text ''x'' = ''x''" by code_simp
  then show ?thesis
    by (simp add: submit_def sample_input_def submit_region_def sample_start_def submit_create_def new_job_def
        next_job_id_def now_ms_def register_def persist_def supersede_older_def put_memory_def sample_deps_def
        latest_revision_def sample_queued_job_def sample_id_def make_id_def Let_def)
qed

lemma sample_queued_value:
  "sample_queued = \<lparr>co_backend = sample_backend, co_store = [sample_queued_job], co_ticks = 2, co_sequence = 1,
     co_ready_calls = 0, co_stopping = False, co_queue = [sample_id], co_jobs = [(sample_id, sample_queued_job)],
     co_latest_revision = [(''d'', 1)], co_latest_job = [(''d'', sample_id)]\<rparr>"
  unfolding sample_queued_def sample_submitted by (simp add: sample_start_def)

theorem job_lifecycle_witness:
  "\<exists>s'. coord_step sample_deps sample_queued [] s' [T_begin sample_id] \<and> distinct (co_queue s' @ [sample_id]) \<and>
     job_at s' sample_id \<noteq> None"
proof -
  have r0: "coord_reachable sample_deps sample_backend [] sample_start []" by (rule opened [OF sample_open])
  have st: "coord_step sample_deps sample_start [] sample_queued ([] @ spawned
      (S_return \<lparr>su_job = sample_queued_job, su_unchanged = False, su_existing_pending = False\<rparr>))"
    by (rule submits [of _ sample_input True]) (simp add: sample_submitted sample_queued_def)
  have r1: "coord_reachable sample_deps sample_backend [] sample_queued []"
    using steps [OF r0 st] by simp
  have w: "take_work sample_queued = Some (T_begin sample_id, sample_queued\<lparr>co_queue := []\<rparr>)"
    by (simp add: take_work_def sample_queued_value)
  have s2: "coord_step sample_deps sample_queued [] (sample_queued\<lparr>co_queue := []\<rparr>) ([] @ [T_begin sample_id])"
    by (rule works [OF w])
  from job_lifecycle [OF r1 sample_deps_ok s2] s2 show ?thesis
    by (intro exI [of _ "sample_queued\<lparr>co_queue := []\<rparr>"]) (auto simp: sample_queued_value)
qed

end
