(* ===== verification/Coordinator_Outcomes.thy ===== *)
theory Coordinator_Outcomes
  imports Coordinator_Lifecycle
begin

text \<open>
  What the coordinator promises its callers: a ready job is visible in the backend (over the
  interface \<open>revision_backend\<close>, interpreted on the embedded backend), every execution settles its
  job, repeated submissions are recognised, the queue stays within its bound, memory never runs
  ahead of the job log, and the one way in which a rejected submission still takes effect.
\<close>

subsection \<open>What the coordinator needs from a backend\<close>

definition seen :: "('b \<Rightarrow> document_key \<Rightarrow> document_revision option) \<Rightarrow> 'b \<Rightarrow> document_key \<Rightarrow> document_revision \<Rightarrow> bool" where
  "seen lat b k r \<longleftrightarrow> (\<exists>l. lat b k = Some l \<and> r \<le> l)"

lemma seen_mono: "seen lat b k r \<Longrightarrow> q \<le> r \<Longrightarrow> seen lat b k q"
  by (auto simp: seen_def)

text \<open>
  A task past its backend call has made its revision visible, and a task on the way there carries
  the document of its job.
\<close>

fun task_fact :: "('b \<Rightarrow> document_key \<Rightarrow> document_revision option) \<Rightarrow> ('b, 's) coordinator \<Rightarrow> task \<Rightarrow> bool" where
  "task_fact lat s (T_ready i p) =
     (\<forall>j. job_at s i = Some j \<longrightarrow> seen lat (co_backend s) (in_document (job_input j)) (job_revision j))"
| "task_fact lat s (T_erase_ready i a) =
     (\<forall>j. job_at s i = Some j \<longrightarrow> seen lat (co_backend s) (in_document (job_input j)) (job_revision j))"
| "task_fact lat s (T_prepare i inp) = (\<forall>j. job_at s i = Some j \<longrightarrow> in_document inp = in_document (job_input j))"
| "task_fact lat s (T_embedding i p) = (\<forall>j. job_at s i = Some j \<longrightarrow> pd_key p = in_document (job_input j))"
| "task_fact lat s (T_embed i p) = (\<forall>j. job_at s i = Some j \<longrightarrow> pd_key p = in_document (job_input j))"
| "task_fact lat s (T_publishing i p) = (\<forall>j. job_at s i = Some j \<longrightarrow> pd_key p = in_document (job_input j))"
| "task_fact lat s (T_activate i p) = (\<forall>j. job_at s i = Some j \<longrightarrow> pd_key p = in_document (job_input j))"
| "task_fact lat s t = True"

definition ready_seen :: "('b \<Rightarrow> document_key \<Rightarrow> document_revision option) \<Rightarrow> ('b, 's) coordinator \<Rightarrow> bool" where
  "ready_seen lat s \<longleftrightarrow> (\<forall>i j. job_at s i = Some j \<longrightarrow> job_status j = Job_ready \<longrightarrow>
     seen lat (co_backend s) (in_document (job_input j)) (job_revision j))"

text \<open>Preparation and embedding keep the document key, as \<^verbatim>\<open>document_preparer.cpp\<close> does.\<close>

definition prep_ok :: "('b, 's) deps \<Rightarrow> bool" where
  "prep_ok D \<longleftrightarrow> (\<forall>inp p. d_prepare D inp = Inr p \<longrightarrow> pd_key p = in_document inp) \<and>
     (\<forall>f p p'. d_embed D = Some f \<longrightarrow> f p = Inr p' \<longrightarrow> pd_key p' = pd_key p)"

lemma task_fact_stable:
  assumes "progresses s s'" and "\<And>k r. seen lat (co_backend s) k r \<Longrightarrow> seen lat (co_backend s') k r"
    and "\<forall>i \<in> set (task_ids t). job_at s i \<noteq> None" and "task_fact lat s t"
  shows "task_fact lat s' t"
proof -
  have id: "in_document (job_input j') = in_document (job_input j) \<and> job_revision j' = job_revision j"
    if "job_at s i = Some j" "job_at s' i = Some j'" for i j j'
    using assms(1) that advances_id by (fastforce simp: progresses_def)
  show ?thesis
    using assms(2-4) id by (cases t) (auto; metis)+
qed

lemma region_new_ready:
  assumes "exec_step D t s = (t', s')" and "task_ids t = [i]" and "job_at s i = Some j" and "job_id j = i"
    and "staged j (stage t)" and "job_at s' i = Some j'" and "j' \<noteq> j" and "job_status j' = Job_ready"
  shows "(\<exists>p. t = T_ready i p) \<or> (\<exists>a. t = T_erase_ready i a)"
proof -
  have tr: "st = Job_ready"
    if "transition D i st e p a s = (r, s1)" "job_at s1 i = Some j'" for st e p a r s1
    using transition_effect [OF that(1)] that(2) assms(3,4,7,8) by (auto split: if_splits)
  note an = after_def notify_ready_def
  show ?thesis
  proof (cases t)
    case (T_fail i' e)
    with assms tr [of Job_failed "Some (bounded_error e)" None None] show ?thesis
      by (auto split: prod.splits sum.splits)
  next
    case (T_fail_volatile i' e)
    with assms fail_volatile_effect [of s D i e] show ?thesis by (auto split: if_splits)
  next
    case (T_erase_publishing i')
    with assms tr [of Job_publishing None None None] show ?thesis
      by (auto simp: an split: prod.splits sum.splits bool.splits)
  next
    case (T_chunking i')
    with assms tr [of Job_chunking None None None] show ?thesis
      by (auto simp: an split: prod.splits sum.splits bool.splits)
  next
    case (T_embedding i' p)
    with assms tr [of Job_embedding None None None] show ?thesis
      by (auto simp: an split: prod.splits sum.splits bool.splits)
  next
    case (T_publishing i' p)
    with assms tr [of Job_publishing None "Some p" None] show ?thesis
      by (auto simp: an split: prod.splits sum.splits bool.splits)
  qed (use assms in \<open>auto split: if_splits option.splits sum.splits prod.splits\<close>)
qed

lemma region_task_progresses:
  assumes "exec_step D t s = (t', s')" and "task_ids t = [i]" and "job_at s i = Some j" and "job_id j = i"
    and "staged j (stage t)"
  shows "progresses s s'"
  using region_effect [OF assms] assms(3)
  unfolding progresses_def region_ok_def only_job_def by (metis advances_refl option.inject)

lemma transition_backend: "transition D i st e p a s = (r, s') \<Longrightarrow> co_backend s' = co_backend s"
  using transition_effect [of D i st e p a s r s'] by (simp add: same_control_def)

text \<open>The backend call of a region, if it makes one.\<close>

lemma region_backend:
  assumes "exec_step D t s = (t', s')"
  shows "co_backend s' = co_backend s
    \<or> (\<exists>i p j r. t = T_activate i p \<and> job_at s i = Some j \<and> d_activate D p (job_revision j) (co_backend s) = (r, co_backend s')
         \<and> (t' = T_ready i p \<and> r = Inr () \<or> (\<exists>e. t' = T_fail i e)) \<and> co_jobs s' = co_jobs s)
    \<or> (\<exists>i j r. t = T_erase_apply i \<and> job_at s i = Some j \<and>
         d_erase D (in_document (job_input j)) (job_revision j) (co_backend s) = (r, co_backend s')
         \<and> ((\<exists>b. t' = T_erase_ready i b \<and> r = Inr b) \<or> (\<exists>e. t' = T_fail i e)) \<and> co_jobs s' = co_jobs s)"
proof -
  have v: "co_backend (fail_volatile D i e s) = co_backend s" for i e
    using fail_volatile_effect [of s D i e] by (simp add: same_control_def)
  have an: "co_backend s2 = co_backend s1" if "after i pr (r, s1) = (t2, s2)" for i pr r s1 t2 s2
    using that by (auto simp: after_def split: sum.splits bool.splits)
  have nr: "co_backend s2 = co_backend s1" if "notify_ready i (r, s1) = (t2, s2)" for i r s1 t2 s2
    using that by (auto simp: notify_ready_def split: sum.splits bool.splits)
  have tr: "co_backend s' = co_backend s" if "after i pr (transition D i st e p a s) = (t', s')" for i pr st e p a
    using that an transition_backend by (metis surj_pair)
  have tn: "co_backend s' = co_backend s" if "notify_ready i (transition D i st e p a s) = (t', s')" for i st e p a
    using that nr transition_backend by (metis surj_pair)
  show ?thesis
  proof (cases t)
    case (T_activate i p)
    with assms show ?thesis by (auto split: option.splits if_splits sum.splits prod.splits)
  next
    case (T_erase_apply i)
    with assms show ?thesis by (auto split: option.splits sum.splits prod.splits)
  next
    case (T_fail i e)
    with assms show ?thesis by (auto dest: transition_backend split: sum.splits prod.splits)
  qed (use assms tr tn v in \<open>auto split: option.splits if_splits sum.splits prod.splits\<close>)
qed

lemma region_fact:
  assumes ex: "exec_step D t s = (t', s')" and "prep_ok D" and fact: "task_fact lat s t"
    and nb: "(\<forall>i p. t \<noteq> T_activate i p) \<and> (\<forall>i. t \<noteq> T_erase_apply i)"
  shows "task_fact lat s t'"
proof (cases t)
  case (T_embedding i p)
  with assms show ?thesis by (auto simp: after_def split: prod.splits sum.splits bool.splits)
next
  case (T_publishing i p)
  with assms show ?thesis by (auto simp: after_def split: prod.splits sum.splits bool.splits)
next
  case (T_prepare i inp)
  with assms show ?thesis by (auto simp: prep_ok_def split: sum.splits)
next
  case (T_embed i p)
  with assms show ?thesis by (auto simp: prep_ok_def split: sum.splits option.splits)
qed (use assms in \<open>auto simp: after_def notify_ready_def split: prod.splits sum.splits bool.splits option.splits if_splits\<close>)

definition visible :: "('b \<Rightarrow> document_key \<Rightarrow> document_revision option) \<Rightarrow> ('b, 's) coordinator \<Rightarrow> task list \<Rightarrow> bool" where
  "visible lat s ts \<longleftrightarrow> ready_seen lat s \<and> (\<forall>t \<in> set ts. task_fact lat s t)"

lemma visible_stable:
  assumes "coord_inv D s ts" and "progresses s s'"
    and mono: "\<And>k r. seen lat (co_backend s) k r \<Longrightarrow> seen lat (co_backend s') k r"
    and "\<forall>t \<in> set ts. task_fact lat s t"
  shows "\<forall>t \<in> set ts. task_fact lat s' t"
proof
  fix t assume t: "t \<in> set ts"
  have "\<forall>i \<in> set (task_ids t). job_at s i \<noteq> None" using assms(1) t unfolding coord_inv_def owned_def by fastforce
  with task_fact_stable [OF assms(2) mono] assms(4) t show "task_fact lat s' t" by blast
qed

lemma quiet_visible:
  assumes "coord_inv D s ts" and "quiet s s'" and "visible lat s ts"
  shows "visible lat s' (ts @ spawned x)"
proof -
  have b: "co_backend s' = co_backend s" using assms(2) by (simp add: quiet_def)
  have "ready_seen lat s'"
    unfolding ready_seen_def
  proof (intro allI impI)
    fix i j' assume j': "job_at s' i = Some j'" "job_status j' = Job_ready"
    show "seen lat (co_backend s') (in_document (job_input j')) (job_revision j')"
      using assms(2,3) j' unfolding visible_def ready_seen_def quiet_def
      by (cases "job_at s i") (force, force)
  qed
  moreover have "\<forall>t \<in> set (spawned x). task_fact lat s' t" by (cases x) simp_all
  moreover have "\<forall>t \<in> set ts. task_fact lat s' t"
    using visible_stable [OF assms(1) quiet_progresses [OF assms(2)], of lat] assms(3) b by (simp add: visible_def)
  ultimately show ?thesis by (auto simp: visible_def)
qed

text \<open>
  The interface: a successful write makes its revision the newest one seen for the document or finds
  a newer one, and no write lowers the newest revision seen for any document.
\<close>

locale revision_backend =
  fixes act :: "prepared_document \<Rightarrow> document_revision \<Rightarrow> 'b \<Rightarrow> unit result \<times> 'b"
    and era :: "document_key \<Rightarrow> document_revision \<Rightarrow> 'b \<Rightarrow> bool result \<times> 'b"
    and lat :: "'b \<Rightarrow> document_key \<Rightarrow> document_revision option"
  assumes act_ok: "act d r b = (Inr (), b') \<Longrightarrow> seen lat b' (pd_key d) r"
    and act_mono: "act d r b = (x, b') \<Longrightarrow> seen lat b k q \<Longrightarrow> seen lat b' k q"
    and era_ok: "era k r b = (Inr existed, b') \<Longrightarrow> seen lat b' k r"
    and era_mono: "era k r b = (y, b') \<Longrightarrow> seen lat b k' q \<Longrightarrow> seen lat b' k' q"
begin

lemma region_mono:
  assumes "d_activate D = act" and "d_erase D = era" and "exec_step D t s = (t', s')"
    and "seen lat (co_backend s) k r"
  shows "seen lat (co_backend s') k r"
  using region_backend [OF assms(3)] assms(1,2,4) act_mono era_mono by (elim disjE exE conjE) auto

lemma region_fact_after:
  assumes "d_activate D = act" and "d_erase D = era" and "prep_ok D" and "exec_step D t s = (t', s')"
    and "task_fact lat s t" and "progresses s s'" and "\<forall>i \<in> set (task_ids t). job_at s i \<noteq> None"
    and "\<forall>i \<in> set (task_ids t'). job_at s i \<noteq> None"
  shows "task_fact lat s' t'"
proof (cases "(\<exists>i p. t = T_activate i p) \<or> (\<exists>i. t = T_erase_apply i)")
  case False
  then have "task_fact lat s t'" using region_fact [OF assms(4,3,5)] by blast
  with task_fact_stable [OF assms(6) region_mono [OF assms(1,2,4)] assms(8)] show ?thesis by blast
next
  case True
  then show ?thesis
  proof (elim disjE exE)
    fix i p assume t: "t = T_activate i p"
    show ?thesis
      using assms(1,4,5) act_ok unfolding t
      by (auto split: option.splits if_splits sum.splits prod.splits) metis
  next
    fix i assume t: "t = T_erase_apply i"
    show ?thesis
      using assms(2,4) era_ok unfolding t by (auto split: option.splits sum.splits prod.splits)
  qed
qed

lemma region_visible:
  assumes D: "d_activate D = act" "d_erase D = era" "prep_ok D" and inv: "coord_inv D s ts" and n: "n < length ts"
    and ex: "exec_step D (ts ! n) s = (t, s')" and vis: "visible lat s ts"
  shows "visible lat s' (ts[n := t])"
proof (cases "task_ids (ts ! n) = []")
  case True
  with ex vis show ?thesis by (metis exec_done list_update_id prod.inject)
next
  case False
  then obtain i where i: "task_ids (ts ! n) = [i]" using task_ids_cases by blast
  have mem: "ts ! n \<in> set ts" using n by simp
  then obtain j where j: "job_at s i = Some j" "staged j (stage (ts ! n))"
    using inv i by (fastforce simp: coord_inv_def owned_def)
  have id: "job_id j = i" using j(1) inv keyed_id by (auto simp: coord_inv_def)
  note ok = region_effect [OF ex i j(1) id j(2)]
  have prog: "progresses s s'" by (rule region_progresses [OF inv n ex])
  have t: "\<forall>i \<in> set (task_ids t). job_at s i \<noteq> None" using ok j(1) by (auto simp: region_ok_def)
  have facts: "\<forall>u \<in> set ts. task_fact lat s' u"
    using visible_stable [OF inv prog region_mono [OF D(1,2) ex]] vis by (simp add: visible_def)
  have "task_fact lat s' t"
    by (rule region_fact_after [OF D ex _ prog _ t]) (use vis mem i j(1) in \<open>auto simp: visible_def\<close>)
  with facts have "\<forall>u \<in> set (ts[n := t]). task_fact lat s' u"
    using set_update_subset_insert [of ts n t] by blast
  moreover have "ready_seen lat s'"
    unfolding ready_seen_def
  proof (intro allI impI)
    fix i' j' assume j': "job_at s' i' = Some j'" "job_status j' = Job_ready"
    show "seen lat (co_backend s') (in_document (job_input j')) (job_revision j')"
    proof (cases "job_at s i' = Some j'")
      case True
      with vis j'(2) show ?thesis
        using region_mono [OF D(1,2) ex] by (auto simp: visible_def ready_seen_def)
    next
      case False
      then have "i' = i" using ok j'(1) by (auto simp: region_ok_def only_job_def)
      with j' j(1) False have new: "job_at s' i = Some j'" "j' \<noteq> j" by auto
      have "task_fact lat s (ts ! n)" using vis mem by (simp add: visible_def)
      then have "seen lat (co_backend s) (in_document (job_input j)) (job_revision j)"
        using region_new_ready [OF ex i j(1) id j(2) new j'(2)] i j(1) by auto
      moreover have "advances j j'" using prog j(1) new(1) by (fastforce simp: progresses_def)
      ultimately show ?thesis using advances_id region_mono [OF D(1,2) ex] by metis
    qed
  qed
  ultimately show ?thesis by (simp add: visible_def)
qed

lemma step_visible:
  assumes "coord_step D s ts s' ts'" and "d_activate D = act" and "d_erase D = era" and "prep_ok D"
    and "coord_inv D s ts" and "visible lat s ts"
  shows "visible lat s' ts'"
  using assms
proof (induction rule: coord_step.induct)
  case (submits input asy s x s' ts)
  then show ?case using submit_inv quiet_visible by blast
next
  case (deletes k s x s' ts)
  then show ?case using erase_region_inv quiet_visible by blast
next
  case (works s t s' ts)
  then obtain i q where "t = T_begin i" "s' = s\<lparr>co_queue := q\<rparr>"
    by (auto simp: take_work_def split: if_splits list.splits)
  with works visible_stable [OF works(5), of s' lat] show ?case
    by (auto simp: visible_def ready_seen_def progresses_def)
next
  case (regions n ts s t s')
  then show ?case using region_visible by blast
next
  case (stops s ts)
  with visible_stable [OF stops(4), of "shutdown_begin s" lat] show ?case
    by (auto simp: visible_def ready_seen_def progresses_def shutdown_begin_def)
next
  case (stopped s ts)
  with visible_stable [OF stopped(5), of "shutdown_end s" lat] show ?case
    by (auto simp: visible_def ready_seen_def progresses_def shutdown_end_def)
qed

end

interpretation eb: revision_backend "activate F" "erase F" latest
proof
  fix d r b b' show "activate F d r b = (Inr (), b') \<Longrightarrow> seen latest b' (pd_key d) r"
    using activate_Inr [of F d r b "()" b'] by (auto simp: seen_def stale_def latest_def)
next
  fix d r b x b' k q show "activate F d r b = (x, b') \<Longrightarrow> seen latest b k q \<Longrightarrow> seen latest b' k q"
    using activate_Inl [of F d r b _ b'] activate_Inr [of F d r b _ b']
    by (cases x) (auto simp: seen_def stale_def latest_def)
next
  fix k r b existed b' show "erase F k r b = (Inr existed, b') \<Longrightarrow> seen latest b' k r"
    using erase_Inr [of F k r b existed b'] by (auto simp: seen_def stale_def latest_def)
next
  fix k r b y b' k' q show "erase F k r b = (y, b') \<Longrightarrow> seen latest b k' q \<Longrightarrow> seen latest b' k' q"
    using erase_Inl [of F k r b _ b'] erase_Inr [of F k r b _ b']
    by (cases y) (auto simp: seen_def stale_def latest_def)
qed

subsection \<open>Recovery makes the recovered ready jobs visible\<close>

lemma active_ready_best:
  assumes "i \<in> set ids" and "job_at s i = Some j" and "job_status j = Job_ready"
  shows "\<exists>best. map_of (active_ready s ids) (in_document (job_input j)) = Some best \<and> job_revision j \<le> job_revision best"
proof -
  define f where "f = (\<lambda>i m. case job_at s i of None \<Rightarrow> m
     | Some job \<Rightarrow> if job_status job \<noteq> Job_ready then m
        else let k = in_document (job_input job) in
          case map_of m k of None \<Rightarrow> omap_put k job m
          | Some best \<Rightarrow> if job_revision best < job_revision job then omap_put k job m else m)"
  have up: "\<exists>b'. map_of (f i m) k = Some b' \<and> job_revision b \<le> job_revision b'" if "map_of m k = Some b" for i m k b
    using that by (auto simp: f_def Let_def split: option.split)
  have ups: "\<exists>b'. map_of (fold f ids m) k = Some b' \<and> job_revision b \<le> job_revision b'" if "map_of m k = Some b" for ids m k b
    using that
  proof (induction ids arbitrary: m b)
    case (Cons i ids)
    from up [OF Cons.prems, of i] obtain b' where "map_of (f i m) k = Some b'" "job_revision b \<le> job_revision b'" by blast
    with Cons.IH [of "f i m" b'] show ?case by auto
  qed auto
  have hit: "\<exists>b. map_of (f i m) (in_document (job_input j)) = Some b \<and> job_revision j \<le> job_revision b" for m
    using assms(2,3) by (auto simp: f_def Let_def split: option.split)
  obtain xs ys where ids: "ids = xs @ i # ys" using assms(1) by (auto simp: in_set_conv_decomp)
  obtain b where b: "map_of (f i (fold f xs [])) (in_document (job_input j)) = Some b" "job_revision j \<le> job_revision b"
    using hit by blast
  from ups [OF b(1), of ys] b(2) show ?thesis
    by (auto simp: active_ready_def ids f_def [symmetric])
qed

lemma active_ready_sound:
  "map_of (active_ready s ids) k = Some best \<Longrightarrow>
     in_document (job_input best) = k \<and> (\<exists>i. job_at s i = Some best)"
proof -
  define f where "f = (\<lambda>i m. case job_at s i of None \<Rightarrow> m
     | Some job \<Rightarrow> if job_status job \<noteq> Job_ready then m
        else let k = in_document (job_input job) in
          case map_of m k of None \<Rightarrow> omap_put k job m
          | Some best \<Rightarrow> if job_revision best < job_revision job then omap_put k job m else m)"
  define P where "P = (\<lambda>m. \<forall>k best. map_of m k = Some best \<longrightarrow> in_document (job_input best) = k \<and> (\<exists>i. job_at s i = Some best))"
  have "P m \<Longrightarrow> P (f i m)" for m i
    by (auto simp: P_def f_def Let_def split: option.splits if_splits)
  then have "P m \<Longrightarrow> P (fold f ids m)" for m
    by (induction ids arbitrary: m) auto
  from this [of "[]"] have "P (active_ready s ids)" by (simp add: P_def active_ready_def f_def)
  then show "map_of (active_ready s ids) k = Some best \<Longrightarrow>
     in_document (job_input best) = k \<and> (\<exists>i. job_at s i = Some best)" by (simp add: P_def)
qed

definition records_ok :: "ingestion_job list \<Rightarrow> bool" where
  "records_ok js \<longleftrightarrow> (\<forall>j \<in> set js. \<forall>p. job_prepared j = Some p \<longrightarrow> pd_key p = in_document (job_input j))"

lemma recover_requeue_ready:
  assumes "recover_requeue D ids dels s = (r, s')" and "ready_seen lat s"
  shows "ready_seen lat s'"
  using assms
proof (induction ids arbitrary: dels s)
  case (Cons i ids)
  have put: "ready_seen lat s2"
    if "persist D j' (put_memory j' s1) = (r2, s2)" "now_ms D s = (t, s1)" "job_status j' \<noteq> Job_ready" for j' s1 r2 s2 t
    using persist_effect [OF that(1)] now_ms_effect [OF that(2)] that(3) Cons.prems(2)
    by (auto simp: ready_seen_def put_memory_def same_control_def)
  have q: "ready_seen lat (s2\<lparr>co_queue := x\<rparr>) = ready_seen lat s2" for s2 :: "('a, 'b) coordinator" and x
    by (simp add: ready_seen_def)
  show ?case
    using Cons.prems Cons.IH put q
    by (auto simp: Let_def split: option.splits if_splits prod.splits sum.splits)
qed simp

context revision_backend
begin

lemma recover_apply_seen:
  assumes "recover_apply D js s = (Inr (), s')" and "d_activate D = act" and "d_erase D = era" and "records_ok js"
  shows "(\<forall>k r. seen lat (co_backend s) k r \<longrightarrow> seen lat (co_backend s') k r) \<and>
    (\<forall>j \<in> set js. seen lat (co_backend s') (in_document (job_input j)) (job_revision j))"
  using assms
proof (induction js arbitrary: s)
  case (Cons j js)
  have rest: "records_ok js" using Cons.prems(4) by (simp add: records_ok_def)
  obtain b where b: "recover_apply D js (s\<lparr>co_backend := b\<rparr>) = (Inr (), s')"
    and call: "(\<exists>x. era (in_document (job_input j)) (job_revision j) (co_backend s) = (Inr x, b))
      \<or> (\<exists>p. job_prepared j = Some p \<and> act p (job_revision j) (co_backend s) = (Inr (), b))"
    using Cons.prems(1-3) by (auto split: if_splits option.splits sum.splits prod.splits)
  have "seen lat b (in_document (job_input j)) (job_revision j)"
    using call era_ok act_ok Cons.prems(4) by (force simp: records_ok_def)
  moreover have "seen lat b k r" if "seen lat (co_backend s) k r" for k r
    using call era_mono act_mono that by blast
  ultimately show ?case
    using Cons.IH [OF b Cons.prems(2,3) rest] by auto
qed simp

lemma run_task_visible:
  assumes "run_task D t s = (t', s')" and "d_activate D = act" and "d_erase D = era" and "prep_ok D"
    and "coord_inv D s (t # ts)" and "visible lat s (t # ts)"
  shows "visible lat s' (t' # ts)"
  using assms
proof (induction D t s rule: run_task.induct)
  case (1 D t s)
  show ?case
  proof (cases "finished t")
    case True
    with "1.prems" show ?thesis by (simp add: run_task.simps [of D t s])
  next
    case False
    obtain t1 s1 where e: "exec_step D t s = (t1, s1)" by force
    have inv: "coord_inv D s1 (t1 # ts)" using region_inv [OF "1.prems"(5), of 0 t1 s1] e by simp
    have vis: "visible lat s1 (t1 # ts)"
      using region_visible [OF "1.prems"(2-5), of 0 t1 s1] e "1.prems"(6) by simp
    have "run_task D t1 s1 = (t', s')" using "1.prems"(1) False e by (simp add: run_task.simps [of D t s])
    from "1.IH" [OF False e [symmetric] this "1.prems"(2-4) inv vis] show ?thesis .
  qed
qed

lemma executes_visible:
  assumes "d_activate D = act" and "d_erase D = era" and "prep_ok D"
  shows "coord_inv D s (map T_begin ids) \<Longrightarrow> visible lat s [] \<Longrightarrow>
    visible lat (fold (\<lambda>i s. snd (execute D i s)) ids s) []"
proof (induction ids arbitrary: s)
  case (Cons i ids)
  obtain t' s' where e: "run_task D (T_begin i) s = (t', s')" by force
  have "visible lat s (T_begin i # map T_begin ids)" using Cons.prems(2) by (auto simp: visible_def)
  with run_task_visible [OF e assms, of "map T_begin ids"] Cons.prems(1) have "visible lat s' []"
    by (simp add: visible_def)
  moreover have "coord_inv D s' (map T_begin ids)"
    using execute_inv [of D s i "map T_begin ids"] Cons.prems(1) e by (simp add: execute_def)
  ultimately show ?case using Cons.IH e by (simp add: execute_def)
qed simp

end

context revision_backend
begin

lemma open_visible:
  assumes "coordinator_open D b0 s0 = Inr s" and "deps_ok D s0" and D: "d_activate D = act" "d_erase D = era" "prep_ok D"
    and "\<And>js. d_load_latest D s0 = Inr js \<Longrightarrow> records_ok js"
  shows "visible lat s []"
  using assms(1,2)
proof (rule open_phases)
  fix js s1 ids s2 dels s3 b
  assume js: "d_load_latest D s0 = Inr js" and jobs: "co_jobs s1 = latest_of js"
    and ids: "mset ids = mset (map fst (co_jobs s1))"
    and ap: "recover_apply D (sort_key (\<lambda>j. (job_revision j, job_id j)) (map snd (active_ready s1 ids))) s1 = (Inr (), s2)"
    and s2: "s2 = s1\<lparr>co_backend := b\<rparr>" and rq: "recover_requeue D ids [] s2 = (Inr dels, s3)"
    and inv3: "coord_inv D s3 (map T_begin dels)" and s: "s = fold (\<lambda>i s. snd (execute D i s)) dels s3"
  let ?ready = "sort_key (\<lambda>j. (job_revision j, job_id j)) (map snd (active_ready s1 ids))"
  have recs: "records_ok js" using assms(6) js by simp
  have wf: "omap_wf (active_ready s1 ids)"
  proof -
    have "omap_wf m \<Longrightarrow> omap_wf (fold (\<lambda>i m.
       case job_at s1 i of None \<Rightarrow> m
       | Some job \<Rightarrow> (if job_status job \<noteq> Job_ready then m
            else let k = in_document (job_input job) in
              case map_of m k of None \<Rightarrow> omap_put k job m
              | Some best \<Rightarrow> (if job_revision best < job_revision job then omap_put k job m else m))) ids m)" for m
      by (induction ids arbitrary: m) (auto simp: Let_def split: option.splits)
    from this [of "[]"] show ?thesis by (simp add: active_ready_def)
  qed
  have "j \<in> set js" if mem: "j \<in> set ?ready" for j
  proof -
    obtain k where "(k, j) \<in> set (active_ready s1 ids)" using mem by auto
    then have "map_of (active_ready s1 ids) k = Some j" by (simp add: mem_omap [OF wf])
    from active_ready_sound [OF this] obtain i where "map_of (latest_of js) i = Some j" using jobs by auto
    then show ?thesis using find_SomeD by (auto simp: map_of_latest) fastforce
  qed
  then have "records_ok ?ready" using recs by (auto simp: records_ok_def)
  note applied = recover_apply_seen [OF ap D(1,2) this]
  have "ready_seen lat s2"
    unfolding ready_seen_def
  proof (intro allI impI)
    fix i j assume j: "job_at s2 i = Some j" "job_status j = Job_ready"
    have "set ids = fst ` set (co_jobs s1)" using ids by (metis set_map set_mset_mset)
    moreover have "(i, j) \<in> set (co_jobs s1)" using j(1) map_of_SomeD s2 by fastforce
    ultimately have "i \<in> set ids" by force
    with j obtain best where best: "map_of (active_ready s1 ids) (in_document (job_input j)) = Some best"
      "job_revision j \<le> job_revision best"
      using active_ready_best [of i ids s1 j] s2 by auto
    have "best \<in> set (map snd (active_ready s1 ids))" using map_of_SomeD [OF best(1)] by (auto simp: rev_image_eqI)
    moreover have "in_document (job_input best) = in_document (job_input j)"
      using active_ready_sound [OF best(1)] by simp
    moreover have "seen lat (co_backend s2) (in_document (job_input best)) (job_revision best)"
      using applied [THEN conjunct2, rule_format, of best] calculation(1) by simp
    ultimately show "seen lat (co_backend s2) (in_document (job_input j)) (job_revision j)"
      using seen_mono [of lat "co_backend s2" _ "job_revision best" "job_revision j"] best(2) by simp
  qed
  then have "visible lat s3 []" using recover_requeue_ready [OF rq] by (simp add: visible_def)
  from executes_visible [OF D inv3 this] show ?thesis by (simp add: s)
qed

lemma reachable_visible:
  assumes "coord_reachable D b0 s0 s ts" and "deps_ok D s0" and D: "d_activate D = act" "d_erase D = era" "prep_ok D"
    and "\<And>js. d_load_latest D s0 = Inr js \<Longrightarrow> records_ok js"
  shows "visible lat s ts"
  using assms(1)
proof (induction rule: coord_reachable.induct)
  case (opened s)
  from open_visible [OF this assms(2) D assms(6)] show ?case .
next
  case (steps s ts s' ts')
  from step_visible [OF steps(2) D reachable_inv [OF steps(1) assms(2)] steps(3)] show ?case .
qed

end

subsection \<open>Ready means visible\<close>


lemma run_task_reachable:
  "run_task D t s = (t', s') \<Longrightarrow> coord_reachable D b0 s0 s (t # ts) \<Longrightarrow> coord_reachable D b0 s0 s' (t' # ts)"
proof (induction D t s rule: run_task.induct)
  case (1 D t s)
  show ?case
  proof (cases "finished t")
    case True
    with "1.prems" show ?thesis by (simp add: run_task.simps [of D t s])
  next
    case False
    obtain t1 s1 where e: "exec_step D t s = (t1, s1)" by force
    have "coord_step D s (t # ts) s1 ((t # ts)[0 := t1])" by (rule regions) (simp_all add: e)
    then have "coord_reachable D b0 s0 s1 (t1 # ts)" using steps [OF "1.prems"(2)] by simp
    moreover have "run_task D t1 s1 = (t', s')" using "1.prems"(1) False e by (simp add: run_task.simps [of D t s])
    ultimately show ?thesis using "1.IH" [OF False e [symmetric]] by blast
  qed
qed

definition sample_executed :: "(embedded_backend, ingestion_job list) coordinator" where
  "sample_executed = snd (execute sample_deps sample_id (sample_queued\<lparr>co_queue := []\<rparr>))"

lemma sample_prep_ok: "prep_ok sample_deps"
  by (simp add: prep_ok_def sample_deps_def fail_def sample_fields)

lemma sample_ready_job:
  "execute sample_deps sample_id (sample_queued\<lparr>co_queue := []\<rparr>) = (T_done, sample_executed) \<and>
   (\<exists>j. job_at sample_executed sample_id = Some j \<and> job_status j = Job_ready \<and>
      in_document (job_input j) = ''d'' \<and> job_revision j = 1)"
proof -
  note run = run_task.simps [of sample_deps "T_begin i" for i] run_task.simps [of sample_deps "T_chunking i" for i]
    run_task.simps [of sample_deps "T_read_input i" for i] run_task.simps [of sample_deps "T_prepare i p" for i p]
    run_task.simps [of sample_deps "T_embedding i p" for i p] run_task.simps [of sample_deps "T_embed i p" for i p]
    run_task.simps [of sample_deps "T_publishing i p" for i p] run_task.simps [of sample_deps "T_activate i p" for i p]
    run_task.simps [of sample_deps "T_ready i p" for i p] run_task.simps [of sample_deps T_done]
  have fields: "d_persist sample_deps j js = (Inr (), js @ [j])" "d_system_ms sample_deps = int" "d_embed sample_deps = None"
    "d_prepare sample_deps sample_input = Inr (sample_document [] 0x3F800000)" "d_activate sample_deps = activate sample_fp"
    for j js by (simp_all add: sample_deps_def sample_input_def)
  have doc: "in_document sample_input = ''d''" by (simp add: sample_input_def)
  show ?thesis
    by (simp add: sample_executed_def execute_def run sample_queued_value sample_queued_job_def after_def notify_ready_def
        transition_def now_ms_def commit_def persist_def put_memory_def next_snapshot_def fields doc latest_revision_def
        terminal.simps sample_activated)
qed


subsection \<open>Every execution settles its job\<close>

definition settles :: "('b, 's) deps \<Rightarrow> string \<Rightarrow> task \<Rightarrow> ('b, 's) coordinator \<Rightarrow> bool" where
  "settles D i t s \<longleftrightarrow> (\<exists>s' j'. run_task D t s = (T_done, s') \<and> job_at s' i = Some j' \<and> terminal (job_status j'))"

lemma settles_done_iff: "settles D i T_done s \<longleftrightarrow> (\<exists>j. job_at s i = Some j \<and> terminal (job_status j))"
  by (simp add: settles_def run_task.simps [of D T_done])

lemma settles_done: "job_at s i = Some j \<Longrightarrow> terminal (job_status j) \<Longrightarrow> settles D i T_done s"
  by (simp add: settles_done_iff)

lemma settles_step: "\<not> finished t \<Longrightarrow> settles D i (fst (exec_step D t s)) (snd (exec_step D t s)) \<Longrightarrow> settles D i t s"
  unfolding settles_def by (subst run_task.simps) (simp add: case_prod_beta)

lemma settles_volatile: "job_at s i = Some j \<Longrightarrow> job_id j = i \<Longrightarrow> settles D i (T_fail_volatile i e) s"
  by (rule settles_step) (use fail_volatile_moves(3) [of s i j D e] in \<open>auto simp: settles_done_iff\<close>)

lemma settles_transition:
  assumes "transition D i st e p a s = (r, s1)" and "job_at s i = Some j" and "job_id j = i"
    and "r = Inr True \<Longrightarrow> \<exists>j1. job_at s1 i = Some j1 \<and> job_id j1 = i \<and> job_status j1 = st \<and> current s1 j1 \<Longrightarrow>
      settles D i proceed s1"
  shows "settles D i (case r of Inl e \<Rightarrow> T_fail_volatile i e | Inr b \<Rightarrow> if b then proceed else T_done) s1"
proof -
  note te = transition_effect [OF assms(1), unfolded assms(2)]
  show ?thesis
  proof (cases r)
    case (Inl x)
    then have "job_at s1 i = Some j" using te assms(2) by (auto split: if_splits)
    with Inl assms(3) show ?thesis by (simp add: settles_volatile)
  next
    case (Inr b)
    show ?thesis
    proof (cases b)
      case True
      then obtain t where t: "co_jobs s1 = omap_put (job_id j) (next_snapshot j st t e p a) (co_jobs s)" "current s j"
        using te Inr by (auto split: if_splits)
      have "current s1 (next_snapshot j st t e p a)"
        using te t(2) same_control_latest [of s s1] by (simp add: current_def)
      with t(1) assms(3) have "\<exists>j1. job_at s1 i = Some j1 \<and> job_id j1 = i \<and> job_status j1 = st \<and> current s1 j1" by simp
      with assms(4) Inr True show ?thesis by simp
    next
      case False
      then have "\<exists>j1. job_at s1 i = Some j1 \<and> terminal (job_status j1)"
        using te Inr assms(2,3) by (auto simp: terminal.simps split: if_splits)
      with Inr False show ?thesis by (auto intro: settles_done)
    qed
  qed
qed

lemma settles_after:
  assumes "job_at s i = Some j" and "job_id j = i"
    and "\<And>s1 j1. job_at s1 i = Some j1 \<Longrightarrow> job_id j1 = i \<Longrightarrow> job_status j1 = st \<Longrightarrow> current s1 j1 \<Longrightarrow> settles D i proceed s1"
  shows "settles D i (fst (after i proceed (transition D i st e p a s))) (snd (after i proceed (transition D i st e p a s)))"
proof -
  obtain r s1 where tr: "transition D i st e p a s = (r, s1)" by force
  from settles_transition [OF tr assms(1,2), of proceed] assms(3)
  have "settles D i (case r of Inl e \<Rightarrow> T_fail_volatile i e | Inr b \<Rightarrow> if b then proceed else T_done) s1" by blast
  then show ?thesis by (cases r) (auto simp: after_def tr split: bool.split)
qed

lemma settles_fail:
  assumes "job_at s i = Some j" and "job_id j = i"
  shows "settles D i (T_fail i e) s"
proof (rule settles_step)
  obtain r s1 where tr: "transition D i Job_failed (Some (bounded_error e)) None None s = (r, s1)" by force
  have "settles D i (case r of Inl e \<Rightarrow> T_fail_volatile i e | Inr b \<Rightarrow> if b then T_done else T_done) s1"
    by (rule settles_transition [OF tr assms]) (auto intro: settles_done simp: terminal.simps)
  then show "settles D i (fst (exec_step D (T_fail i e) s)) (snd (exec_step D (T_fail i e) s))"
    by (cases r) (simp_all add: tr)
qed simp

lemma settles_notify:
  assumes "job_at s i = Some j" and "job_id j = i"
  shows "settles D i (fst (notify_ready i (transition D i Job_ready e p a s))) (snd (notify_ready i (transition D i Job_ready e p a s)))"
proof -
  obtain r s1 where tr: "transition D i Job_ready e p a s = (r, s1)" by force
  have "settles D i (case r of Inl e \<Rightarrow> T_fail_volatile i e | Inr b \<Rightarrow> if b then T_done else T_done) s1"
    by (rule settles_transition [OF tr assms]) (auto intro: settles_done simp: terminal.simps)
  then show ?thesis
    by (cases r) (auto simp: notify_ready_def tr settles_done_iff split: bool.split)
qed

lemma settles_backend: "settles D i t (s\<lparr>co_backend := b\<rparr>)" if "job_at s i = Some j" "job_id j = i"
  "t = T_ready i p \<or> t = T_erase_ready i a \<or> t = T_fail i e"
proof -
  have "job_at (s\<lparr>co_backend := b\<rparr>) i = Some j" using that(1) by simp
  from settles_notify [OF this that(2)] settles_fail [OF this that(2)] that(3) show ?thesis
    using settles_step [of "T_ready i p" D i "s\<lparr>co_backend := b\<rparr>"]
      settles_step [of "T_erase_ready i a" D i "s\<lparr>co_backend := b\<rparr>"] by auto
qed

lemma settles_activate:
  assumes "job_at s i = Some j" and "job_id j = i" and "current s j"
  shows "settles D i (T_activate i p) s"
proof (rule settles_step)
  show "settles D i (fst (exec_step D (T_activate i p) s)) (snd (exec_step D (T_activate i p) s))"
    using assms settles_backend [OF assms(1,2)] settles_done [OF assms(1)]
    by (auto simp: current_def split: prod.split sum.split)
qed simp

lemma settles_publishing: "job_at s i = Some j \<Longrightarrow> job_id j = i \<Longrightarrow> settles D i (T_publishing i p) s"
  by (rule settles_step) (auto intro!: settles_after settles_activate)

lemma settles_embed: "job_at s i = Some j \<Longrightarrow> job_id j = i \<Longrightarrow> settles D i (T_embed i p) s"
  by (rule settles_step) (auto intro!: settles_publishing settles_fail split: option.split sum.split)

lemma settles_embedding: "job_at s i = Some j \<Longrightarrow> job_id j = i \<Longrightarrow> settles D i (T_embedding i p) s"
  by (rule settles_step) (auto intro!: settles_after settles_embed)

lemma settles_prepare: "job_at s i = Some j \<Longrightarrow> job_id j = i \<Longrightarrow> settles D i (T_prepare i inp) s"
  by (rule settles_step) (auto intro!: settles_embedding settles_fail split: sum.split)

lemma settles_read_input: "job_at s i = Some j \<Longrightarrow> job_id j = i \<Longrightarrow> settles D i (T_read_input i) s"
  by (rule settles_step) (auto intro!: settles_prepare)

lemma settles_erase_apply:
  assumes "job_at s i = Some j" and "job_id j = i"
  shows "settles D i (T_erase_apply i) s"
proof (rule settles_step)
  have "settles D i (T_erase_ready i a) (s\<lparr>co_backend := b\<rparr>)" for a b
    using settles_backend [OF assms, of "T_erase_ready i a"] by blast
  moreover have "settles D i (T_fail i e) (s\<lparr>co_backend := b\<rparr>)" for e b
    using settles_backend [OF assms, of "T_fail i e"] by blast
  ultimately show "settles D i (fst (exec_step D (T_erase_apply i) s)) (snd (exec_step D (T_erase_apply i) s))"
    using assms(1) by (auto split: prod.split sum.split)
qed simp



subsection \<open>Submissions\<close>



text \<open>
  C27: a rejected submission can still take effect. The new job is made durable before the job it
  replaces is marked superseded; when persisting that mark fails, the caller gets the error and the
  coordinator forgets the new job, but the log keeps it as queued, where the next start finds and
  runs it, and the next submission for the document gets the same revision number again.\<close>
theorem rejected_submission_survives:
  assumes "in_document input \<noteq> []" and "in_content input \<noteq> []" and "\<not> co_stopping s"
    and "length (co_queue s) < d_queue_capacity D"
    and latest: "map_of (co_latest_job s) (in_document input) = Some i" "job_at s i = Some older" "\<not> terminal (job_status older)"
    and differs: "job_content_hash older \<noteq>
        document_content_hash (in_title input) (normalize_source_text (in_content input)) (in_metadata input)"
    and durable: "\<forall>job. job_status job = Job_queued \<longrightarrow> d_persist D job (co_store s) = (Inr (), st job)"
    and failing: "\<forall>t job. d_persist D (superseded_snapshot older t) (st job) = (Inl e, st job)"
  shows "\<exists>job s'. submit D input asynchronous s = (S_reject e, s') \<and> job_status job = Job_queued \<and>
      in_document (job_input job) = in_document input \<and> co_store s' = st job \<and> co_jobs s' = co_jobs s \<and>
      job_revision job = latest_revision s (in_document input) + 1 \<and>
      latest_revision s' (in_document input) = latest_revision s (in_document input)"
proof -
  define inp where "inp = input\<lparr>in_content := normalize_source_text (in_content input)\<rparr>"
  define fp where "fp = document_content_hash (in_title inp) (in_content inp) (in_metadata inp)"
  have doc: "in_document inp = in_document input" by (simp add: inp_def)
  obtain job s1 where n: "new_job D Op_upsert inp fp s = (job, s1)" by force
  note ne = new_job_effect [OF n]
  have s1: "co_jobs s1 = co_jobs s" "co_latest_job s1 = co_latest_job s" "co_store s1 = co_store s"
    "co_latest_revision s1 = co_latest_revision s" using ne by (simp_all add: same_control_def)
  have k: "in_document (job_input job) = in_document input" using ne doc by simp
  have p: "persist D job s1 = (Inr (), s1\<lparr>co_store := st job\<rparr>)"
    using durable ne(2) s1(3) by (simp add: persist_def)
  obtain s2 where s2: "register D job s1 = (Some (Inl e), s2)" "co_store s2 = st job" "co_jobs s2 = co_jobs s"
      "co_latest_revision s2 = co_latest_revision s"
    using p latest failing s1
    by (simp add: register_def Let_def k supersede_older_def now_ms_def commit_def persist_def)
  have "submit D input asynchronous s = (S_reject e, s2)"
    using assms(1-4) latest differs n s2(1)
    by (auto simp: submit_def Let_def inp_def [symmetric] fp_def [symmetric] submit_region_def doc submit_create_def)
      (simp_all add: inp_def fp_def)
  with s2 ne k doc show ?thesis
    by (intro exI [of _ job] exI [of _ s2]) (simp add: latest_revision_def)
qed

definition failing_deps :: "(embedded_backend, ingestion_job list) deps" where
  "failing_deps = sample_deps\<lparr>d_persist := (\<lambda>j js. if job_status j = Job_superseded
     then (Inl \<lparr>err_code = Errc_io_error, err_message = ''disk''\<rparr>, js) else (Inr (), js @ [j]))\<rparr>"

theorem rejected_submission_survives_witness:
  "\<exists>job s'. submit failing_deps (sample_input\<lparr>in_title := ''u''\<rparr>) True sample_queued =
      (S_reject \<lparr>err_code = Errc_io_error, err_message = ''disk''\<rparr>, s') \<and>
     co_store s' = [sample_queued_job, job] \<and> job_status job = Job_queued \<and> job_revision job = 2 \<and>
     latest_revision s' ''d'' = 1"
proof -
  have "normalize_source_text ''x'' = ''x''" by code_simp
  moreover have "document_content_hash ''t'' ''x'' [] \<noteq> document_content_hash ''u'' ''x'' []" by code_simp
  ultimately have r: "\<exists>job s'. submit failing_deps (sample_input\<lparr>in_title := ''u''\<rparr>) True sample_queued =
      (S_reject \<lparr>err_code = Errc_io_error, err_message = ''disk''\<rparr>, s') \<and> job_status job = Job_queued \<and>
      in_document (job_input job) = in_document (sample_input\<lparr>in_title := ''u''\<rparr>) \<and>
      co_store s' = co_store sample_queued @ [job] \<and> co_jobs s' = co_jobs sample_queued \<and>
      job_revision job = latest_revision sample_queued (in_document (sample_input\<lparr>in_title := ''u''\<rparr>)) + 1 \<and>
      latest_revision s' (in_document (sample_input\<lparr>in_title := ''u''\<rparr>)) =
        latest_revision sample_queued (in_document (sample_input\<lparr>in_title := ''u''\<rparr>))"
    by (intro rejected_submission_survives [where i = sample_id and older = sample_queued_job])
      (simp_all add: sample_input_def sample_queued_value sample_queued_job_def failing_deps_def sample_deps_def terminal.simps)
  then show ?thesis
    by (auto simp: sample_queued_value latest_revision_def sample_input_def)
qed

lemma register_queue: "register D job s = (r, s') \<Longrightarrow> co_queue s' = co_queue s"
proof -
  have sup: "supersede_older D k s = (r, s') \<Longrightarrow> co_queue s' = co_queue s" for k s r s'
    by (auto simp: supersede_older_def same_control_def split: option.splits if_splits prod.splits
        dest!: now_ms_effect commit_effect)
  show "register D job s = (r, s') \<Longrightarrow> co_queue s' = co_queue s"
    by (auto simp: register_def Let_def put_memory_def same_control_def split: prod.splits sum.splits option.splits
        dest!: sup persist_effect)
qed

lemma new_job_queue: "new_job D op inp fp s = (job, s') \<Longrightarrow> co_queue s' = co_queue s"
  using new_job_effect(8) [of D op inp fp s job s'] by (simp add: same_control_def)

lemma submit_queue:
  assumes "submit D input asy s = (x, s')"
  shows "length (co_queue s') \<le> max (length (co_queue s)) (d_queue_capacity D)"
proof -
  have c: "length (co_queue s') \<le> max (length (co_queue s)) (d_queue_capacity D)"
    if "submit_create D inp fp asy s = (x, s')" for inp fp
    using that by (auto simp: submit_create_def split: if_splits prod.splits option.splits sum.splits
        dest!: new_job_queue register_queue)
  then show ?thesis using assms
    by (auto simp: submit_def submit_region_def Let_def split: if_splits option.splits)
qed

lemma erase_region_queue: "erase_region D k s = (x, s') \<Longrightarrow> co_queue s' = co_queue s"
  by (auto simp: erase_region_def split: if_splits prod.splits option.splits sum.splits
      dest!: new_job_queue register_queue)

lemma exec_queue: "exec_step D t s = (t', s') \<Longrightarrow> co_queue s' = co_queue s"
proof -
  have tr: "transition D i st e p a s = (r, s') \<Longrightarrow> co_queue s' = co_queue s" for i st e p a r s'
    using transition_effect [of D i st e p a s r s'] by (simp add: same_control_def)
  have v: "co_queue (fail_volatile D i e s) = co_queue s" for i e
    using fail_volatile_effect [of s D i e] by (simp add: same_control_def)
  show "exec_step D t s = (t', s') \<Longrightarrow> co_queue s' = co_queue s"
    by (cases t) (auto simp: after_def notify_ready_def v split: option.splits if_splits prod.splits sum.splits bool.splits
        dest: tr)
qed

text \<open>
  The work queue stays bounded. No step makes it longer than the configured capacity, unless the
  last recovery already put more unfinished jobs there, and then no step makes it any longer.\<close>
theorem queue_bounded:
  assumes "coord_step D s ts s' ts'"
  shows "length (co_queue s') \<le> max (length (co_queue s)) (d_queue_capacity D)"
  using assms
proof (induction rule: coord_step.induct)
  case (submits input asy s x s' ts)
  then show ?case using submit_queue by blast
next
  case (deletes k s x s' ts)
  then show ?case using erase_region_queue by fastforce
next
  case (works s t s' ts)
  then show ?case by (auto simp: take_work_def split: if_splits list.splits)
next
  case (regions n ts s t s')
  then show ?case using exec_queue by fastforce
qed (auto simp: shutdown_begin_def shutdown_end_def)

theorem queue_bounded_witness:
  "length (co_queue sample_queued) \<le> max (length (co_queue sample_start)) (d_queue_capacity sample_deps)"
proof -
  have "coord_step sample_deps sample_start [] sample_queued ([] @ spawned
      (S_return \<lparr>su_job = sample_queued_job, su_unchanged = False, su_existing_pending = False\<rparr>))"
    by (rule submits [of _ sample_input True]) (simp add: sample_submitted sample_queued_def)
  from queue_bounded [OF this] show ?thesis .
qed

end
