(* ===== verification/Text_Chunker.thy ===== *)
theory Text_Chunker
  imports Core_Keys "HOL-Library.Sublist"
begin

text \<open>
  \<^verbatim>\<open>rag.cpp/src/text/chunker.cpp\<close>: the line-aware chunker. The body is normalised, cutoff into spans
  of at most one line that fit the token budget where one scalar value does, and the spans are
  gathered into chunks with an overlap. The token measurer is a field of the options, any function
  on byte strings. Loops over positions are functions with a measure; the chunk loop terminates
  because splitting a span lowers the weight of the spans still to come and the overlap never
  steps back to the start of the last chunk.
\<close>

unbundle bit_operations_syntax

subsection \<open>Options\<close>

datatype token_counting_mode = Count_exact | Count_conservative_utf8_bytes
datatype invalid_utf8_policy = Utf8_replace | Utf8_reject

record embedding_policy =
  ep_model_identity :: string
  ep_tokenizer_identity :: string
  ep_dimension :: nat
  ep_target_tokens :: nat
  ep_max_tokens :: nat
  ep_overlap_tokens :: nat
  ep_reserved_tokens :: nat
  ep_document_prefix :: string
  ep_query_prefix :: string
  ep_counting_mode :: token_counting_mode
  ep_invalid_utf8 :: invalid_utf8_policy

record chunk_options =
  ck_max_lines :: nat
  ck_max_chars :: nat
  ck_overlap_lines :: nat
  ck_heading_context :: bool
  ck_policy :: embedding_policy
  ck_measure_tokens :: "(string \<Rightarrow> nat) option"

record span =
  sp_text :: string
  sp_line :: u32

fun counting_mode_to_int :: "token_counting_mode \<Rightarrow> nat" where
  "counting_mode_to_int Count_exact = 0" | "counting_mode_to_int Count_conservative_utf8_bytes = 1"

fun invalid_utf8_to_int :: "invalid_utf8_policy \<Rightarrow> nat" where
  "invalid_utf8_to_int Utf8_replace = 0" | "invalid_utf8_to_int Utf8_reject = 1"

definition chunking_fingerprint :: "chunk_options \<Rightarrow> string" where
  "chunking_fingerprint o1 =
     (let p = ck_policy o1 in
      ''rag.cpp-structural-v2|'' @ to_dec (ck_max_lines o1) @ ''|'' @ to_dec (ck_max_chars o1) @ ''|''
      @ to_dec (ck_overlap_lines o1) @ ''|'' @ (if ck_heading_context o1 then ''1'' else ''0'') @ ''|''
      @ ep_tokenizer_identity p @ ''|'' @ to_dec (ep_target_tokens p) @ ''|'' @ to_dec (ep_max_tokens p)
      @ ''|'' @ to_dec (ep_overlap_tokens p) @ ''|'' @ to_dec (ep_reserved_tokens p) @ ''|''
      @ ep_document_prefix p @ ''|'' @ to_dec (counting_mode_to_int (ep_counting_mode p)) @ ''|''
      @ to_dec (invalid_utf8_to_int (ep_invalid_utf8 p)))"

subsection \<open>Measuring and cutting\<close>

definition count_tokens :: "string \<Rightarrow> chunk_options \<Rightarrow> nat" where
  "count_tokens tx opts = (case ck_measure_tokens opts of Some f \<Rightarrow> f tx | None \<Rightarrow> length tx)"

definition substr :: "string \<Rightarrow> nat \<Rightarrow> nat \<Rightarrow> string" where
  "substr tx pos n = take n (drop pos tx)"

definition utf8_width :: "char \<Rightarrow> nat" where
  "utf8_width ch =
     (let c = of_char ch :: u8 in
      if c < 0x80 then 1 else if c AND 0xE0 = 0xC0 then 2 else if c AND 0xF0 = 0xE0 then 3
      else if c AND 0xF8 = 0xF0 then 4 else 1)"

definition next_utf8 :: "string \<Rightarrow> nat \<Rightarrow> nat" where
  "next_utf8 tx pos =
     (if pos \<ge> length tx then length tx
      else
        let width = utf8_width (tx ! pos) in
        if pos + width > length tx then pos + 1
        else if \<exists>i \<in> set [1..<width]. (of_char (tx ! (pos + i)) :: u8) AND 0xC0 \<noteq> 0x80 then pos + 1
        else pos + width)"

definition sentence_boundary :: "char \<Rightarrow> bool" where
  "sentence_boundary c \<longleftrightarrow> c = CHR ''.'' \<or> c = CHR ''!'' \<or> c = CHR ''?'' \<or> c = CHR '';''"

definition soft_boundary :: "char \<Rightarrow> bool" where
  "soft_boundary c \<longleftrightarrow> is_space c \<or> c \<in> set '',:/}])-|''"

definition usable_limit :: "chunk_options \<Rightarrow> nat" where
  "usable_limit opts =
     (if ep_max_tokens (ck_policy opts) = 0 then max 1 (ck_max_chars opts)
      else if ep_reserved_tokens (ck_policy opts) \<ge> ep_max_tokens (ck_policy opts) then 1
      else ep_max_tokens (ck_policy opts) - ep_reserved_tokens (ck_policy opts))"

definition embedding_form :: "string \<Rightarrow> string \<Rightarrow> chunk_options \<Rightarrow> string" where
  "embedding_form ctx body opts =
     (let out = ep_document_prefix (ck_policy opts);
          out = (if out \<noteq> [] \<and> (ctx \<noteq> [] \<or> body \<noteq> []) then out @ [LF] else out);
          out = (if ctx \<noteq> [] then out @ ctx @ (if body \<noteq> [] then [LF] else []) else out)
      in out @ body)"

lemma next_utf8_gt: "pos < length tx \<Longrightarrow> pos < next_utf8 tx pos"
  by (auto simp: next_utf8_def utf8_width_def Let_def)

lemma next_utf8_le: "next_utf8 tx pos \<le> max pos (length tx)"
  by (auto simp: next_utf8_def Let_def)

text \<open>The scan of \<^verbatim>\<open>split_at\<close>: the last position that fits and the last boundaries before it.\<close>

function split_scan ::
    "chunk_options \<Rightarrow> string \<Rightarrow> string \<Rightarrow> nat \<Rightarrow> nat \<Rightarrow> nat \<Rightarrow> nat \<Rightarrow> nat \<Rightarrow> nat \<times> nat \<times> nat" where
  "split_scan opts ctx tx begin1 pos last_fit sentence soft =
     (if pos < length tx
      then
        let stop = next_utf8 tx pos in
        if count_tokens (embedding_form ctx (substr tx begin1 (stop - begin1)) opts) opts > usable_limit opts
        then (last_fit, sentence, soft)
        else
          let tail = tx ! (stop - 1) in
          split_scan opts ctx tx begin1 stop stop
            (if sentence_boundary tail then stop else sentence) (if soft_boundary tail then stop else soft)
      else (last_fit, sentence, soft))"
  by pat_completeness auto
termination
proof (relation "measure (\<lambda>(opts, ctx, tx, begin1, pos, l, st, sf). length tx - pos)", goal_cases)
  case 1
  show ?case by simp
next
  case (2 opts ctx tx begin1 pos l st sf stop tail)
  with next_utf8_gt [of pos tx] show ?case by auto
qed

declare split_scan.simps [simp del]

definition split_at :: "string \<Rightarrow> nat \<Rightarrow> string \<Rightarrow> chunk_options \<Rightarrow> nat" where
  "split_at tx begin1 ctx opts =
     (let (last_fit, sentence, soft) = split_scan opts ctx tx begin1 begin1 begin1 begin1 begin1 in
      if last_fit = length tx then last_fit
      else if sentence > begin1 then sentence
      else if soft > begin1 then soft
      else if last_fit > begin1 then last_fit else next_utf8 tx begin1)"

subsection \<open>Headings\<close>

definition heading_level :: "string \<Rightarrow> nat" where
  "heading_level line =
     (let i = length (takeWhile (\<lambda>c. c = CHR ''#'') line) in
      if i \<ge> 1 \<and> i \<le> 6 \<and> i < length line \<and> line ! i = CHR '' '' then i else 0)"

definition drop_back :: "(char \<Rightarrow> bool) \<Rightarrow> string \<Rightarrow> string" where
  "drop_back P s = rev (dropWhile P (rev s))"

definition heading_text :: "string \<Rightarrow> string" where
  "heading_text line =
     drop_back (\<lambda>c. c = CHR '' '' \<or> c = CHR ''#'') (dropWhile (\<lambda>c. c = CHR ''#'' \<or> c = CHR '' '') line)"

text \<open>Slots 1 to 6 of the seven headings hold the open heading of each level.\<close>

definition note_heading :: "string list \<Rightarrow> string \<Rightarrow> string list" where
  "note_heading headings line =
     (let level = heading_level line in
      if level > 0
      then fold (\<lambda>deeper hs. hs[deeper := []]) [level + 1..<7] (headings[level := heading_text line])
      else headings)"

definition heading_separator :: string where
  "heading_separator = [CHR '' '', CHR 0xE2, CHR 0x80, CHR 0xBA, CHR '' '']"

definition breadcrumb :: "string list \<Rightarrow> string" where
  "breadcrumb headings =
     fold (\<lambda>level ctx.
       if headings ! level = [] then ctx
       else (if ctx \<noteq> [] then ctx @ heading_separator else ctx) @ headings ! level)
       [1..<7] []"

subsection \<open>Normalisation\<close>

definition utf8_replacement :: string where
  "utf8_replacement = [CHR 0xEF, CHR 0xBF, CHR 0xBD]"

text \<open>\<open>None\<close> is \<open>valid = false\<close>.\<close>

function normalize_loop :: "chunk_options \<Rightarrow> string \<Rightarrow> nat \<Rightarrow> string \<Rightarrow> string option" where
  "normalize_loop opts body i out =
     (if i < length body
      then
        if body ! i = CR
        then normalize_loop opts body (if i + 1 < length body \<and> body ! (i + 1) = LF then i + 2 else i + 1) (out @ [LF])
        else if (of_char (body ! i) :: u8) < 0x80 then normalize_loop opts body (i + 1) (out @ [body ! i])
        else
          let stop = next_utf8 body i in
          if stop = i + 1
          then (if ep_invalid_utf8 (ck_policy opts) = Utf8_reject then None
                else normalize_loop opts body (i + 1) (out @ utf8_replacement))
          else normalize_loop opts body stop (out @ substr body i (stop - i))
      else Some out)"
  by pat_completeness auto
termination
proof (relation "measure (\<lambda>(opts, body, i, out). length body - i)", goal_cases)
  case (5 opts body i out stop)
  with next_utf8_gt [of i body] show ?case by auto
qed auto

declare normalize_loop.simps [simp del]

definition normalize_input :: "string \<Rightarrow> chunk_options \<Rightarrow> string option" where
  "normalize_input body opts = normalize_loop opts body 0 []"

subsection \<open>Spans\<close>

text \<open>The lines between the newlines, the empty one after a final newline included.\<close>

function split_lines :: "string \<Rightarrow> string list" where
  "split_lines body =
     (case dropWhile (\<lambda>c. c \<noteq> LF) body of
        [] \<Rightarrow> [body]
      | _ # rest \<Rightarrow> takeWhile (\<lambda>c. c \<noteq> LF) body # split_lines rest)"
  by pat_completeness auto
termination
proof (relation "measure length", goal_cases)
  case (2 body c rest)
  then have "length (c # rest) \<le> length body" using length_dropWhile_le [of "\<lambda>c. c \<noteq> LF" body] by simp
  then show ?case by simp
qed simp

declare split_lines.simps [simp del]

lemma split_scan_le:
  "split_scan opts ctx tx b pos l st sf = (l', st', sf') \<Longrightarrow> pos \<le> length tx \<Longrightarrow> l \<le> length tx \<Longrightarrow>
    st \<le> length tx \<Longrightarrow> sf \<le> length tx \<Longrightarrow> l' \<le> length tx \<and> st' \<le> length tx \<and> sf' \<le> length tx"
proof (induction opts ctx tx b pos l st sf arbitrary: l' st' sf' rule: split_scan.induct)
  case (1 opts ctx tx b pos l st sf)
  let ?stop = "next_utf8 tx pos"
  have le: "?stop \<le> length tx" using next_utf8_le [of tx pos] "1.prems"(2) by simp
  show ?case
  proof (cases "pos < length tx \<and>
      \<not> count_tokens (embedding_form ctx (substr tx b (?stop - b)) opts) opts > usable_limit opts")
    case True
    then have "split_scan opts ctx tx b ?stop ?stop (if sentence_boundary (tx ! (?stop - 1)) then ?stop else st)
        (if soft_boundary (tx ! (?stop - 1)) then ?stop else sf) = (l', st', sf')"
      using "1.prems"(1) by (simp add: split_scan.simps [of opts ctx tx b pos] Let_def)
    from "1.IH" [OF _ refl _ refl this] True "1.prems" le show ?thesis by auto
  next
    case False
    with "1.prems" show ?thesis by (auto simp: split_scan.simps [of opts ctx tx b pos] Let_def split: if_splits)
  qed
qed

lemma split_at_gt: "b < length tx \<Longrightarrow> b < split_at tx b ctx opts"
  using next_utf8_gt [of b tx] split_scan_le [of opts ctx tx b b b b b]
  by (auto simp: split_at_def Let_def split: prod.split)

lemma split_at_le: "b \<le> length tx \<Longrightarrow> split_at tx b ctx opts \<le> length tx"
  using next_utf8_le [of tx b] split_scan_le [of opts ctx tx b b b b b]
  by (auto simp: split_at_def Let_def split: prod.split)

text \<open>The pieces of one line.\<close>

function line_pieces :: "chunk_options \<Rightarrow> string \<Rightarrow> nat \<Rightarrow> string list" where
  "line_pieces opts line pos =
     (if pos < length line
      then let cutoff = split_at line pos [] opts in substr line pos (cutoff - pos) # line_pieces opts line cutoff
      else [])"
  by pat_completeness auto
termination
proof (relation "measure (\<lambda>(opts, line, pos). length line - pos)", goal_cases)
  case (2 opts line pos cutoff)
  with split_at_gt [of pos line "[]" opts] show ?case by auto
qed simp

declare line_pieces.simps [simp del]

definition line_spans :: "chunk_options \<Rightarrow> string \<Rightarrow> u32 \<Rightarrow> span list" where
  "line_spans opts line n =
     (if line = [] then [\<lparr>sp_text = [], sp_line = n\<rparr>]
      else map (\<lambda>p. \<lparr>sp_text = p, sp_line = n\<rparr>) (line_pieces opts line 0))"

fun body_spans :: "chunk_options \<Rightarrow> string list \<Rightarrow> u32 \<Rightarrow> span list" where
  "body_spans opts [] n = []"
| "body_spans opts (line # lines) n = line_spans opts line n @ body_spans opts lines (n + 1)"

subsection \<open>Chunks\<close>

definition target_tokens :: "chunk_options \<Rightarrow> nat" where
  "target_tokens opts =
     (if ep_target_tokens (ck_policy opts) \<noteq> 0 then ep_target_tokens (ck_policy opts) else usable_limit opts)"

text \<open>
  What splitting lowers and gathering uses up: a span of \<open>n\<close> bytes can be split \<open>n - 1\<close> times.
\<close>

definition span_weight :: "span \<Rightarrow> nat" where
  "span_weight sp = max 1 (2 * length (sp_text sp) - 1)"

definition weight_from :: "span list \<Rightarrow> nat \<Rightarrow> nat" where
  "weight_from spans i = sum_list (map span_weight (drop i spans))"

lemma span_weight_pos [simp]: "0 < span_weight sp" "span_weight sp \<noteq> 0"
  by (simp_all add: span_weight_def)

lemma weight_from_next: "i < length spans \<Longrightarrow> weight_from spans i = span_weight (spans ! i) + weight_from spans (Suc i)"
  by (simp add: weight_from_def Cons_nth_drop_Suc [symmetric])

lemma weight_from_mono: "i \<le> j \<Longrightarrow> weight_from spans j \<le> weight_from spans i"
proof (induction "j - i" arbitrary: i)
  case (Suc n)
  show ?case
  proof (cases "i < length spans")
    case True
    from Suc have "weight_from spans j \<le> weight_from spans (Suc i)" by simp
    with weight_from_next [OF True] show ?thesis by simp
  next
    case False
    with Suc.prems show ?thesis by (simp add: weight_from_def)
  qed
qed simp

text \<open>\<^verbatim>\<open>spans[i]\<close> cut in two at \<open>cutoff\<close>.\<close>

definition split_span :: "span list \<Rightarrow> nat \<Rightarrow> nat \<Rightarrow> span list" where
  "split_span spans i cutoff =
     (let sp = spans ! i in
      take i spans @ [sp\<lparr>sp_text := take cutoff (sp_text sp)\<rparr>, sp\<lparr>sp_text := drop cutoff (sp_text sp)\<rparr>]
        @ drop (Suc i) spans)"

lemma drop_split_span:
  "i < length spans \<Longrightarrow> drop i (split_span spans i cutoff) =
     (spans ! i)\<lparr>sp_text := take cutoff (sp_text (spans ! i))\<rparr> # (spans ! i)\<lparr>sp_text := drop cutoff (sp_text (spans ! i))\<rparr> # drop (Suc i) spans"
  by (simp add: split_span_def Let_def)

lemma split_span_weight:
  "i < length spans \<Longrightarrow> 0 < cutoff \<Longrightarrow> cutoff < length (sp_text (spans ! i)) \<Longrightarrow>
     weight_from (split_span spans i cutoff) i < weight_from spans i"
  by (simp add: weight_from_def drop_split_span Cons_nth_drop_Suc [symmetric] span_weight_def)

text \<open>
  The inner loop, from span \<open>i\<close> with the text and context gathered so far. It returns the spans,
  the headings, the next position, and the text and context of the chunk.
\<close>

function fill_chunk ::
    "chunk_options \<Rightarrow> span list \<Rightarrow> string list \<Rightarrow> nat \<Rightarrow> string \<Rightarrow> string \<Rightarrow> nat
       \<Rightarrow> span list \<times> string list \<times> nat \<times> string \<times> string" where
  "fill_chunk opts spans headings i tx ctx lines1 =
     (if i < length spans \<and> lines1 < max 1 (ck_max_lines opts)
      then
        let sp = spans ! i;
            headings = (if ck_heading_context opts then note_heading headings (sp_text sp) else headings);
            ctx = (if ck_heading_context opts \<and> ctx = [] then breadcrumb headings else ctx);
            candidate = (if tx = [] then sp_text sp else tx @ [LF] @ sp_text sp);
            tokens = count_tokens (embedding_form ctx candidate opts) opts;
            cutoff = split_at (sp_text sp) 0 ctx opts
        in
        if tx \<noteq> [] \<and> tokens > usable_limit opts then (spans, headings, i, tx, ctx)
        else if tokens > usable_limit opts \<and> cutoff < length (sp_text sp)
        then fill_chunk opts (split_span spans i cutoff) headings i tx ctx lines1
        else
          let ctx = (if tokens > usable_limit opts then [] else ctx) in
          if tokens \<ge> target_tokens opts \<or> (sp_text sp = [] \<and> tokens \<ge> target_tokens opts div 2)
          then (spans, headings, i + 1, candidate, ctx)
          else fill_chunk opts spans headings (i + 1) candidate ctx (lines1 + 1)
      else (spans, headings, i, tx, ctx))"
  by pat_completeness auto
termination
proof (relation "measure (\<lambda>(opts, spans, headings, i, tx, ctx, lines1). weight_from spans i)", goal_cases)
  case 1
  show ?case by simp
next
  case (2 opts spans headings i tx ctx lines1 sp hs ctx' candidate tokens cutoff)
  then have *: "i < length spans" "cutoff < length (sp_text (spans ! i))" "cutoff = split_at (sp_text (spans ! i)) 0 ctx' opts"
    by simp_all
  then have "0 < cutoff" using split_at_gt [of 0 "sp_text (spans ! i)" ctx' opts] by (metis not_less_zero neq0_conv)
  with split_span_weight [of i spans cutoff] * show ?case by simp
next
  case (3 opts spans headings i tx ctx lines1 sp hs ctx1 candidate tokens cutoff ctx2)
  then show ?case using weight_from_next [of i spans] by simp
qed

declare fill_chunk.simps [simp del]

text \<open>How far the next chunk steps back to overlap with the one just made.\<close>

function step_back :: "chunk_options \<Rightarrow> span list \<Rightarrow> nat \<Rightarrow> nat \<Rightarrow> nat \<Rightarrow> nat" where
  "step_back opts spans start j back =
     (if j > start + 1
         \<and> back < (if ep_max_tokens (ck_policy opts) \<noteq> 0 then ep_overlap_tokens (ck_policy opts) else ck_overlap_lines opts)
      then step_back opts spans start (j - 1)
             (back + (if ep_max_tokens (ck_policy opts) \<noteq> 0 then count_tokens (sp_text (spans ! (j - 1))) opts else 1))
      else j)"
  by pat_completeness auto
termination
  by (relation "measure (\<lambda>(opts, spans, start, j, back). j)") auto

declare step_back.simps [simp del]

definition next_start :: "chunk_options \<Rightarrow> span list \<Rightarrow> nat \<Rightarrow> nat \<Rightarrow> nat" where
  "next_start opts spans start i =
     (let i = (if i = start then i + 1 else i) in
      if i < length spans
      then let j = step_back opts spans start i 0 in if j > start \<and> j < i then j else i
      else i)"

definition emit_chunk :: "strong_id \<Rightarrow> span list \<Rightarrow> nat \<Rightarrow> nat \<Rightarrow> string \<Rightarrow> string \<Rightarrow> chunk list" where
  "emit_chunk doc spans start i tx ctx =
     (let tx = drop_back is_space tx in
      if tx = [] then []
      else [\<lparr>chunk_id = id_invalid, chunk_doc = doc, chunk_text = tx, chunk_context = ctx,
             chunk_start_line = sp_line (spans ! start), chunk_end_line = sp_line (spans ! (i - 1)),
             chunk_embedding = []\<rparr>])"

lemma step_back_bounds: "start < j \<Longrightarrow> start < step_back opts spans start j b \<and> step_back opts spans start j b \<le> j"
proof (induction opts spans start j b rule: step_back.induct)
  case (1 opts spans start j b)
  then show ?case by (subst (1 2) step_back.simps) (auto; linarith)
qed

lemma next_start_bounds:
  "start \<le> i \<Longrightarrow> start < next_start opts spans start i \<and> next_start opts spans start i \<le> max i (start + 1)"
  using step_back_bounds [of start i opts spans 0] step_back_bounds [of start "start + 1" opts spans 0]
  by (auto simp: next_start_def Let_def)


text \<open>
  One run of the inner loop as a relation: it stops, splits the span it could not place whole, or
  takes the span. A span is only taken when the text with it fits the limit, or when it is the
  first one and cannot be split, and then its context is dropped.
\<close>

definition fits :: "chunk_options \<Rightarrow> string \<Rightarrow> string \<Rightarrow> bool" where
  "fits opts ctx body \<longleftrightarrow> count_tokens (embedding_form ctx body opts) opts \<le> usable_limit opts"

definition joined :: "string \<Rightarrow> string \<Rightarrow> string" where
  "joined tx piece = (if tx = [] then piece else tx @ [LF] @ piece)"

inductive gathers ::
    "chunk_options \<Rightarrow> span list \<Rightarrow> nat \<Rightarrow> string \<Rightarrow> string \<Rightarrow> span list \<Rightarrow> nat \<Rightarrow> string \<Rightarrow> string \<Rightarrow> bool"
  for opts where
  gathers_stop: "(\<not> ck_heading_context opts \<Longrightarrow> ctx' = ctx) \<Longrightarrow> gathers opts spans i tx ctx spans i tx ctx'"
| gathers_split: "i < length spans \<Longrightarrow> (\<not> ck_heading_context opts \<Longrightarrow> ctx1 = ctx) \<Longrightarrow>
    c = split_at (sp_text (spans ! i)) 0 ctx1 opts \<Longrightarrow> c < length (sp_text (spans ! i)) \<Longrightarrow>
    gathers opts (split_span spans i c) i [] ctx1 spans' e tx' ctx' \<Longrightarrow> gathers opts spans i [] ctx spans' e tx' ctx'"
| gathers_take: "i < length spans \<Longrightarrow> (\<not> ck_heading_context opts \<Longrightarrow> ctx1 = ctx) \<Longrightarrow>
    fits opts ctx1 (joined tx (sp_text (spans ! i))) \<and> ctx2 = ctx1
      \<or> tx = [] \<and> ctx2 = [] \<and> \<not> fits opts ctx1 (sp_text (spans ! i))
          \<and> length (sp_text (spans ! i)) \<le> split_at (sp_text (spans ! i)) 0 ctx1 opts \<Longrightarrow>
    gathers opts spans (Suc i) (joined tx (sp_text (spans ! i))) ctx2 spans' e tx' ctx' \<Longrightarrow>
    gathers opts spans i tx ctx spans' e tx' ctx'"

lemma fill_chunk_gathers:
  "fill_chunk opts spans hs i tx ctx n = (spans', hs', e, tx', ctx') \<Longrightarrow> gathers opts spans i tx ctx spans' e tx' ctx'"
proof (induction opts spans hs i tx ctx n rule: fill_chunk.induct)
  case (1 opts spans hs i tx ctx n)
  define sp where "sp = spans ! i"
  define hs1 where "hs1 = (if ck_heading_context opts then note_heading hs (sp_text sp) else hs)"
  define ctx1 where "ctx1 = (if ck_heading_context opts \<and> ctx = [] then breadcrumb hs1 else ctx)"
  define cand where "cand = (if tx = [] then sp_text sp else tx @ [LF] @ sp_text sp)"
  define tokens where "tokens = count_tokens (embedding_form ctx1 cand opts) opts"
  define cutoff where "cutoff = split_at (sp_text sp) 0 ctx1 opts"
  define ctx2 where "ctx2 = (if tokens > usable_limit opts then [] else ctx1)"
  note d = sp_def hs1_def ctx1_def cand_def tokens_def cutoff_def ctx2_def
  have step: "fill_chunk opts spans hs i tx ctx n =
     (if i < length spans \<and> n < max 1 (ck_max_lines opts)
      then if tx \<noteq> [] \<and> tokens > usable_limit opts then (spans, hs1, i, tx, ctx1)
           else if tokens > usable_limit opts \<and> cutoff < length (sp_text sp)
           then fill_chunk opts (split_span spans i cutoff) hs1 i tx ctx1 n
           else if tokens \<ge> target_tokens opts \<or> (sp_text sp = [] \<and> tokens \<ge> target_tokens opts div 2)
           then (spans, hs1, i + 1, cand, ctx2)
           else fill_chunk opts spans hs1 (i + 1) cand ctx2 (n + 1)
      else (spans, hs, i, tx, ctx))"
    by (subst fill_chunk.simps) (simp only: Let_def d)
  note IH = "1.IH" [OF _ sp_def hs1_def ctx1_def cand_def tokens_def cutoff_def]
  have cx: "\<not> ck_heading_context opts \<Longrightarrow> ctx1 = ctx" by (simp add: ctx1_def)
  have cand: "cand = joined tx (sp_text (spans ! i))" by (simp add: cand_def joined_def sp_def)
  have tk: "tokens > usable_limit opts \<longleftrightarrow> \<not> fits opts ctx1 cand" by (auto simp: tokens_def fits_def)
  consider "\<not> (i < length spans \<and> n < max 1 (ck_max_lines opts))"
    | (br) "i < length spans" "n < max 1 (ck_max_lines opts)" "tx \<noteq> []" "tokens > usable_limit opts"
    | (sp) "i < length spans" "n < max 1 (ck_max_lines opts)" "tx = []" "tokens > usable_limit opts" "cutoff < length (sp_text sp)"
    | (tk) "i < length spans" "n < max 1 (ck_max_lines opts)"
       "\<not> (tx \<noteq> [] \<and> tokens > usable_limit opts)" "\<not> (tokens > usable_limit opts \<and> cutoff < length (sp_text sp))"
    by blast
  then show ?case
  proof cases
    case sp
    with IH(1) step "1.prems" have "gathers opts (split_span spans i cutoff) i [] ctx1 spans' e tx' ctx'" by simp
    with gathers_split [where opts = opts and spans = spans and i = i and ?ctx1.0 = ctx1 and ctx = ctx and c = cutoff] sp cx
    show ?thesis by (simp add: cutoff_def sp_def)
  next
    case tk
    have "gathers opts spans (Suc i) cand ctx2 spans' e tx' ctx'"
    proof (cases "tokens \<ge> target_tokens opts \<or> (sp_text sp = [] \<and> tokens \<ge> target_tokens opts div 2)")
      case True
      with step tk "1.prems" show ?thesis by (auto intro: gathers_stop)
    next
      case False
      have "fill_chunk opts spans hs1 (i + 1) cand ctx2 (n + 1) = (spans', hs', e, tx', ctx')"
        using step "1.prems" tk(1,2) unfolding if_not_P [OF False] if_not_P [OF tk(3)] if_not_P [OF tk(4)] by simp
      from IH(2) [OF _ tk(3,4) ctx2_def False this] tk(1,2) show ?thesis by simp
    qed
    then show ?thesis
      using gathers_take [where opts = opts and spans = spans and i = i and ?ctx1.0 = ctx1 and ctx = ctx and tx = tx and ?ctx2.0 = ctx2] tk cx
      by (auto simp: cand ctx2_def \<open>tokens > _ \<longleftrightarrow> _\<close> cutoff_def sp_def joined_def)
  qed (use step "1.prems" cx in \<open>auto intro: gathers_stop\<close>)
qed

lemma gathers_weight:
  "gathers opts spans i tx ctx spans' e tx' ctx' \<Longrightarrow> i \<le> length spans \<Longrightarrow>
     i \<le> e \<and> e \<le> length spans' \<and> take i spans' = take i spans \<and> length spans \<le> length spans' \<and> weight_from spans' i \<le> weight_from spans i"
proof (induction rule: gathers.induct)
  case (gathers_split i spans ctx1 ctx c spans' e tx' ctx')
  have c: "0 < c" using gathers_split.hyps split_at_gt [of 0 "sp_text (spans ! i)" ctx1 opts] by (cases "sp_text (spans ! i)") auto
  have "take i (split_span spans i c) = take i spans" "i \<le> length (split_span spans i c)"
    "length spans \<le> length (split_span spans i c)"
    using gathers_split.hyps(1) by (simp_all add: split_span_def Let_def)
  with gathers_split.IH split_span_weight [OF gathers_split.hyps(1) c gathers_split.hyps(4)] show ?case by fastforce
next
  case (gathers_take i spans ctx1 ctx tx ctx2 spans' e tx' ctx')
  then have IH: "Suc i \<le> e" "e \<le> length spans'" "length spans \<le> length spans'" "take (Suc i) spans' = take (Suc i) spans"
    "weight_from spans' (Suc i) \<le> weight_from spans (Suc i)" by simp_all
  then have "spans' ! i = spans ! i" "take i spans' = take i spans"
    using gathers_take.hyps(1) by (metis lessI nth_take, metis le_add2 min.absorb1 plus_1_eq_Suc take_take)
  with IH gathers_take.hyps(1) weight_from_next [of i spans] weight_from_next [of i spans'] show ?case by simp
qed simp

text \<open>The outer loop from position \<open>i\<close>.\<close>

function chunk_loop :: "chunk_options \<Rightarrow> strong_id \<Rightarrow> span list \<Rightarrow> string list \<Rightarrow> nat \<Rightarrow> chunk list" where
  "chunk_loop opts doc spans headings i =
     (if i < length spans
      then
        case fill_chunk opts spans headings i [] [] 0 of
          (spans, headings, e, tx, ctx) \<Rightarrow>
            emit_chunk doc spans i e tx ctx @ chunk_loop opts doc spans headings (next_start opts spans i e)
      else [])"
  by pat_completeness auto
termination
proof (relation "measure (\<lambda>(opts, doc, spans, headings, i). weight_from spans i)", goal_cases)
  case 1
  show ?case by simp
next
  case (2 opts doc spans hs i spans' y1 hs' y2 e y3 tx ctx)
  then have fill: "fill_chunk opts spans hs i [] [] 0 = (spans', hs', e, tx, ctx)" and i: "i < length spans" by simp_all
  note g = gathers_weight [OF fill_chunk_gathers [OF fill]]
  have i': "i < length spans'" using g i by simp
  have "weight_from spans' (next_start opts spans' i e) \<le> weight_from spans' (Suc i)"
    using next_start_bounds [of i e opts spans'] g i by (intro weight_from_mono) simp
  with weight_from_next [OF i'] span_weight_pos(1) [of "spans' ! i"] g i show ?case by (simp del: span_weight_pos)
qed

declare chunk_loop.simps [simp del]

definition chunk_document :: "strong_id \<Rightarrow> string \<Rightarrow> chunk_options \<Rightarrow> chunk list" where
  "chunk_document docid input opts =
     (case normalize_input input opts of
        None \<Rightarrow> []
      | Some body \<Rightarrow>
          (if body = [] then []
           else if count_tokens (ep_document_prefix (ck_policy opts)) opts \<ge> usable_limit opts
                   \<and> ep_document_prefix (ck_policy opts) \<noteq> []
           then []
           else chunk_loop opts docid (body_spans opts (split_lines body) 0) (replicate 7 []) 0))"

end
