(* ===== verification/Chunker_Contract.thy ===== *)
theory Chunker_Contract
  imports Text_Chunker
begin

text \<open>
  What the chunker promises: no text is lost, every chunk fits the token limit when headings are
  off, and how a heading breaks both the limit and its own section when they are on.
\<close>

subsection \<open>Lines under splitting\<close>

definition line_text :: "u32 \<Rightarrow> span list \<Rightarrow> string" where
  "line_text n spans = concat (map sp_text (filter (\<lambda>sp. sp_line sp = n) spans))"

definition in_order :: "span list \<Rightarrow> bool" where
  "in_order spans \<longleftrightarrow> sorted (map sp_line spans)"

lemma line_text_append [simp]: "line_text n (xs @ ys) = line_text n xs @ line_text n ys"
  by (simp add: line_text_def)

lemma line_text_Nil [simp]: "line_text n [] = []"
  by (simp add: line_text_def)

lemma line_text_Cons [simp]: "line_text n (sp # xs) = (if sp_line sp = n then sp_text sp else []) @ line_text n xs"
  by (simp add: line_text_def)

lemma line_text_split:
  "i < length spans \<Longrightarrow> line_text n (drop i (split_span spans i c)) = line_text n (drop i spans)"
  by (simp add: drop_split_span Cons_nth_drop_Suc [symmetric])

lemma in_order_split:
  assumes "i < length spans" and "in_order spans"
  shows "in_order (split_span spans i c)"
proof -
  have "in_order (take i spans @ spans ! i # drop (Suc i) spans)" using assms by (simp add: id_take_nth_drop [symmetric])
  then show ?thesis by (simp add: in_order_def split_span_def Let_def sorted_append)
qed

lemma joined_prefix: "prefix tx (joined tx p)"
  by (simp add: joined_def)

lemma joined_sublist: "sublist p (joined tx p)"
  unfolding joined_def using sublist_append_leftI [of p "tx @ [LF]"] by simp

lemma gathers_lines:
  "gathers opts spans i tx ctx spans' e tx' ctx' \<Longrightarrow> i \<le> length spans \<Longrightarrow>
     line_text n (drop i spans') = line_text n (drop i spans) \<and> (in_order spans \<longrightarrow> in_order spans') \<and> prefix tx tx'"
proof (induction rule: gathers.induct)
  case (gathers_split i spans ctx1 ctx c spans' e tx' ctx')
  then show ?case
    using line_text_split [of i spans n c] in_order_split [of i spans c] by (auto simp: split_span_def Let_def)
next
  case (gathers_take i spans ctx1 ctx tx ctx2 spans' e tx' ctx')
  have "take (Suc i) spans' = take (Suc i) spans" "length spans \<le> length spans'"
    using gathers_weight [OF gathers_take.hyps(4)] gathers_take.hyps(1) by simp_all
  then have "drop i spans' = spans ! i # drop (Suc i) spans'"
    using gathers_take.hyps(1) by (metis Cons_nth_drop_Suc lessI nth_take order_less_le_trans)
  moreover have "drop i spans = spans ! i # drop (Suc i) spans"
    using gathers_take.hyps(1) by (simp add: Cons_nth_drop_Suc)
  ultimately show ?case
    using gathers_take.IH gathers_take.hyps(1) joined_prefix [of tx "sp_text (spans ! i)"]
    by (auto intro: prefix_order.trans)
qed simp

lemma gathers_covers:
  "gathers opts spans i tx ctx spans' e tx' ctx' \<Longrightarrow> i \<le> length spans \<Longrightarrow> i \<le> k \<Longrightarrow> k < e \<Longrightarrow>
     sublist (sp_text (spans' ! k)) tx'"
proof (induction rule: gathers.induct)
  case (gathers_split i spans ctx1 ctx c spans' e tx' ctx')
  then show ?case by (simp add: split_span_def Let_def)
next
  case (gathers_take i spans ctx1 ctx tx ctx2 spans' e tx' ctx')
  show ?case
  proof (cases "k = i")
    case True
    have "take (Suc i) spans' = take (Suc i) spans"
      using gathers_weight [OF gathers_take.hyps(4)] gathers_take.hyps(1) by simp
    then have "spans' ! i = spans ! i" by (metis lessI nth_take)
    moreover have "prefix (joined tx (sp_text (spans ! i))) tx'"
      using gathers_lines [OF gathers_take.hyps(4)] gathers_take.hyps(1) by simp
    ultimately show ?thesis
      using True joined_sublist [of "sp_text (spans ! i)" tx] by (metis prefix_imp_sublist sublist_order.order_trans)
  next
    case False
    with gathers_take show ?thesis by simp
  qed
qed simp

lemma fill_chunk_first:
  assumes "i < length spans"
  shows "(\<exists>c hs1 ctx1. 0 < c \<and> c < length (sp_text (spans ! i)) \<and>
        fill_chunk opts spans hs i [] ctx 0 = fill_chunk opts (split_span spans i c) hs1 i [] ctx1 0)
    \<or> (\<exists>hs1 cand ctx2. fill_chunk opts spans hs i [] ctx 0 = (spans, hs1, Suc i, cand, ctx2))
    \<or> (\<exists>hs1 cand ctx2. fill_chunk opts spans hs i [] ctx 0 = fill_chunk opts spans hs1 (Suc i) cand ctx2 (Suc 0))"
proof -
  define sp where "sp = spans ! i"
  define hs1 where "hs1 = (if ck_heading_context opts then note_heading hs (sp_text sp) else hs)"
  define ctx1 where "ctx1 = (if ck_heading_context opts \<and> ctx = [] then breadcrumb hs1 else ctx)"
  define cand where "cand = (if [] = ([] :: string) then sp_text sp else [] @ [LF] @ sp_text sp)"
  define tokens where "tokens = count_tokens (embedding_form ctx1 cand opts) opts"
  define c where "c = split_at (sp_text sp) 0 ctx1 opts"
  define ctx2 where "ctx2 = (if tokens > usable_limit opts then [] else ctx1)"
  define full where "full \<longleftrightarrow> tokens \<ge> target_tokens opts \<or> (sp_text sp = [] \<and> tokens \<ge> target_tokens opts div 2)"
  have step: "fill_chunk opts spans hs i [] ctx 0 =
     (if i < length spans \<and> 0 < max 1 (ck_max_lines opts)
      then if [] \<noteq> ([] :: string) \<and> tokens > usable_limit opts then (spans, hs1, i, [], ctx1)
           else if tokens > usable_limit opts \<and> c < length (sp_text sp)
           then fill_chunk opts (split_span spans i c) hs1 i [] ctx1 0
           else if full then (spans, hs1, i + 1, cand, ctx2)
           else fill_chunk opts spans hs1 (i + 1) cand ctx2 (0 + 1)
      else (spans, hs, i, [], ctx))"
    by (subst fill_chunk.simps) (simp only: Let_def sp_def hs1_def ctx1_def cand_def tokens_def c_def ctx2_def full_def)
  have "c < length (sp_text sp) \<Longrightarrow> 0 < c"
    using split_at_gt [of 0 "sp_text sp" ctx1 opts] by (cases "sp_text sp") (auto simp: c_def)
  with step assms show ?thesis
    by (cases "tokens > usable_limit opts \<and> c < length (sp_text sp)"; cases full) (simp_all add: sp_def, blast+)
qed

lemma fill_chunk_advances:
  "fill_chunk opts spans hs i [] ctx 0 = (spans', hs', e, tx', ctx') \<Longrightarrow> i < length spans \<Longrightarrow> i < e"
proof (induction "weight_from spans i" arbitrary: spans hs ctx rule: less_induct)
  case less
  have later: "i < e" if "fill_chunk opts spans hs1 (Suc i) cand ctx2 (Suc 0) = (spans', hs', e, tx', ctx')" for hs1 cand ctx2
    using gathers_weight [OF fill_chunk_gathers [OF that]] less.prems(2) by simp
  have split: "i < length (split_span spans i c)" for c
    using less.prems(2) by (simp add: split_span_def Let_def)
  show ?case
    using fill_chunk_first [OF less.prems(2), of opts hs ctx] less.prems later
      less.hyps [OF split_span_weight [OF less.prems(2)] _ split] by auto
qed

subsection \<open>Trailing blanks\<close>

lemma drop_back_prefix: "prefix (drop_back P s) s"
proof -
  have "s = rev (dropWhile P (rev s)) @ rev (takeWhile P (rev s))"
    by (metis rev_append rev_rev_ident takeWhile_dropWhile_id)
  then show ?thesis unfolding drop_back_def prefix_def by blast
qed

lemma drop_back_sublist:
  assumes "sublist p s" and "c \<in> set p" and "\<not> P c"
  shows "sublist (drop_back P p) (drop_back P s)"
proof -
  obtain a b where s: "s = a @ p @ b" using assms(1) by (auto simp: sublist_def)
  have p: "dropWhile P (rev p @ rev a) = dropWhile P (rev p) @ rev a"
    using dropWhile_append1 [of c "rev p" P] assms(2,3) by simp
  show ?thesis
  proof (cases "\<forall>x \<in> set (rev b). P x")
    case True
    then have "drop_back P s = a @ drop_back P p"
      using dropWhile_append2 [of "rev b" P "rev p @ rev a"] p by (simp add: s drop_back_def)
    then show ?thesis by simp
  next
    case False
    then obtain x where "x \<in> set (rev b)" "\<not> P x" by blast
    then have "drop_back P s = a @ p @ drop_back P b"
      using dropWhile_append1 [of x "rev b" P "rev p @ rev a"] by (simp add: s drop_back_def)
    moreover have "sublist (drop_back P p) p" using drop_back_prefix by (rule prefix_imp_sublist)
    ultimately show ?thesis by (metis sublist_appendI sublist_order.order_trans)
  qed
qed

lemma drop_back_nonempty: "c \<in> set p \<Longrightarrow> \<not> P c \<Longrightarrow> drop_back P p \<noteq> []"
  by (auto simp: drop_back_def)


subsection \<open>No text is lost\<close>

definition covers :: "chunk \<Rightarrow> u32 \<Rightarrow> string \<Rightarrow> bool" where
  "covers c n piece \<longleftrightarrow> chunk_start_line c \<le> n \<and> n \<le> chunk_end_line c \<and>
     sublist (drop_back is_space piece) (chunk_text c)"

lemma emit_covers:
  assumes "fill_chunk opts spans hs i [] [] 0 = (spans', hs', e, tx, ctx)" and "i < length spans"
    and "in_order spans" and "i \<le> k" and "k < e" and "\<not> list_all is_space (sp_text (spans' ! k))"
  shows "\<exists>c \<in> set (emit_chunk doc spans' i e tx ctx). covers c (sp_line (spans' ! k)) (sp_text (spans' ! k))"
proof -
  note g = fill_chunk_gathers [OF assms(1)]
  obtain x where x: "x \<in> set (sp_text (spans' ! k))" "\<not> is_space x" using assms(6) by (auto simp: list_all_iff)
  have sub: "sublist (sp_text (spans' ! k)) tx" using gathers_covers [OF g] assms(2,4,5) by simp
  have piece: "sublist (drop_back is_space (sp_text (spans' ! k))) (drop_back is_space tx)"
    by (rule drop_back_sublist [where P = is_space, OF sub x])
  have "x \<in> set tx" using sub x(1) by (auto simp: sublist_def)
  then have "drop_back is_space tx \<noteq> []" using x(2) by (rule drop_back_nonempty)
  moreover have "in_order spans'" using gathers_lines [OF g] assms(2,3) by simp
  moreover have "e \<le> length spans'" using gathers_weight [OF g] assms(2) by simp
  moreover from calculation have "sp_line (spans' ! i) \<le> sp_line (spans' ! k)" "sp_line (spans' ! k) \<le> sp_line (spans' ! (e - 1))"
    using assms(4,5) sorted_nth_mono [of "map sp_line spans'" i k] sorted_nth_mono [of "map sp_line spans'" k "e - 1"]
    by (simp_all add: in_order_def)
  ultimately show ?thesis using piece by (simp add: emit_chunk_def Let_def covers_def)
qed

lemma chunk_loop_covers:
  "in_order spans \<Longrightarrow>
     \<exists>pieces. (\<forall>n. line_text n pieces = line_text n (drop i spans)) \<and>
       (\<forall>sp \<in> set pieces. list_all is_space (sp_text sp)
          \<or> (\<exists>c \<in> set (chunk_loop opts doc spans hs i). covers c (sp_line sp) (sp_text sp)))"
proof (induction opts doc spans hs i rule: chunk_loop.induct)
  case (1 opts doc spans hs i)
  show ?case
  proof (cases "i < length spans")
    case False
    then show ?thesis by (intro exI [of _ "[]"]) simp
  next
    case True
    obtain spans' hs' e tx ctx where f: "fill_chunk opts spans hs i [] [] 0 = (spans', hs', e, tx, ctx)"
      using prod_cases5 by blast
    define j where "j = next_start opts spans' i e"
    note g = fill_chunk_gathers [OF f]
    have e: "i < e" "e \<le> length spans'" using fill_chunk_advances [OF f True] gathers_weight [OF g] True by simp_all
    have j: "i < j" "j \<le> e" using next_start_bounds [of i e opts spans'] e by (simp_all add: j_def)
    have ord: "in_order spans'" using gathers_lines [OF g] True "1.prems" by simp
    from "1.IH" [OF True f [symmetric] refl refl refl ord] obtain rest where
      rest: "\<forall>n. line_text n rest = line_text n (drop j spans')"
        "\<forall>sp \<in> set rest. list_all is_space (sp_text sp)
          \<or> (\<exists>c \<in> set (chunk_loop opts doc spans' hs' j). covers c (sp_line sp) (sp_text sp))"
      unfolding j_def by blast
    have loop: "chunk_loop opts doc spans hs i = emit_chunk doc spans' i e tx ctx @ chunk_loop opts doc spans' hs' j"
      using True f by (simp add: chunk_loop.simps [of opts doc spans hs i] j_def)
    have here: "drop i spans' = take (j - i) (drop i spans') @ drop j spans'"
      using j(1) by (metis append_take_drop_id drop_drop le_add_diff_inverse2 less_imp_le)
    have "line_text n (take (j - i) (drop i spans') @ rest) = line_text n (drop i spans)" for n
      using gathers_lines [OF g, of n] True rest(1) arg_cong [OF here, of "line_text n"] by simp
    moreover have "list_all is_space (sp_text sp) \<or> (\<exists>c \<in> set (emit_chunk doc spans' i e tx ctx). covers c (sp_line sp) (sp_text sp))"
      if m: "sp \<in> set (take (j - i) (drop i spans'))" for sp
    proof -
      obtain k where "k < length (take (j - i) (drop i spans'))" "sp = take (j - i) (drop i spans') ! k"
        using m unfolding in_set_conv_nth by blast
      then have k: "i + k < e" "sp = spans' ! (i + k)" using j e by auto
      from emit_covers [OF f True "1.prems" le_add1 k(1)] show ?thesis unfolding k(2) by blast
    qed
    ultimately show ?thesis
      using rest(2) by (intro exI [of _ "take (j - i) (drop i spans') @ rest"]) (auto simp: loop)
  qed
qed

subsection \<open>The spans of a body\<close>

lemma concat_line_pieces: "pos \<le> length line \<Longrightarrow> concat (line_pieces opts line pos) = drop pos line"
proof (induction opts line pos rule: line_pieces.induct)
  case (1 opts line pos)
  show ?case
  proof (cases "pos < length line")
    case True
    define c where "c = split_at line pos [] opts"
    have c: "pos < c" "c \<le> length line" using split_at_gt [OF True] split_at_le [of pos line] True by (simp_all add: c_def)
    have "concat (line_pieces opts line pos) = take (c - pos) (drop pos line) @ drop c line"
      using "1.IH" [OF True c_def] c True by (simp add: line_pieces.simps [of opts line pos] c_def [symmetric] substr_def Let_def)
    also have "\<dots> = drop pos line"
      using c(1) by (metis append_take_drop_id drop_drop le_add_diff_inverse2 less_imp_le)
    finally show ?thesis .
  qed (use 1 in \<open>simp add: line_pieces.simps [of opts line "length line"]\<close>)
qed

lemma sp_line_line_spans: "sp \<in> set (line_spans opts line n) \<Longrightarrow> sp_line sp = n"
  by (auto simp: line_spans_def split: if_splits)

lemma line_text_pieces: "line_text m (map (\<lambda>p. \<lparr>sp_text = p, sp_line = n\<rparr>) ps) = (if m = n then concat ps else [])"
  by (induction ps) auto

lemma line_text_line_spans: "line_text m (line_spans opts line n) = (if m = n then line else [])"
  by (simp add: line_spans_def line_text_pieces concat_line_pieces)

lemma sp_line_body_spans:
  "m + length lines \<le> 2 ^ 32 \<Longrightarrow> sp \<in> set (body_spans opts lines (of_nat m)) \<Longrightarrow>
     \<exists>k. m \<le> k \<and> k < m + length lines \<and> sp_line sp = of_nat k"
proof (induction lines arbitrary: m)
  case (Cons line lines)
  show ?case
  proof (cases "sp \<in> set (line_spans opts line (of_nat m))")
    case True
    with sp_line_line_spans show ?thesis by (intro exI [of _ m]) fastforce
  next
    case False
    with Cons.prems have "sp \<in> set (body_spans opts lines (of_nat (Suc m)))" by (simp add: add.commute)
    from Cons.IH [OF _ this] Cons.prems(1) obtain k where "Suc m \<le> k" "k < Suc m + length lines" "sp_line sp = of_nat k" by auto
    then show ?thesis by (intro exI [of _ k]) simp
  qed
qed simp

lemma of_nat_u32_inject: "a < 2 ^ 32 \<Longrightarrow> b < 2 ^ 32 \<Longrightarrow> (of_nat a :: u32) = of_nat b \<longleftrightarrow> a = b"
  by (simp add: word_of_nat_eq_iff take_bit_nat_eq_self)


lemma of_nat_u32_le: "a \<le> b \<Longrightarrow> b < 2 ^ 32 \<Longrightarrow> (of_nat a :: u32) \<le> of_nat b"
  by (simp add: word_le_nat_alt unat_of_nat take_bit_nat_eq_self)

lemma in_order_body_spans: "m + length lines \<le> 2 ^ 32 \<Longrightarrow> in_order (body_spans opts lines (of_nat m))"
proof (induction lines arbitrary: m)
  case (Cons line lines)
  have "in_order (body_spans opts lines (of_nat (Suc m)))" by (rule Cons.IH) (use Cons.prems in simp)
  moreover have "sorted (map sp_line (line_spans opts line (of_nat m)))"
    by (simp add: line_spans_def comp_def map_replicate_const)
  moreover have "(of_nat m :: u32) \<le> sp_line sp" if "sp \<in> set (body_spans opts lines (of_nat (Suc m)))" for sp
    using sp_line_body_spans [OF _ that] Cons.prems of_nat_u32_le by fastforce
  ultimately show ?case
    using sp_line_line_spans by (auto simp: in_order_def sorted_append add.commute)
qed (simp add: in_order_def)

lemma line_text_body_spans:
  "m + length lines \<le> 2 ^ 32 \<Longrightarrow> n < length lines \<Longrightarrow>
     line_text (of_nat (m + n)) (body_spans opts lines (of_nat m)) = lines ! n"
proof (induction lines arbitrary: m n)
  case (Cons line lines)
  have none: "line_text (of_nat m) (body_spans opts lines (of_nat (Suc m))) = []"
  proof -
    have "sp_line sp \<noteq> of_nat m" if "sp \<in> set (body_spans opts lines (of_nat (Suc m)))" for sp
      using sp_line_body_spans [OF _ that] Cons.prems(1) of_nat_u32_inject [of _ m] by fastforce
    then show ?thesis by (simp add: line_text_def filter_empty_conv)
  qed
  show ?case
  proof (cases n)
    case 0
    with none show ?thesis by (simp add: line_text_line_spans add.commute)
  next
    case (Suc k)
    have "(of_nat (m + Suc k) :: u32) \<noteq> of_nat m"
      using of_nat_u32_inject [of "m + Suc k" m] Cons.prems Suc by simp
    with Cons.IH [of "Suc m" k] Cons.prems Suc show ?thesis
      by (simp add: line_text_line_spans add.commute)
  qed
qed simp

text \<open>
  C28: no text is lost. Every line of the normalised body falls into pieces whose concatenation is the
  line, and every piece that is not blank stands, but for trailing blanks, in a chunk whose line
  range holds the line, whatever the budget, the overlap, the headings and the token measurer.\<close>
theorem chunks_cover_body:
  assumes "normalize_input input opts = Some body" and "body \<noteq> []"
    and "ep_document_prefix (ck_policy opts) = []
      \<or> count_tokens (ep_document_prefix (ck_policy opts)) opts < usable_limit opts"
    and "length (split_lines body) \<le> 2 ^ 32" and "n < length (split_lines body)"
  shows "\<exists>pieces. concat pieces = split_lines body ! n \<and>
    (\<forall>p \<in> set pieces. list_all is_space p \<or>
      (\<exists>c \<in> set (chunk_document docid input opts).
         chunk_start_line c \<le> of_nat n \<and> of_nat n \<le> chunk_end_line c \<and>
         sublist (drop_back is_space p) (chunk_text c)))"
proof -
  let ?spans = "body_spans opts (split_lines body) 0"
  have "in_order ?spans" using in_order_body_spans [of 0 "split_lines body" opts] assms(4) by simp
  from chunk_loop_covers [OF this, of 0 opts docid "replicate 7 []"] obtain pieces where
    p: "\<forall>n. line_text n pieces = line_text n ?spans"
      "\<forall>sp \<in> set pieces. list_all is_space (sp_text sp)
        \<or> (\<exists>c \<in> set (chunk_loop opts docid ?spans (replicate 7 []) 0). covers c (sp_line sp) (sp_text sp))"
    by auto
  have chunks: "chunk_document docid input opts = chunk_loop opts docid ?spans (replicate 7 []) 0"
    using assms(1-3) by (auto simp: chunk_document_def)
  have "concat (map sp_text (filter (\<lambda>sp. sp_line sp = of_nat n) pieces)) = split_lines body ! n"
    using p(1) line_text_body_spans [of 0 "split_lines body" n opts] assms(4,5) by (simp add: line_text_def)
  then show ?thesis
    using p(2) by (intro exI [of _ "map sp_text (filter (\<lambda>sp. sp_line sp = of_nat n) pieces)"])
      (auto simp: chunks covers_def)
qed


definition sample_options :: "nat \<Rightarrow> bool \<Rightarrow> chunk_options" where
  "sample_options limit heading =
     \<lparr>ck_max_lines = 40, ck_max_chars = 1600, ck_overlap_lines = 4, ck_heading_context = heading,
      ck_policy = \<lparr>ep_model_identity = [], ep_tokenizer_identity = [], ep_dimension = 0, ep_target_tokens = 0,
        ep_max_tokens = limit, ep_overlap_tokens = 0, ep_reserved_tokens = 0, ep_document_prefix = [],
        ep_query_prefix = [], ep_counting_mode = Count_exact, ep_invalid_utf8 = Utf8_replace\<rparr>,
      ck_measure_tokens = None\<rparr>"

theorem chunks_cover_body_witness:
  "\<exists>pieces. concat pieces = ''ab cd'' \<and> (\<forall>p \<in> set pieces. list_all is_space p \<or>
     (\<exists>c \<in> set (chunk_document 0 (''ab cd'' @ [LF]) (sample_options 3 False)).
        chunk_start_line c \<le> 0 \<and> sublist (drop_back is_space p) (chunk_text c)))"
proof -
  have "normalize_input (''ab cd'' @ [LF]) (sample_options 3 False) = Some (''ab cd'' @ [LF])" by code_simp
  moreover have "split_lines (''ab cd'' @ [LF]) = [''ab cd'', []]" by code_simp
  ultimately show ?thesis
    using chunks_cover_body [of "''ab cd'' @ [LF]" "sample_options 3 False" "''ab cd'' @ [LF]" 0 0]
    by (fastforce simp: sample_options_def)
qed

subsection \<open>The token limit\<close>

lemma embedding_form_no_context: "ep_document_prefix (ck_policy opts) = [] \<Longrightarrow> embedding_form [] body opts = body"
  by (simp add: embedding_form_def Let_def)

definition fits_to :: "chunk_options \<Rightarrow> string \<Rightarrow> string \<Rightarrow> nat \<Rightarrow> nat \<Rightarrow> bool" where
  "fits_to opts ctx tx b x \<longleftrightarrow> x = b \<or> fits opts ctx (substr tx b (x - b))"

lemma split_scan_fits:
  "split_scan opts ctx tx b pos l st sf = (l', st', sf') \<Longrightarrow>
     fits_to opts ctx tx b l \<Longrightarrow> fits_to opts ctx tx b st \<Longrightarrow> fits_to opts ctx tx b sf \<Longrightarrow>
     fits_to opts ctx tx b l' \<and> fits_to opts ctx tx b st' \<and> fits_to opts ctx tx b sf'"
proof (induction opts ctx tx b pos l st sf arbitrary: l' st' sf' rule: split_scan.induct)
  case (1 opts ctx tx b pos l st sf)
  let ?stop = "next_utf8 tx pos"
  show ?case
  proof (cases "pos < length tx \<and>
      \<not> count_tokens (embedding_form ctx (substr tx b (?stop - b)) opts) opts > usable_limit opts")
    case True
    then have "split_scan opts ctx tx b ?stop ?stop (if sentence_boundary (tx ! (?stop - 1)) then ?stop else st)
        (if soft_boundary (tx ! (?stop - 1)) then ?stop else sf) = (l', st', sf')"
      using "1.prems"(1) by (simp add: split_scan.simps [of opts ctx tx b pos] Let_def)
    moreover have "fits_to opts ctx tx b ?stop" using True by (simp add: fits_to_def fits_def)
    ultimately show ?thesis using "1.IH" [OF _ refl _ refl] True "1.prems"(2-4) by simp
  next
    case False
    with "1.prems" show ?thesis by (auto simp: split_scan.simps [of opts ctx tx b pos] Let_def split: if_splits)
  qed
qed

text \<open>Text that does not fit and still cannot be split is a single scalar value.\<close>

lemma unsplittable_scalar:
  assumes "\<not> fits opts ctx tx" and "length tx \<le> split_at tx 0 ctx opts"
  shows "length tx \<le> next_utf8 tx 0"
proof -
  obtain l st sf where s: "split_scan opts ctx tx 0 0 0 0 0 = (l, st, sf)" using prod_cases3 by blast
  have le: "l \<le> length tx" "st \<le> length tx" "sf \<le> length tx" using split_scan_le [OF s] by simp_all
  have "fits_to opts ctx tx 0 l \<and> fits_to opts ctx tx 0 st \<and> fits_to opts ctx tx 0 sf"
    by (rule split_scan_fits [OF s]) (simp_all add: fits_to_def)
  moreover have "\<not> fits_to opts ctx tx 0 (length tx)" if "tx \<noteq> []"
    using assms(1) that by (simp add: fits_to_def substr_def)
  ultimately have "tx = [] \<or> l \<noteq> length tx \<and> st \<noteq> length tx \<and> sf \<noteq> length tx" by blast
  with le assms(2) s show ?thesis
    by (cases "tx = []") (auto simp: split_at_def split: if_splits)
qed


text \<open>A text within the limit, or a single scalar value, which nothing can shorten.\<close>

definition within_limit :: "chunk_options \<Rightarrow> string \<Rightarrow> bool" where
  "within_limit opts tx \<longleftrightarrow> fits opts [] tx \<or> length tx \<le> next_utf8 tx 0"

lemma gathers_within_limit:
  "gathers opts spans i tx ctx spans' e tx' ctx' \<Longrightarrow> \<not> ck_heading_context opts \<Longrightarrow> ctx = [] \<Longrightarrow>
     within_limit opts tx \<Longrightarrow> ctx' = [] \<and> within_limit opts tx'"
proof (induction rule: gathers.induct)
  case (gathers_take i spans ctx1 ctx tx ctx2 spans' e tx' ctx')
  have "ctx1 = []" using gathers_take.hyps(2) gathers_take.prems by simp
  moreover from this have "within_limit opts (joined tx (sp_text (spans ! i)))"
    using gathers_take.hyps(3) unsplittable_scalar [of opts "[]" "sp_text (spans ! i)"]
    by (auto simp: within_limit_def joined_def)
  ultimately show ?case using gathers_take.IH gathers_take.hyps(3) gathers_take.prems(1) by auto
qed auto

lemma continuation_not_space: "(of_char c :: u8) AND 0xC0 = 0x80 \<Longrightarrow> \<not> is_space c"
proof
  assume c: "(of_char c :: u8) AND 0xC0 = 0x80" and "is_space c"
  then have "(of_char c :: nat) \<in> {9, 10, 11, 12, 13, 32}" by (auto simp: is_space_def)
  then have "(of_nat (of_char c) :: u8) \<in> {9, 10, 11, 12, 13, 32}" by auto
  then have "(of_char c :: u8) \<in> {9, 10, 11, 12, 13, 32}" unfolding of_nat_of_char .
  with c show False by auto
qed

lemma scalar_drop_back:
  assumes "length tx \<le> next_utf8 tx 0" and "drop_back is_space tx \<noteq> []"
  shows "drop_back is_space tx = tx"
proof (cases "length tx \<le> 1")
  case True
  with assms(2) show ?thesis by (cases tx) (auto simp: drop_back_def split: if_splits)
next
  case False
  then have w: "utf8_width (tx ! 0) = length tx"
    "\<forall>i \<in> set [1..<utf8_width (tx ! 0)]. (of_char (tx ! i) :: u8) AND 0xC0 = 0x80"
    using assms(1) by (auto simp: next_utf8_def Let_def split: if_splits)
  then have "(of_char (tx ! (length tx - 1)) :: u8) AND 0xC0 = 0x80"
    using False by (simp only: set_upt w(1)) (drule bspec [of _ _ "length tx - 1"], auto)
  then have "\<not> is_space (tx ! (length tx - 1))" by (rule continuation_not_space)
  moreover obtain xs x where "tx = xs @ [x]" using False by (cases tx rule: rev_cases) simp_all
  ultimately show ?thesis by (simp add: drop_back_def)
qed

lemma within_limit_drop_back:
  assumes "\<forall>a b. count_tokens a opts \<le> count_tokens (a @ b) opts" and "within_limit opts tx" and "drop_back is_space tx \<noteq> []"
  shows "within_limit opts (drop_back is_space tx)"
proof (cases "fits opts [] tx")
  case True
  obtain r where r: "tx = drop_back is_space tx @ r" using drop_back_prefix by (metis prefixE)
  have "embedding_form [] tx opts = embedding_form [] (drop_back is_space tx) opts @ r"
    by (subst (1) r) (use assms(3) in \<open>simp add: embedding_form_def Let_def\<close>)
  with True assms(1) have "fits opts [] (drop_back is_space tx)" by (metis fits_def le_trans)
  then show ?thesis by (simp add: within_limit_def)
next
  case False
  with assms(2) have "length tx \<le> next_utf8 tx 0" by (simp add: within_limit_def)
  with scalar_drop_back [OF this assms(3)] show ?thesis by (simp add: within_limit_def)
qed

lemma chunk_loop_within_limit:
  "\<not> ck_heading_context opts \<Longrightarrow> \<forall>a b. count_tokens a opts \<le> count_tokens (a @ b) opts \<Longrightarrow>
     c \<in> set (chunk_loop opts doc spans hs i) \<Longrightarrow> chunk_context c = [] \<and> within_limit opts (chunk_text c)"
proof (induction opts doc spans hs i rule: chunk_loop.induct)
  case (1 opts doc spans hs i)
  show ?case
  proof (cases "i < length spans")
    case True
    obtain spans' hs' e tx ctx where f: "fill_chunk opts spans hs i [] [] 0 = (spans', hs', e, tx, ctx)"
      using prod_cases5 by blast
    have g: "ctx = [] \<and> within_limit opts tx"
      by (rule gathers_within_limit [OF fill_chunk_gathers [OF f] "1.prems"(1) refl]) (simp add: within_limit_def)
    have "c \<in> set (emit_chunk doc spans' i e tx ctx) \<or> c \<in> set (chunk_loop opts doc spans' hs' (next_start opts spans' i e))"
      using "1.prems"(3) True f by (simp add: chunk_loop.simps [of opts doc spans hs i])
    then show ?thesis
    proof
      assume "c \<in> set (emit_chunk doc spans' i e tx ctx)"
      with g within_limit_drop_back [OF "1.prems"(2)] show ?thesis by (auto simp: emit_chunk_def Let_def split: if_splits)
    next
      assume "c \<in> set (chunk_loop opts doc spans' hs' (next_start opts spans' i e))"
      from "1.IH" [OF True f [symmetric] refl refl refl "1.prems"(1,2) this] show ?thesis .
    qed
  qed (use 1 in \<open>simp add: chunk_loop.simps [of opts doc spans hs i]\<close>)
qed



text \<open>
  With heading context on, a heading leaks back into the text before it. The chunker takes the
  breadcrumb of a span before it decides whether the span still belongs to the chunk, so the text
  before the first heading is emitted under that heading, and with it over the hard limit.\<close>
theorem heading_leaks_back:
  "\<exists>c \<in> set (chunk_document 0 (''aaaaa'' @ [LF] @ ''# bbb'') (sample_options 8 True)).
     chunk_text c = ''aaaaa'' \<and> chunk_start_line c = 0 \<and> chunk_end_line c = 0 \<and> chunk_context c = ''bbb'' \<and>
     count_tokens (embedding_form (chunk_context c) (chunk_text c) (sample_options 8 True)) (sample_options 8 True)
       > usable_limit (sample_options 8 True)"
  by code_simp

end
