(* ===== verification/Document_Preparer.thy ===== *)
theory Document_Preparer
  imports Chunker_Contract Embedded_Contract Coordinator_Outcomes
begin

text \<open>
  \<^verbatim>\<open>rag.cpp/src/preparation/document_preparer.cpp\<close>: from a source text to the prepared document that a
  backend activates. The embedding model and the floating-point norm are parameters. Shown here:
  the batch size does not matter, what preparation returns passes the backend's validation unless
  two chunks share a key, which a repetitive line does bring about, and the functions meet what the
  coordinator assumes of its preparation.
\<close>

subsection \<open>Preparation\<close>

text \<open>\<^verbatim>\<open>AnyEmbedder\<close>: the model behind the transport.\<close>

record embedder =
  em_dimension :: nat
  em_identity :: string
  em_embed :: "string list \<Rightarrow> vec list result"

text \<open>The two floating-point steps: \<open>norm <= 0.0\<close> and \<^verbatim>\<open>dense::normalize\<close>.\<close>

record norms =
  nm_zero :: "vec \<Rightarrow> bool"
  nm_normalize :: "vec \<Rightarrow> vec"

record prepare_options =
  po_chunking :: chunk_options
  po_embedding_batch_size :: nat

definition prepared_chunk_of :: "document_key \<Rightarrow> nat \<Rightarrow> chunk \<Rightarrow> prepared_chunk" where
  "prepared_chunk_of key ordinal c =
     \<lparr>pc_key = stable_chunk_key key (chunk_start_line c) (chunk_end_line c) (chunk_text c),
      pc_ordinal = of_nat ordinal, pc_text = chunk_text c,
      pc_indexed_text = (if chunk_context c = [] then chunk_text c else chunk_context c @ [LF] @ chunk_text c),
      pc_context = chunk_context c, pc_start_line = chunk_start_line c, pc_end_line = chunk_end_line c,
      pc_embedding = []\<rparr>"

definition prepare_chunks ::
    "document_key \<Rightarrow> string \<Rightarrow> metadata \<Rightarrow> string \<Rightarrow> chunk_options \<Rightarrow> prepared_document result" where
  "prepare_chunks key content metadata title opts =
     (if key = [] then fail Errc_invalid_argument ''document key must not be empty''
      else if content = [] then fail Errc_invalid_argument ''document content must not be empty''
      else
        let content = normalize_source_text content;
            chunks = chunk_document 0 content opts
        in Inr \<lparr>pd_key = key, pd_title = title, pd_content = content, pd_metadata = metadata,
                pd_content_hash = document_content_hash title content metadata,
                pd_chunking_fingerprint = chunking_fingerprint opts, pd_embedding_identity = [],
                pd_chunks = map (\<lambda>(ordinal, c). prepared_chunk_of key ordinal c) (enumerate 0 chunks)\<rparr>)"

definition set_embedding :: "nat \<Rightarrow> vec \<Rightarrow> prepared_document \<Rightarrow> prepared_document" where
  "set_embedding i v d = d\<lparr>pd_chunks := (pd_chunks d)[i := (pd_chunks d ! i)\<lparr>pc_embedding := v\<rparr>]\<rparr>"

text \<open>The vectors of one batch, stored from position \<open>i\<close> on.\<close>

fun embed_vectors ::
    "embedder \<Rightarrow> norms \<Rightarrow> vec list \<Rightarrow> nat \<Rightarrow> prepared_document \<Rightarrow> unit result \<times> prepared_document" where
  "embed_vectors E N [] i d = (Inr (), d)"
| "embed_vectors E N (v # vs) i d =
     (if length v \<noteq> em_dimension E then (fail Errc_dimension_mismatch ''embedding dimension does not match policy'', d)
      else if \<not> list_all f32_finite v then (fail Errc_invalid_argument ''embedding contains a non-finite value'', d)
      else if nm_zero N v then (fail Errc_invalid_argument ''embedding has zero norm'', d)
      else embed_vectors E N vs (i + 1) (set_embedding i (nm_normalize N v) d))"

function embed_loop ::
    "embedder \<Rightarrow> norms \<Rightarrow> nat \<Rightarrow> string list \<Rightarrow> nat \<Rightarrow> prepared_document \<Rightarrow> unit result \<times> prepared_document" where
  "embed_loop E N batch_size texts offset d =
     (if offset < length texts
      then
        let batch_size = (if batch_size \<noteq> 0 then batch_size else 1);
            count = min batch_size (length texts - offset) in
        case em_embed E (take count (drop offset texts)) of
          Inl e \<Rightarrow> (Inl e, d)
        | Inr vectors \<Rightarrow>
            (if length vectors \<noteq> count
             then (fail Errc_transport_error ''embedding result count does not match input'', d)
             else
               case embed_vectors E N vectors offset d of
                 (Inl e, d) \<Rightarrow> (Inl e, d)
               | (Inr _, d) \<Rightarrow> embed_loop E N batch_size texts (offset + batch_size) d)
      else (Inr (), d))"
  by pat_completeness auto
termination
  by (relation "measure (\<lambda>(E, N, batch_size, texts, offset, d). length texts - offset)") auto

declare embed_loop.simps [simp del]

definition embed_document :: "embedder \<Rightarrow> norms \<Rightarrow> nat \<Rightarrow> prepared_document \<Rightarrow> unit result \<times> prepared_document" where
  "embed_document E N batch_size d =
     (if pd_chunks d = [] then (Inr (), d\<lparr>pd_embedding_identity := em_identity E\<rparr>)
      else
        case embed_loop E N batch_size (map pc_indexed_text (pd_chunks d)) 0 d of
          (Inl e, d) \<Rightarrow> (Inl e, d)
        | (Inr _, d) \<Rightarrow> (Inr (), d\<lparr>pd_embedding_identity := em_identity E\<rparr>))"

definition prepare_document ::
    "document_key \<Rightarrow> string \<Rightarrow> metadata \<Rightarrow> string \<Rightarrow> prepare_options \<Rightarrow> norms \<Rightarrow> embedder option
       \<Rightarrow> prepared_document result" where
  "prepare_document key content metadata title options N embedder =
     (case prepare_chunks key content metadata title (po_chunking options) of
        Inl e \<Rightarrow> Inl e
      | Inr d \<Rightarrow>
          (case embedder of
             None \<Rightarrow> Inr d
           | Some E \<Rightarrow>
               (case embed_document E N (po_embedding_batch_size options) d of
                  (Inl e, _) \<Rightarrow> Inl e
                | (Inr _, d) \<Rightarrow> Inr d)))"

subsection \<open>Batches\<close>

lemma embed_vectors_append:
  "embed_vectors E N (xs @ ys) i d =
     (case embed_vectors E N xs i d of (Inl e, d) \<Rightarrow> (Inl e, d) | (Inr _, d) \<Rightarrow> embed_vectors E N ys (i + length xs) d)"
  by (induction xs arbitrary: i d) (auto simp: fail_def split: prod.splits sum.splits)

lemma embed_loop_pointwise:
  "(\<And>ts. em_embed E ts = Inr (map f ts)) \<Longrightarrow>
     embed_loop E N b texts offset d = embed_vectors E N (map f (drop offset texts)) offset d"
proof (induction E N b texts offset d rule: embed_loop.induct)
  case (1 E N b texts offset d)
  show ?case
  proof (cases "offset < length texts")
    case True
    define k where "k = (if b \<noteq> 0 then b else 1)"
    define n where "n = min k (length texts - offset)"
    have rest: "drop offset texts = take n (drop offset texts) @ drop (offset + n) texts"
      by (metis add.commute append_take_drop_id drop_drop)
    have jump: "drop (offset + k) texts = drop (offset + n) texts" by (auto simp: n_def min_def)
    have len: "length (map f (take n (drop offset texts))) = n" by (simp add: n_def)
    have IH: "embed_loop E N k texts (offset + k) d' = embed_vectors E N (map f (drop (offset + k) texts)) (offset + k) d'"
      if "embed_vectors E N (map f (take n (drop offset texts))) offset d = (Inr (), d')" for d'
      by (rule "1.IH" [OF True k_def n_def "1.prems" _ that [symmetric] refl "1.prems"]) (use len in simp)
    have far: "embed_vectors E N (map f (drop (offset + k) texts)) (offset + k) d'
        = embed_vectors E N (map f (drop (offset + n) texts)) (offset + n) d'" for d'
      by (cases "k \<le> length texts - offset") (auto simp: n_def min_def)
    have "embed_loop E N b texts offset d =
       (case embed_vectors E N (map f (take n (drop offset texts))) offset d of
          (Inl e, d) \<Rightarrow> (Inl e, d) | (Inr _, d) \<Rightarrow> embed_loop E N k texts (offset + k) d)"
      using len "1.prems"
      by (subst embed_loop.simps) (simp only: Let_def if_P [OF True] k_def [symmetric] n_def [symmetric], simp)
    also have "\<dots> = (case embed_vectors E N (map f (take n (drop offset texts))) offset d of
          (Inl e, d) \<Rightarrow> (Inl e, d) | (Inr _, d) \<Rightarrow> embed_vectors E N (map f (drop (offset + n) texts)) (offset + n) d)"
      using IH far by (auto split: prod.split sum.split)
    also have "\<dots> = embed_vectors E N (map f (drop offset texts)) offset d"
      using embed_vectors_append [of E N "map f (take n (drop offset texts))" "map f (drop (offset + n) texts)" offset d]
        len rest by (metis map_append)
    finally show ?thesis .
  qed (simp add: embed_loop.simps [of E N b texts offset d])
qed

lemma chunk_loop_sound:
  "in_order spans \<Longrightarrow> c \<in> set (chunk_loop opts doc spans hs i) \<Longrightarrow>
     chunk_start_line c \<le> chunk_end_line c \<and> chunk_text c \<noteq> []"
proof (induction opts doc spans hs i rule: chunk_loop.induct)
  case (1 opts doc spans hs i)
  show ?case
  proof (cases "i < length spans")
    case True
    obtain spans' hs' e tx ctx where f: "fill_chunk opts spans hs i [] [] 0 = (spans', hs', e, tx, ctx)"
      using prod_cases5 by blast
    note g = fill_chunk_gathers [OF f]
    have e: "i < e" "e \<le> length spans'" using fill_chunk_advances [OF f True] gathers_weight [OF g] True by simp_all
    have ord: "in_order spans'" using gathers_lines [OF g] True "1.prems" by simp
    have "c \<in> set (emit_chunk doc spans' i e tx ctx) \<or> c \<in> set (chunk_loop opts doc spans' hs' (next_start opts spans' i e))"
      using "1.prems"(2) True f by (simp add: chunk_loop.simps [of opts doc spans hs i])
    then show ?thesis
    proof
      assume "c \<in> set (emit_chunk doc spans' i e tx ctx)"
      with e ord sorted_nth_mono [of "map sp_line spans'" i "e - 1"] show ?thesis
        by (auto simp: emit_chunk_def Let_def in_order_def split: if_splits)
    next
      assume "c \<in> set (chunk_loop opts doc spans' hs' (next_start opts spans' i e))"
      from "1.IH" [OF True f [symmetric] refl refl refl ord this] show ?thesis .
    qed
  qed (use 1 in \<open>simp add: chunk_loop.simps [of opts doc spans hs i]\<close>)
qed

lemma chunk_document_sound:
  assumes "\<forall>body. normalize_input input opts = Some body \<longrightarrow> length (split_lines body) \<le> 2 ^ 32"
    and "c \<in> set (chunk_document docid input opts)"
  shows "chunk_start_line c \<le> chunk_end_line c \<and> chunk_text c \<noteq> []"
proof -
  obtain body where b: "normalize_input input opts = Some body"
      "c \<in> set (chunk_loop opts docid (body_spans opts (split_lines body) 0) (replicate 7 []) 0)"
    using assms(2) by (cases "normalize_input input opts") (auto simp: chunk_document_def split: if_splits)
  have "in_order (body_spans opts (split_lines body) 0)"
    using in_order_body_spans [of 0 "split_lines body" opts] assms(1) b(1) by simp
  from chunk_loop_sound [OF this b(2)] show ?thesis .
qed

subsection \<open>Prepared documents pass validation\<close>

definition chunk_valid :: "document_key \<Rightarrow> prepared_chunk \<Rightarrow> bool" where
  "chunk_valid key c \<longleftrightarrow> pc_key c = stable_chunk_key key (pc_start_line c) (pc_end_line c) (pc_text c) \<and>
     pc_start_line c \<le> pc_end_line c \<and> pc_text c \<noteq> [] \<and>
     pc_indexed_text c = (if pc_context c = [] then pc_text c else pc_context c @ [LF] @ pc_text c)"

lemma validate_chunks_plain:
  "\<forall>c \<in> set cs. chunk_valid (pd_key d) c \<and> pc_embedding c = [] \<Longrightarrow>
   \<forall>i < length cs. unat (pc_ordinal (cs ! i)) = index + i \<Longrightarrow> distinct (map pc_key cs) \<Longrightarrow>
   set (map pc_key cs) \<inter> set keys = {} \<Longrightarrow>
   validate_chunks F d cs index keys m ae x = Inr (ae, x \<or> cs \<noteq> [])"
proof (induction cs arbitrary: index keys x)
  case (Cons c cs)
  have "unat (pc_ordinal c) = index" "\<forall>i < length cs. unat (pc_ordinal (cs ! i)) = Suc index + i"
    using Cons.prems(2) by (simp_all add: All_less_Suc2)
  with Cons.IH [of "Suc index" "pc_key c # keys" True] Cons.prems show ?case
    by (auto simp: chunk_valid_def sample_key_nonempty)
qed simp

lemma validate_chunks_embedded:
  "\<forall>c \<in> set cs. chunk_valid (pd_key d) c \<and> length (pc_embedding c) = n \<and> list_all f32_finite (pc_embedding c)
      \<and> fp_norm_error F (pc_embedding c) \<le> kEmbeddingTolerance \<Longrightarrow>
   \<forall>i < length cs. unat (pc_ordinal (cs ! i)) = index + i \<Longrightarrow> distinct (map pc_key cs) \<Longrightarrow>
   set (map pc_key cs) \<inter> set keys = {} \<Longrightarrow> 0 < n \<Longrightarrow> m = 0 \<or> m = n \<Longrightarrow>
   validate_chunks F d cs index keys m ae x = Inr (ae \<or> cs \<noteq> [], x)"
proof (induction cs arbitrary: index keys m ae)
  case (Cons c cs)
  have ordinals: "unat (pc_ordinal c) = index" "\<forall>i < length cs. unat (pc_ordinal (cs ! i)) = Suc index + i"
    using Cons.prems(2) by (simp_all add: All_less_Suc2)
  have rest: "validate_chunks F d cs (Suc index) (pc_key c # keys) n True x = Inr (True \<or> cs \<noteq> [], x)"
  proof (rule Cons.IH)
    show "set (map pc_key cs) \<inter> set (pc_key c # keys) = {}" using Cons.prems(3,4) by auto
    show "distinct (map pc_key cs)" using Cons.prems(3) by simp
    show "\<forall>c \<in> set cs. chunk_valid (pd_key d) c \<and> length (pc_embedding c) = n \<and> list_all f32_finite (pc_embedding c)
        \<and> fp_norm_error F (pc_embedding c) \<le> kEmbeddingTolerance"
      using Cons.prems(1) by (meson list.set_intros(2))
  qed (simp_all add: ordinals(2) Cons.prems(5) del: add_Suc)
  have c: "chunk_valid (pd_key d) c" "length (pc_embedding c) = n" "list_all f32_finite (pc_embedding c)"
      "fp_norm_error F (pc_embedding c) \<le> kEmbeddingTolerance" "pc_key c \<notin> set keys"
    using Cons.prems(1,4) by (meson list.set_intros(1))+ (use Cons.prems(4) in auto)
  have e: "pc_embedding c \<noteq> []" using c(2) Cons.prems(5) by (metis less_not_refl list.size(3))
  show ?case
    using c(1,3,4,5) e ordinals(1) rest Cons.prems(6)
    by (elim disjE) (simp_all add: chunk_valid_def sample_key_nonempty Let_def c(2) not_less)
qed simp

text \<open>What embedding changes: only the embeddings, each a normalised vector of the model.\<close>

definition bare :: "prepared_chunk \<Rightarrow> prepared_chunk" where
  "bare c = c\<lparr>pc_embedding := []\<rparr>"

definition vector_ok :: "embedder \<Rightarrow> norms \<Rightarrow> vec \<Rightarrow> bool" where
  "vector_ok E N v \<longleftrightarrow> length v = em_dimension E \<and> list_all f32_finite v \<and> \<not> nm_zero N v"

definition embedded_to :: "embedder \<Rightarrow> norms \<Rightarrow> nat \<Rightarrow> prepared_document \<Rightarrow> bool" where
  "embedded_to E N n d \<longleftrightarrow> (\<forall>k < min n (length (pd_chunks d)).
     \<exists>v. vector_ok E N v \<and> pc_embedding (pd_chunks d ! k) = nm_normalize N v)"

definition same_but_vectors :: "prepared_document \<Rightarrow> prepared_document \<Rightarrow> bool" where
  "same_but_vectors d d' \<longleftrightarrow> d'\<lparr>pd_chunks := []\<rparr> = d\<lparr>pd_chunks := []\<rparr> \<and> map bare (pd_chunks d') = map bare (pd_chunks d)"

lemma same_but_vectors_key: "same_but_vectors d d' \<Longrightarrow> pd_key d' = pd_key d"
  unfolding same_but_vectors_def by (cases d; cases d'; simp)

lemma same_but_vectors_trans: "same_but_vectors a b \<Longrightarrow> same_but_vectors b c \<Longrightarrow> same_but_vectors a c"
  by (simp add: same_but_vectors_def)

lemma same_but_vectors_length: "same_but_vectors d d' \<Longrightarrow> length (pd_chunks d') = length (pd_chunks d)"
  by (metis length_map same_but_vectors_def)

lemma set_embedding_same: "same_but_vectors d (set_embedding i v d)"
  by (cases "i < length (pd_chunks d)")
    (auto simp: same_but_vectors_def set_embedding_def bare_def map_update list_update_same_conv list_update_beyond)

lemma set_embedding_to:
  assumes "embedded_to E N i d" and "vector_ok E N v"
  shows "embedded_to E N (Suc i) (set_embedding i (nm_normalize N v) d)"
  using assms by (auto simp: embedded_to_def set_embedding_def nth_list_update less_Suc_eq)

lemma embed_vectors_ok:
  "embed_vectors E N vs i d = (Inr (), d') \<Longrightarrow> embedded_to E N i d \<Longrightarrow>
     embedded_to E N (i + length vs) d' \<and> same_but_vectors d d'"
proof (induction vs arbitrary: i d)
  case (Cons v vs)
  then have v: "vector_ok E N v" and r: "embed_vectors E N vs (Suc i) (set_embedding i (nm_normalize N v) d) = (Inr (), d')"
    by (auto simp: vector_ok_def split: if_splits)
  from Cons.IH [OF r set_embedding_to [OF Cons.prems(2) v]] set_embedding_same show ?case
    using same_but_vectors_trans by simp blast
qed (simp add: same_but_vectors_def)

lemma embed_loop_ok:
  "embed_loop E N b texts offset d = (Inr (), d') \<Longrightarrow> embedded_to E N offset d \<Longrightarrow> length texts = length (pd_chunks d) \<Longrightarrow>
     embedded_to E N (length texts) d' \<and> same_but_vectors d d'"
proof (induction E N b texts offset d rule: embed_loop.induct)
  case (1 E N b texts offset d)
  show ?case
  proof (cases "offset < length texts")
    case True
    define k where "k = (if b \<noteq> 0 then b else 1)"
    define n where "n = min k (length texts - offset)"
    have step: "embed_loop E N b texts offset d =
      (case em_embed E (take n (drop offset texts)) of
          Inl e \<Rightarrow> (Inl e, d)
        | Inr vectors \<Rightarrow>
            (if length vectors \<noteq> n then (fail Errc_transport_error ''embedding result count does not match input'', d)
             else case embed_vectors E N vectors offset d of
                 (Inl e, d) \<Rightarrow> (Inl e, d)
               | (Inr _, d) \<Rightarrow> embed_loop E N k texts (offset + k) d))"
      by (subst embed_loop.simps) (simp only: Let_def if_P [OF True] k_def n_def)
    with "1.prems"(1) obtain vectors d1 where v: "em_embed E (take n (drop offset texts)) = Inr vectors" "length vectors = n"
        "embed_vectors E N vectors offset d = (Inr (), d1)" "embed_loop E N k texts (offset + k) d1 = (Inr (), d')"
      by (auto split: sum.splits if_splits prod.splits)
    have d1: "embedded_to E N (offset + n) d1" "same_but_vectors d d1"
      using embed_vectors_ok [OF v(3) "1.prems"(2)] v(2) by simp_all
    have len: "length texts = length (pd_chunks d1)" using same_but_vectors_length [OF d1(2)] "1.prems"(3) by simp
    have "embedded_to E N (offset + k) d1"
      using d1(1) len by (auto simp: embedded_to_def n_def min_def split: if_splits)
    from "1.IH" [OF True k_def n_def v(1) _ v(3) [symmetric] refl v(4) this len] v(2) d1(2) show ?thesis
      using same_but_vectors_trans by blast
  next
    case False
    with "1.prems" show ?thesis
      by (auto simp: embed_loop.simps [of E N b texts offset d] embedded_to_def same_but_vectors_def)
  qed
qed

lemma chunk_valid_bare [simp]: "chunk_valid key (bare c) = chunk_valid key c" "pc_ordinal (bare c) = pc_ordinal c"
  by (simp_all add: chunk_valid_def bare_def)

definition plausible :: "document_key \<Rightarrow> prepared_document \<Rightarrow> bool" where
  "plausible key d \<longleftrightarrow> pd_key d = key \<and> normalize_source_text (pd_content d) = pd_content d \<and>
     pd_content_hash d = document_content_hash (pd_title d) (pd_content d) (pd_metadata d) \<and>
     pd_chunking_fingerprint d \<noteq> [] \<and>
     (\<forall>i < length (pd_chunks d). chunk_valid key (pd_chunks d ! i) \<and> pc_ordinal (pd_chunks d ! i) = of_nat i)"

lemma normalize_idem: "normalize_source_text (normalize_source_text s) = normalize_source_text s"
  by (simp add: normalize_CR_free normalize_no_CR)

lemma prepare_chunks_plausible:
  assumes "prepare_chunks key content metadata title opts = Inr d"
    and "\<forall>body. normalize_input (normalize_source_text content) opts = Some body \<longrightarrow> length (split_lines body) \<le> 2 ^ 32"
  shows "plausible key d \<and> key \<noteq> [] \<and> (\<forall>c \<in> set (pd_chunks d). pc_embedding c = [])"
proof -
  have fp: "chunking_fingerprint opts \<noteq> []" by (simp add: chunking_fingerprint_def Let_def)
  have "chunk_valid key (prepared_chunk_of key i c)" if "c \<in> set (chunk_document 0 (normalize_source_text content) opts)" for i c
    using chunk_document_sound [OF assms(2) that] by (simp add: chunk_valid_def prepared_chunk_of_def)
  with assms(1) fp show ?thesis
    by (auto simp: prepare_chunks_def plausible_def Let_def normalize_idem nth_enumerate_eq prepared_chunk_of_def
        in_set_enumerate_eq split: if_splits)
qed

lemma plausible_same:
  assumes "plausible key d" and "same_but_vectors d d'"
  shows "plausible key d'"
proof -
  have f: "pd_key d' = pd_key d" "pd_title d' = pd_title d" "pd_content d' = pd_content d" "pd_metadata d' = pd_metadata d"
    "pd_content_hash d' = pd_content_hash d" "pd_chunking_fingerprint d' = pd_chunking_fingerprint d"
    using assms(2) unfolding same_but_vectors_def by (cases d; cases d'; simp)+
  have len: "length (pd_chunks d') = length (pd_chunks d)" by (rule same_but_vectors_length [OF assms(2)])
  have "bare (pd_chunks d' ! i) = bare (pd_chunks d ! i)" if "i < length (pd_chunks d)" for i
  proof -
    have "map bare (pd_chunks d') ! i = map bare (pd_chunks d) ! i" using assms(2) by (simp add: same_but_vectors_def)
    then show ?thesis using that len by simp
  qed
  note eq = this
  have "chunk_valid key (pd_chunks d' ! i) = chunk_valid key (pd_chunks d ! i)"
    and "pc_ordinal (pd_chunks d' ! i) = pc_ordinal (pd_chunks d ! i)" if "i < length (pd_chunks d)" for i
    using chunk_valid_bare(1) [of key "pd_chunks d' ! i"] chunk_valid_bare(1) [of key "pd_chunks d ! i"]
      chunk_valid_bare(2) [of "pd_chunks d' ! i"] chunk_valid_bare(2) [of "pd_chunks d ! i"] eq [OF that]
    by (simp_all del: chunk_valid_bare)
  with assms(1) f len show ?thesis by (simp add: plausible_def)
qed

lemma validate_plausible:
  assumes "plausible key d" and "key \<noteq> []" and "revision \<noteq> 0" and "distinct (map pc_key (pd_chunks d))"
    and "length (pd_chunks d) < 2 ^ 64"
    and "(\<forall>c \<in> set (pd_chunks d). pc_embedding c = []) \<or>
      (n \<noteq> 0 \<and> pd_embedding_identity d \<noteq> [] \<and> (\<forall>c \<in> set (pd_chunks d). length (pc_embedding c) = n \<and>
         list_all f32_finite (pc_embedding c) \<and> fp_norm_error F (pc_embedding c) \<le> kEmbeddingTolerance))"
  shows "validate F d revision = Inr ()"
proof -
  have chunks: "\<forall>c \<in> set (pd_chunks d). chunk_valid (pd_key d) c"
    and ords: "\<forall>i < length (pd_chunks d). unat (pc_ordinal (pd_chunks d ! i)) = 0 + i"
  proof -
    show "\<forall>c \<in> set (pd_chunks d). chunk_valid (pd_key d) c"
      using assms(1) by (auto simp: plausible_def in_set_conv_nth)
    show "\<forall>i < length (pd_chunks d). unat (pc_ordinal (pd_chunks d ! i)) = 0 + i"
    proof (intro allI impI)
      fix i assume i: "i < length (pd_chunks d)"
      then have "pc_ordinal (pd_chunks d ! i) = of_nat i" using assms(1) by (simp add: plausible_def)
      moreover have "i < 2 ^ 64" using i assms(5) by (rule less_trans)
      ultimately show "unat (pc_ordinal (pd_chunks d ! i)) = 0 + i" by (simp add: unat_of_nat take_bit_nat_eq_self)
    qed
  qed
  have "\<exists>ae ax. validate_chunks F d (pd_chunks d) 0 [] 0 False False = Inr (ae, ax) \<and> \<not> (ae \<and> ax)
      \<and> (ae \<longrightarrow> pd_embedding_identity d \<noteq> [])"
    using assms(6)
  proof (elim disjE)
    assume "\<forall>c \<in> set (pd_chunks d). pc_embedding c = []"
    with validate_chunks_plain [of "pd_chunks d" d 0 "[]" F 0 False False] chunks ords assms(4) show ?thesis by auto
  next
    assume "n \<noteq> 0 \<and> pd_embedding_identity d \<noteq> [] \<and> (\<forall>c \<in> set (pd_chunks d). length (pc_embedding c) = n \<and>
         list_all f32_finite (pc_embedding c) \<and> fp_norm_error F (pc_embedding c) \<le> kEmbeddingTolerance)"
    with validate_chunks_embedded [of "pd_chunks d" d n F 0 "[]" 0 False False] chunks ords assms(4) show ?thesis by auto
  qed
  with assms(1-3) show ?thesis
    by (auto simp: validate_def plausible_def sample_hash_nonempty)
qed


definition unit_embedder :: embedder where
  "unit_embedder = \<lparr>em_dimension = 1, em_identity = ''m'', em_embed = (\<lambda>ts. Inr (map (\<lambda>_. [0x3F800000]) ts))\<rparr>"

lemma unit_embed: "em_embed unit_embedder ts = Inr (map (\<lambda>_. [0x3F800000]) ts)"
  by (simp add: unit_embedder_def)

definition unit_norms :: norms where
  "unit_norms = \<lparr>nm_zero = (\<lambda>v. v = []), nm_normalize = (\<lambda>v. v)\<rparr>"

definition unit_prepared :: prepared_document where
  "unit_prepared = \<lparr>pd_key = ''d'', pd_title = ''t'', pd_content = ''x'', pd_metadata = [],
     pd_content_hash = document_content_hash ''t'' ''x'' [], pd_chunking_fingerprint = chunking_fingerprint (sample_options 3 False),
     pd_embedding_identity = ''m'',
     pd_chunks = [\<lparr>pc_key = stable_chunk_key ''d'' 0 0 ''x'', pc_ordinal = 0, pc_text = ''x'', pc_indexed_text = ''x'',
       pc_context = [], pc_start_line = 0, pc_end_line = 0, pc_embedding = [0x3F800000]\<rparr>]\<rparr>"

lemma unit_prepare:
  "prepare_document ''d'' ''x'' [] ''t'' \<lparr>po_chunking = sample_options 3 False, po_embedding_batch_size = 2\<rparr> unit_norms
     (Some unit_embedder) = Inr unit_prepared"
proof -
  have n: "normalize_source_text ''x'' = ''x''" by code_simp
  have "chunk_document 0 ''x'' (sample_options 3 False) = [\<lparr>chunk_id = id_invalid, chunk_doc = 0, chunk_text = ''x'',
      chunk_context = [], chunk_start_line = 0, chunk_end_line = 0, chunk_embedding = []\<rparr>]" by code_simp
  with n show ?thesis
    by (simp add: prepare_document_def prepare_chunks_def Let_def enumerate_eq_zip prepared_chunk_of_def embed_document_def
        embed_loop.simps unit_embedder_def unit_norms_def f32_finite_def set_embedding_def unit_prepared_def)
qed


text \<open>
  A repetitive line makes a document impossible to ingest. A line longer than the budget is cut
  into pieces that lie on the same line; when two of them read the same they get the same chunk key,
  and the backend refuses the whole document, under every revision and every embedder.\<close>
theorem repetitive_line_rejected:
  "\<exists>p. prepare_chunks ''d'' ''abcdabcd'' [] [] (sample_options 4 False) = Inr p \<and>
     map pc_text (pd_chunks p) = [''abcd'', ''abcd''] \<and>
     (revision = 0 \<or> validate F p revision = fail Errc_invalid_argument ''chunk keys must be non-empty and unique'')"
proof -
  have n: "normalize_source_text ''abcdabcd'' = ''abcdabcd''" by code_simp
  have "chunk_document 0 ''abcdabcd'' (sample_options 4 False) =
      [\<lparr>chunk_id = id_invalid, chunk_doc = 0, chunk_text = ''abcd'', chunk_context = [], chunk_start_line = 0,
        chunk_end_line = 0, chunk_embedding = []\<rparr>,
       \<lparr>chunk_id = id_invalid, chunk_doc = 0, chunk_text = ''abcd'', chunk_context = [], chunk_start_line = 0,
        chunk_end_line = 0, chunk_embedding = []\<rparr>]" by code_simp
  with n show ?thesis
    by (simp add: prepare_chunks_def Let_def enumerate_eq_zip prepared_chunk_of_def validate_def sample_key_nonempty
        sample_hash_nonempty chunking_fingerprint_def)
qed

text \<open>
  The batch size of the embedding calls is unobservable. For a model that embeds each text on its
  own, preparation gives the same document or the same error whatever the batch size, zero included.\<close>
theorem embedding_batch_irrelevant:
  assumes "\<And>ts. em_embed E ts = Inr (map f ts)"
  shows "prepare_document key content metadata title \<lparr>po_chunking = opts, po_embedding_batch_size = b\<rparr> N (Some E) =
    prepare_document key content metadata title \<lparr>po_chunking = opts, po_embedding_batch_size = c\<rparr> N (Some E)"
proof -
  have "embed_document E N b d = embed_document E N c d" for d
    by (simp add: embed_document_def embed_loop_pointwise [OF assms])
  then show ?thesis by (simp add: prepare_document_def split: sum.split)
qed

theorem embedding_batch_irrelevant_witness:
  "prepare_document ''d'' ''x'' [] ''t'' \<lparr>po_chunking = sample_options 3 False, po_embedding_batch_size = 0\<rparr> unit_norms
     (Some unit_embedder) = Inr unit_prepared"
  using embedding_batch_irrelevant [of unit_embedder "\<lambda>_. [0x3F800000]" "''d''" "''x''" "[]" "''t''" "sample_options 3 False" 0 unit_norms 2]
    unit_prepare unit_embed by simp

subsection \<open>The coordinator's preparation\<close>

text \<open>The calls of \<^verbatim>\<open>IngestionCoordinator::execute\<close> on its stored options and embedder.\<close>

definition with_preparation :: "prepare_options \<Rightarrow> norms \<Rightarrow> embedder option \<Rightarrow> ('b, 's) deps \<Rightarrow> ('b, 's) deps" where
  "with_preparation options N embedder1 D =
     D\<lparr>d_prepare := (\<lambda>inp. prepare_chunks (in_document inp) (in_content inp) (in_metadata inp) (in_title inp) (po_chunking options)),
       d_embed := map_option (\<lambda>E d. case embed_document E N (po_embedding_batch_size options) d of
         (Inl e, _) \<Rightarrow> Inl e | (Inr _, d) \<Rightarrow> Inr d) embedder1\<rparr>"

lemma embed_document_key: "embed_document E N b d = (Inr (), d') \<Longrightarrow> pd_key d' = pd_key d"
  using embed_loop_ok [of E N b "map pc_indexed_text (pd_chunks d)" 0 d]
  by (auto simp: embed_document_def embedded_to_def dest: same_but_vectors_key split: if_splits prod.splits sum.splits)

lemma with_preparation_ok: "prep_ok (with_preparation options N embedder1 D)"
  by (auto simp: prep_ok_def with_preparation_def prepare_chunks_def Let_def dest: embed_document_key
      split: if_splits prod.splits sum.splits)

end
