(* ===== verification/Embedded_Checkpoint.thy ===== *)
theory Embedded_Checkpoint
  imports Store_Container Store_Wal Job_Model Embedded_Backend
begin

text \<open>
  \<^verbatim>\<open>rag.cpp/src/backend/embedded_checkpoint.cpp\<close>: the portable durable state of the embedded backend,
  a container of metadata, documents, chunks, lexical index, embeddings and the runtime rows. The
  lexical index (its serialised form and the number of entries it reads back) and the JSON library
  are parameters. An exception of the loader is a \<open>corrupt_index\<close> failure, as its handlers make it.
\<close>

subsection \<open>The checkpoint\<close>

record checkpoint_document =
  cd_prepared :: "prepared_document option"   \<comment> \<open>\<open>None\<close>: a null pointer\<close>
  cd_revision :: document_revision

record checkpoint =
  cp_documents :: "checkpoint_document list"
  cp_revisions :: "(document_key \<times> document_revision) list"
  cp_generation :: u64
  cp_wal_position :: u64

record checkpoint_lib =
  cl_json :: json_lib
  cl_lexical :: "(u32 \<times> string) list \<Rightarrow> string"   \<comment> \<open>\<^verbatim>\<open>add\<close> of every row, \<^verbatim>\<open>finalize\<close>, \<^verbatim>\<open>serialize\<close>\<close>
  cl_lexical_size :: "string \<Rightarrow> nat option"        \<comment> \<open>\<^verbatim>\<open>deserialize\<close> and \<^verbatim>\<open>size\<close>\<close>

definition kRuntimeVersion :: u32 where "kRuntimeVersion = 1"

definition valid_string :: "string \<Rightarrow> bool" where
  "valid_string v \<longleftrightarrow> length v \<le> 0xFFFFFFFF"

fun check_save_chunks :: "prepared_chunk list \<Rightarrow> chunk_key list \<Rightarrow> chunk_key list result" where
  "check_save_chunks [] keys = Inr keys"
| "check_save_chunks (c # cs) keys =
     (if pc_key c = [] \<or> pc_key c \<in> set keys \<or> \<not> valid_string (pc_key c) \<or> \<not> valid_string (pc_text c)
         \<or> \<not> valid_string (pc_context c) \<or> \<not> valid_string (pc_indexed_text c)
         \<or> length (pc_embedding c) > kMaxVectorDimension
      then fail Errc_invalid_argument ''checkpoint chunk field is invalid''
      else check_save_chunks cs (pc_key c # keys))"

fun check_save_documents ::
    "checkpoint \<Rightarrow> checkpoint_document list \<Rightarrow> nat \<Rightarrow> document_key list \<Rightarrow> chunk_key list \<Rightarrow> unit result" where
  "check_save_documents cp [] chunks documents keys = Inr ()"
| "check_save_documents cp (entry # entries) chunks documents keys =
     (case cd_prepared entry of
        None \<Rightarrow> fail Errc_invalid_argument ''checkpoint prepared document is missing''
      | Some d \<Rightarrow>
          (if cd_revision entry = 0 \<or> pd_key d = [] \<or> pd_key d \<in> set documents
           then fail Errc_invalid_argument ''checkpoint document identity or revision is invalid''
           else if map_of (cp_revisions cp) (pd_key d) \<noteq> Some (cd_revision entry)
           then fail Errc_invalid_argument ''checkpoint active revision is missing from revision catalog''
           else if length (pd_metadata d) > kMaxMetadataEntries \<or> \<not> valid_string (pd_key d)
                   \<or> \<not> valid_string (pd_title d) \<or> \<not> valid_string (pd_content d)
                   \<or> \<not> valid_string (pd_content_hash d) \<or> \<not> valid_string (pd_chunking_fingerprint d)
                   \<or> \<not> valid_string (pd_embedding_identity d)
           then fail Errc_invalid_argument ''checkpoint document field exceeds limit''
           else if length (pd_chunks d) > kMaxChunks - chunks
           then fail Errc_invalid_argument ''checkpoint chunk limit exceeded''
           else if \<not> list_all (\<lambda>(k, v). valid_string k \<and> valid_string v) (pd_metadata d)
           then fail Errc_invalid_argument ''checkpoint metadata field exceeds limit''
           else and_then (check_save_chunks (pd_chunks d) keys) (\<lambda>keys.
             check_save_documents cp entries (chunks + length (pd_chunks d)) (pd_key d # documents) keys)))"

definition validate_for_save :: "checkpoint \<Rightarrow> unit result" where
  "validate_for_save cp =
     (if length (cp_documents cp) > kMaxDocuments
      then fail Errc_invalid_argument ''checkpoint document limit exceeded''
      else and_then (check_save_documents cp (cp_documents cp) 0 [] []) (\<lambda>_.
        if length (cp_revisions cp) > kMaxDocuments
        then fail Errc_invalid_argument ''checkpoint revision limit exceeded''
        else if \<not> list_all (\<lambda>(document, revision). document \<noteq> [] \<and> valid_string document \<and> revision \<noteq> 0) (cp_revisions cp)
        then fail Errc_invalid_argument ''checkpoint revision row is invalid''
        else Inr ()))"

subsection \<open>Saving\<close>

definition wr_metadata :: "metadata \<Rightarrow> string" where
  "wr_metadata m = concat (map (\<lambda>(k, v). wr_str k @ wr_str v) m)"

definition wr_document :: "nat \<times> prepared_document \<Rightarrow> string" where
  "wr_document = (\<lambda>(index, d). wr_u (of_nat index :: u32) @ wr_str (pd_key d) @ wr_str (pd_title d)
     @ wr_str (pd_content d) @ wr_u (of_nat (length (pd_metadata d)) :: u32) @ wr_metadata (pd_metadata d))"

definition documents_section :: "prepared_document list \<Rightarrow> string" where
  "documents_section ds = wr_u (of_nat (length ds) :: u32) @ concat (map wr_document (enumerate 0 ds))"

text \<open>The chunks of all documents in order, each with the index of its document.\<close>

definition chunk_rows :: "prepared_document list \<Rightarrow> (nat \<times> prepared_chunk) list" where
  "chunk_rows ds = concat (map (\<lambda>(j, d). map (Pair j) (pd_chunks d)) (enumerate 0 ds))"

definition wr_chunk :: "nat \<times> nat \<times> prepared_chunk \<Rightarrow> string" where
  "wr_chunk = (\<lambda>(i, j, c). wr_u (of_nat i :: u32) @ wr_u (of_nat j :: u32) @ wr_str (pc_text c) @ wr_str (pc_context c)
     @ wr_u (pc_start_line c) @ wr_u (pc_end_line c))"

definition chunks_section :: "prepared_document list \<Rightarrow> string" where
  "chunks_section ds =
     wr_u (of_nat (length (chunk_rows ds)) :: u32) @ concat (map wr_chunk (enumerate 0 (chunk_rows ds)))"

definition wr_vector :: "vec \<Rightarrow> string" where
  "wr_vector v = wr_u (of_nat (length v) :: u32) @ concat (map wr_u v)"

definition embeddings_section :: "prepared_document list \<Rightarrow> string" where
  "embeddings_section ds = concat (map (\<lambda>(j, c). wr_vector (pc_embedding c)) (chunk_rows ds))"

definition wr_runtime_chunk :: "prepared_chunk \<Rightarrow> string" where
  "wr_runtime_chunk c = wr_str (pc_key c) @ wr_u (pc_ordinal c) @ wr_str (pc_indexed_text c)"

definition wr_runtime_document :: "document_revision \<times> prepared_document \<Rightarrow> string" where
  "wr_runtime_document = (\<lambda>(revision, d). wr_str (pd_key d) @ wr_u revision @ wr_str (pd_content_hash d)
     @ wr_str (pd_chunking_fingerprint d) @ wr_str (pd_embedding_identity d)
     @ wr_u (of_nat (length (pd_chunks d)) :: u32) @ concat (map wr_runtime_chunk (pd_chunks d)))"

definition wr_revision :: "document_key \<times> document_revision \<Rightarrow> string" where
  "wr_revision = (\<lambda>(document, revision). wr_str document @ wr_u revision)"

definition runtime_section :: "checkpoint \<Rightarrow> prepared_document list \<Rightarrow> string" where
  "runtime_section cp ds =
     wr_u kRuntimeVersion @ wr_u (cp_generation cp) @ wr_u (cp_wal_position cp) @ wr_u (of_nat (length ds) :: u32)
     @ concat (map wr_runtime_document (zip (map cd_revision (cp_documents cp)) ds))
     @ wr_u (of_nat (length (cp_revisions cp)) :: u32) @ concat (map wr_revision (cp_revisions cp))"

definition runtime_meta :: json where
  "runtime_meta = JObj [(''runtime_checkpoint'', JInt (uint kRuntimeVersion))]"

definition checkpoint_container :: "checkpoint_lib \<Rightarrow> string \<Rightarrow> checkpoint \<Rightarrow> prepared_document list \<Rightarrow> container" where
  "checkpoint_container L meta cp ds =
     (let any_embeddings = list_ex (\<lambda>(j, c). pc_embedding c \<noteq> []) (chunk_rows ds);
          c = container_put Tag_meta meta container_new;
          c = container_put Tag_docs (documents_section ds) c;
          c = container_put Tag_chunks (chunks_section ds) c;
          c = container_put Tag_bm25
                (cl_lexical L (map (\<lambda>(i, j, c). (of_nat i, pc_indexed_text c)) (enumerate 0 (chunk_rows ds)))) c;
          c = (if any_embeddings then container_put Tag_embed (embeddings_section ds) c else c);
          c = container_put Tag_runtime (runtime_section cp ds) c
      in container_set_flags (if any_embeddings then kHasEmbeddings else 0) c)"

text \<open>
  \<^verbatim>\<open>save\<close>: the file-system states passed through and the result, as for \<^verbatim>\<open>Container::write_file\<close>.
\<close>

definition checkpoint_save ::
    "checkpoint_lib \<Rightarrow> write_env \<Rightarrow> string \<Rightarrow> checkpoint \<Rightarrow> fs \<Rightarrow> fs list \<times> unit result" where
  "checkpoint_save L env path cp fs =
     (case validate_for_save cp of
        Inl e \<Rightarrow> ([fs], Inl e)
      | Inr _ \<Rightarrow>
          (case jl_dump (cl_json L) runtime_meta of
             None \<Rightarrow> ([fs], fail Errc_io_error (''checkpoint save failed: '' @ what (cl_json L) Type_error))
           | Some meta \<Rightarrow>
               write_file env path (checkpoint_container L meta cp (map (the \<circ> cd_prepared) (cp_documents cp))) fs))"

subsection \<open>Loading\<close>

abbreviation corrupt :: "string \<Rightarrow> 'a result" where
  "corrupt msg \<equiv> fail Errc_corrupt_index msg"

text \<open>A read that must succeed.\<close>

abbreviation need :: "'a option \<Rightarrow> string \<Rightarrow> 'a result" where
  "need r msg \<equiv> require r Errc_corrupt_index msg"

fun rd_metadata_rows :: "nat \<Rightarrow> string \<Rightarrow> metadata \<Rightarrow> (metadata \<times> string) result" where
  "rd_metadata_rows 0 s m = Inr (m, s)"
| "rd_metadata_rows (Suc n) s m =
     and_then (need (rd_str s) ''checkpoint metadata row is invalid'') (\<lambda>(k, s).
     and_then (need (rd_str s) ''checkpoint metadata row is invalid'') (\<lambda>(v, s).
       if map_of m k \<noteq> None then corrupt ''checkpoint metadata row is invalid''
       else rd_metadata_rows n s (fst (omap_emplace k v m))))"

definition blank_document :: prepared_document where
  "blank_document = \<lparr>pd_key = [], pd_title = [], pd_content = [], pd_metadata = [], pd_content_hash = [],
     pd_chunking_fingerprint = [], pd_embedding_identity = [], pd_chunks = []\<rparr>"

definition blank_chunk :: prepared_chunk where
  "blank_chunk = \<lparr>pc_key = [], pc_ordinal = 0, pc_text = [], pc_indexed_text = [], pc_context = [],
     pc_start_line = 0, pc_end_line = 0, pc_embedding = []\<rparr>"

text \<open>The rows of documents \<open>index\<close> and after; \<open>n\<close> of them are left.\<close>

fun rd_documents :: "nat \<Rightarrow> u32 \<Rightarrow> string \<Rightarrow> prepared_document list \<Rightarrow> (prepared_document list \<times> string) result" where
  "rd_documents 0 index s ds = Inr (ds, s)"
| "rd_documents (Suc n) index s ds =
     and_then (need (rd_u s) ''checkpoint document row is invalid'') (\<lambda>(i, s).
       if i \<noteq> index then corrupt ''checkpoint document row is invalid''
       else
     and_then (need (rd_str s) ''checkpoint document row is invalid'') (\<lambda>(key, s).
     and_then (need (rd_str s) ''checkpoint document row is invalid'') (\<lambda>(title, s).
     and_then (need (rd_str s) ''checkpoint document row is invalid'') (\<lambda>(content, s).
     and_then (need (rd_u s) ''checkpoint metadata count is invalid'') (\<lambda>(count :: u32, s).
       if unat count > kMaxMetadataEntries \<or> unat count > length s div 8
       then corrupt ''checkpoint metadata count is invalid''
       else
     and_then (rd_metadata_rows (unat count) s []) (\<lambda>(meta, s).
       rd_documents n (index + 1) s
         (ds @ [blank_document\<lparr>pd_key := key, pd_title := title, pd_content := content, pd_metadata := meta\<rparr>])))))))"

definition push_chunk :: "nat \<Rightarrow> prepared_chunk \<Rightarrow> prepared_document list \<Rightarrow> prepared_document list" where
  "push_chunk j c ds = ds[j := (ds ! j)\<lparr>pd_chunks := pd_chunks (ds ! j) @ [c]\<rparr>]"

definition set_chunk :: "nat \<Rightarrow> nat \<Rightarrow> (prepared_chunk \<Rightarrow> prepared_chunk) \<Rightarrow> prepared_document list \<Rightarrow> prepared_document list" where
  "set_chunk j k f ds =
     ds[j := (ds ! j)\<lparr>pd_chunks := (pd_chunks (ds ! j))[k := f (pd_chunks (ds ! j) ! k)]\<rparr>]"

fun rd_chunks ::
    "nat \<Rightarrow> u32 \<Rightarrow> string \<Rightarrow> prepared_document list \<Rightarrow> (nat \<times> nat) list
       \<Rightarrow> (prepared_document list \<times> (nat \<times> nat) list \<times> string) result" where
  "rd_chunks 0 index s ds locations = Inr (ds, locations, s)"
| "rd_chunks (Suc n) index s ds locations =
     and_then (need (rd_u s) ''checkpoint chunk identity is invalid'') (\<lambda>(i, s).
       if i \<noteq> index then corrupt ''checkpoint chunk identity is invalid''
       else
     and_then (need (rd_u s) ''checkpoint chunk identity is invalid'') (\<lambda>(document_id :: u32, s).
       if unat document_id \<ge> length ds then corrupt ''checkpoint chunk identity is invalid''
       else
     and_then (need (rd_str s) ''checkpoint chunk row is invalid'') (\<lambda>(body, s).
     and_then (need (rd_str s) ''checkpoint chunk row is invalid'') (\<lambda>(ctx, s).
     and_then (need (rd_u s) ''checkpoint chunk row is invalid'') (\<lambda>(start_line, s).
     and_then (need (rd_u s) ''checkpoint chunk row is invalid'') (\<lambda>(end_line, s).
       if start_line > end_line then corrupt ''checkpoint chunk row is invalid''
       else
         let j = unat document_id in
         rd_chunks n (index + 1) s
           (push_chunk j (blank_chunk\<lparr>pc_text := body, pc_context := ctx, pc_start_line := start_line,
                                      pc_end_line := end_line\<rparr>) ds)
           (locations @ [(j, length (pd_chunks (ds ! j)))])))))))"

fun rd_floats :: "nat \<Rightarrow> string \<Rightarrow> vec" where
  "rd_floats 0 s = []"
| "rd_floats (Suc n) s = of_nat (le_nat (take 4 s)) # rd_floats n (drop 4 s)"

fun rd_embeddings ::
    "fp \<Rightarrow> (nat \<times> nat) list \<Rightarrow> nat \<Rightarrow> string \<Rightarrow> prepared_document list \<Rightarrow> (prepared_document list \<times> string) result" where
  "rd_embeddings F [] dimension s ds = Inr (ds, s)"
| "rd_embeddings F ((j, k) # locations) dimension s ds =
     and_then (need (rd_u s) ''checkpoint embedding dimension is invalid'') (\<lambda>(row :: u32, s).
       if unat row > kMaxVectorDimension \<or> (dimension \<noteq> 0 \<and> unat row \<noteq> dimension)
       then corrupt ''checkpoint embedding dimension is invalid''
       else
         let dimension = (if row \<noteq> 0 then unat row else dimension) in
         if unat row > length s div 4 then corrupt ''checkpoint embedding row is truncated''
         else
     and_then (need (rd_bytes (unat row * 4) s) ''checkpoint embedding row is truncated'') (\<lambda>(bytes, s).
         let v = rd_floats (unat row) bytes in
         if \<not> list_all f32_finite v then corrupt ''checkpoint embedding is non-finite''
         else if v \<noteq> [] \<and> fp_norm_error F v > kEmbeddingTolerance then corrupt ''checkpoint embedding is not normalized''
         else rd_embeddings F locations dimension s (set_chunk j k (\<lambda>c. c\<lparr>pc_embedding := v\<rparr>) ds)))"

fun rd_runtime_chunks :: "prepared_chunk list \<Rightarrow> nat \<Rightarrow> string \<Rightarrow> (prepared_chunk list \<times> string) result" where
  "rd_runtime_chunks [] index s = Inr ([], s)"
| "rd_runtime_chunks (c # cs) index s =
     and_then (need (rd_str s) ''checkpoint runtime chunk is invalid'') (\<lambda>(key, s).
     and_then (need (rd_u s) ''checkpoint runtime chunk is invalid'') (\<lambda>(ordinal :: u64, s).
       if unat ordinal \<noteq> index then corrupt ''checkpoint runtime chunk is invalid''
       else
     and_then (need (rd_str s) ''checkpoint runtime chunk is invalid'') (\<lambda>(itext, s).
     and_then (rd_runtime_chunks cs (index + 1) s) (\<lambda>(cs, s).
       Inr (c\<lparr>pc_key := key, pc_ordinal := ordinal, pc_indexed_text := itext\<rparr> # cs, s)))))"

fun rd_runtime_documents ::
    "prepared_document list \<Rightarrow> string \<Rightarrow> ((document_revision \<times> prepared_document) list \<times> string) result" where
  "rd_runtime_documents [] s = Inr ([], s)"
| "rd_runtime_documents (d # ds) s =
     and_then (need (rd_str s) ''checkpoint runtime document is invalid'') (\<lambda>(key, s).
       if key \<noteq> pd_key d then corrupt ''checkpoint runtime document is invalid''
       else
     and_then (need (rd_u s) ''checkpoint runtime document is invalid'') (\<lambda>(revision :: document_revision, s).
       if revision = 0 then corrupt ''checkpoint runtime document is invalid''
       else
     and_then (need (rd_str s) ''checkpoint runtime document is invalid'') (\<lambda>(hash, s).
     and_then (need (rd_str s) ''checkpoint runtime document is invalid'') (\<lambda>(fingerprint, s).
     and_then (need (rd_str s) ''checkpoint runtime document is invalid'') (\<lambda>(identity, s).
     and_then (need (rd_u s) ''checkpoint runtime document is invalid'') (\<lambda>(count :: u32, s).
       if unat count \<noteq> length (pd_chunks d) then corrupt ''checkpoint runtime document is invalid''
       else
     and_then (rd_runtime_chunks (pd_chunks d) 0 s) (\<lambda>(chunks, s).
     and_then (rd_runtime_documents ds s) (\<lambda>(rows, s).
       Inr ((revision, d\<lparr>pd_content_hash := hash, pd_chunking_fingerprint := fingerprint,
                         pd_embedding_identity := identity, pd_chunks := chunks\<rparr>) # rows, s)))))))))"

fun rd_revisions ::
    "nat \<Rightarrow> string \<Rightarrow> (document_key \<times> document_revision) list
       \<Rightarrow> ((document_key \<times> document_revision) list \<times> string) result" where
  "rd_revisions 0 s m = Inr (m, s)"
| "rd_revisions (Suc n) s m =
     and_then (need (rd_str s) ''checkpoint revision row is invalid'') (\<lambda>(document, s).
       if document = [] then corrupt ''checkpoint revision row is invalid''
       else
     and_then (need (rd_u s) ''checkpoint revision row is invalid'') (\<lambda>(revision, s).
       if revision = 0 \<or> map_of m document \<noteq> None then corrupt ''checkpoint revision row is invalid''
       else rd_revisions n s (fst (omap_emplace document revision m))))"

definition meta_accepted :: "json_lib \<Rightarrow> string \<Rightarrow> unit result" where
  "meta_accepted L meta =
     (case jl_parse L meta of
        Some (JObj m) \<Rightarrow>
          (case map_of m ''runtime_checkpoint'' of
             None \<Rightarrow> corrupt ''checkpoint metadata is invalid''
           | Some v \<Rightarrow>
               (case get_u32 L v of
                  Inl e \<Rightarrow> corrupt (''checkpoint load failed: '' @ what L e)
                | Inr version \<Rightarrow>
                    (if version \<noteq> kRuntimeVersion then corrupt ''checkpoint metadata is invalid'' else Inr ())))
      | _ \<Rightarrow> corrupt ''checkpoint metadata is invalid'')"

definition load_documents :: "string \<Rightarrow> prepared_document list result" where
  "load_documents blob =
     and_then (need (rd_u blob) ''checkpoint document count is invalid'') (\<lambda>(count :: u32, s).
       if unat count > kMaxDocuments then corrupt ''checkpoint document count is invalid''
       else and_then (rd_documents (unat count) 0 s []) (\<lambda>(ds, s).
         if s \<noteq> [] then corrupt ''checkpoint has trailing document data'' else Inr ds))"

definition load_chunks :: "string \<Rightarrow> prepared_document list \<Rightarrow> (prepared_document list \<times> (nat \<times> nat) list) result" where
  "load_chunks blob ds =
     and_then (need (rd_u blob) ''checkpoint chunk count is invalid'') (\<lambda>(count :: u32, s).
       if unat count > kMaxChunks then corrupt ''checkpoint chunk count is invalid''
       else and_then (rd_chunks (unat count) 0 s ds []) (\<lambda>(ds, locations, s).
         if s \<noteq> [] then corrupt ''checkpoint has trailing chunk data'' else Inr (ds, locations)))"

definition load_embeddings :: "fp \<Rightarrow> string \<Rightarrow> (nat \<times> nat) list \<Rightarrow> prepared_document list \<Rightarrow> prepared_document list result" where
  "load_embeddings F blob locations ds =
     and_then (rd_embeddings F locations 0 blob ds) (\<lambda>(ds, s).
       if s \<noteq> [] then corrupt ''checkpoint has trailing embedding data'' else Inr ds)"

definition load_runtime :: "string \<Rightarrow> prepared_document list \<Rightarrow> checkpoint result" where
  "load_runtime blob ds =
     and_then (need (rd_u blob) ''checkpoint runtime header is invalid'') (\<lambda>(version, s).
       if version \<noteq> kRuntimeVersion then corrupt ''checkpoint runtime header is invalid''
       else
     and_then (need (rd_u s) ''checkpoint runtime header is invalid'') (\<lambda>(number, s).
     and_then (need (rd_u s) ''checkpoint runtime header is invalid'') (\<lambda>(wal, s).
     and_then (need (rd_u s) ''checkpoint runtime header is invalid'') (\<lambda>(count :: u32, s).
       if unat count \<noteq> length ds then corrupt ''checkpoint runtime header is invalid''
       else
     and_then (rd_runtime_documents ds s) (\<lambda>(rows, s).
     and_then (need (rd_u s) ''checkpoint revision count is invalid'') (\<lambda>(revision_count :: u32, s).
       if unat revision_count > kMaxDocuments then corrupt ''checkpoint revision count is invalid''
       else
     and_then (rd_revisions (unat revision_count) s []) (\<lambda>(revisions, s).
       if \<not> list_all (\<lambda>(revision, d). map_of revisions (pd_key d) = Some revision) rows
       then corrupt ''checkpoint active revision is inconsistent''
       else if s \<noteq> [] then corrupt ''checkpoint has trailing runtime data''
       else Inr \<lparr>cp_documents = map (\<lambda>(revision, d). \<lparr>cd_prepared = Some d, cd_revision = revision\<rparr>) rows,
                 cp_revisions = revisions, cp_generation = number, cp_wal_position = wal\<rparr>)))))))"

definition checkpoint_of_view :: "checkpoint_lib \<Rightarrow> fp \<Rightarrow> view \<Rightarrow> checkpoint result" where
  "checkpoint_of_view L F v =
     (case (view_get Tag_meta v, view_get Tag_docs v, view_get Tag_chunks v, view_get Tag_bm25 v, view_get Tag_runtime v) of
        (Some meta, Some docs, Some chunks, Some lexical, Some runtime) \<Rightarrow>
          (if (lay_flags (vw_layout v) AND kHasEmbeddings \<noteq> 0) \<noteq> view_has Tag_embed v
           then corrupt ''checkpoint embedding flag is inconsistent''
           else and_then (meta_accepted (cl_json L) meta) (\<lambda>_.
             and_then (load_documents docs) (\<lambda>ds.
             and_then (load_chunks chunks ds) (\<lambda>(ds, locations).
             and_then (case view_get Tag_embed v of
                         None \<Rightarrow> Inr ds | Some blob \<Rightarrow> load_embeddings F blob locations ds) (\<lambda>ds.
               if cl_lexical_size L lexical \<noteq> Some (length locations)
               then corrupt ''checkpoint lexical index is invalid''
               else load_runtime runtime ds)))))
      | _ \<Rightarrow> corrupt ''checkpoint is missing required sections'')"

definition checkpoint_load ::
    "checkpoint_lib \<Rightarrow> fp \<Rightarrow> view_env \<Rightarrow> (section_range list \<Rightarrow> section_range list) \<Rightarrow> string \<Rightarrow> fs \<Rightarrow> checkpoint result" where
  "checkpoint_load L F env std_sort path fs =
     and_then (view_open_file env std_sort path fs) (checkpoint_of_view L F)"

end
