(* ===== verification/Checkpoint_Roundtrip.thy ===== *)
theory Checkpoint_Roundtrip
  imports Embedded_Checkpoint
begin

text \<open>
  Saving a checkpoint and loading it gives the checkpoint back, section by section, when its vectors
  have one dimension; a checkpoint that mixes embedded and lexical-only documents can be saved and
  not loaded (the embedded backend never writes one).
\<close>

subsection \<open>The view of a written container\<close>

lemma map_of_fold_sections:
  "distinct (map sr_tag xs) \<Longrightarrow>
     map_of (fold (\<lambda>(k, v). omap_put k v) (map (\<lambda>x. (sr_tag x, f x)) xs) m) t =
       (case find (\<lambda>x. sr_tag x = t) xs of None \<Rightarrow> map_of m t | Some x \<Rightarrow> Some (f x))"
proof (induction xs arbitrary: m)
  case (Cons x xs)
  have "sr_tag x = t \<Longrightarrow> find (\<lambda>x. sr_tag x = t) xs = None"
    using Cons.prems by (cases "find (\<lambda>x. sr_tag x = t) xs") (auto dest!: find_SomeD, metis imageI)
  with Cons show ?case by (auto split: option.split)
qed simp

lemma view_of_serialized:
  assumes "container_wf c" and "std_sort_spec srt" and "\<forall>(t, p) \<in> set (ct_sections c). p \<noteq> []"
    and "fs path = Some (serialize c)"
  shows "\<exists>v. view_open_file view_ok srt path fs = Inr v \<and> lay_flags (vw_layout v) = ct_flags c \<and>
    (\<forall>t. view_get t v = map_of (ct_sections c) (tag_value t))"
proof -
  have ne: "serialize c \<noteq> []" using length_serialize [of c] by (metis add_is_0 list.size(3) zero_neq_numeral)
  have len: "length (serialize c) < 2 ^ 64" using assms(1) by (simp add: container_wf_def)
  from parse_serialize [OF assms(1-3)] obtain lay where lay: "validate_container_layout srt (serialize c) = Inr lay"
      "c = \<lparr>ct_sections = fold (\<lambda>(k, v). omap_put k v)
               (map (\<lambda>x. (sr_tag x, section_bytes (serialize c) x)) (lay_sections lay)) [],
            ct_flags = lay_flags lay, ct_major = lay_major lay, ct_minor = lay_minor lay\<rparr>"
    by (auto simp: container_parse_def and_then_Inr)
  let ?v = "\<lparr>vw_data = serialize c, vw_layout = lay\<rparr>"
  have d: "distinct (map sr_tag (lay_sections lay))"
    by (rule validated_sections(1) [OF lay(1) assms(2) len])
  have "ct_flags c = lay_flags lay" by (subst lay(2)) simp
  moreover have "view_get t ?v = map_of (ct_sections c) (tag_value t)" for t
    by (subst (2) lay(2)) (simp add: view_get_def view_get_raw_def map_of_fold_sections [OF d] split: option.split)
  moreover have "view_open_file view_ok srt path fs = Inr ?v"
    using lay(1) assms(4) ne by (simp add: view_open_file_def view_ok_def)
  ultimately show ?thesis by (intro exI [of _ ?v]) simp
qed

subsection \<open>Documents\<close>

lemma valid_string_short: "valid_string s \<Longrightarrow> length s < 4294967296"
  by (simp add: valid_string_def)

lemma omap_emplace_above:
  assumes "omap_wf (acc @ (k, v) # m)"
  shows "map_of acc k = None \<and> fst (omap_emplace k v acc) = acc @ [(k, v)]"
proof -
  have above: "\<forall>q \<in> set acc. fst q < k" using assms by (auto simp: omap_wf_def sorted_wrt_append)
  then have "map_of acc k = None" by (auto simp: map_of_eq_None_iff)
  with above show ?thesis by (simp add: omap_emplace_def omap_put_above)
qed

lemma length_wr_metadata: "8 * length m \<le> length (wr_metadata m)"
  unfolding wr_metadata_def by (rule length_meta_bytes)

lemma rd_metadata_rows_wr:
  "omap_wf (acc @ m) \<Longrightarrow> \<forall>(k, v) \<in> set m. valid_string k \<and> valid_string v \<Longrightarrow>
     rd_metadata_rows (length m) (wr_metadata m @ s) acc = Inr (acc @ m, s)"
proof (induction m arbitrary: acc)
  case (Cons p m)
  obtain k v where p: "p = (k, v)" by force
  have e: "map_of acc k = None" "fst (omap_emplace k v acc) = acc @ [(k, v)]"
    using omap_emplace_above [of acc k v m] Cons.prems(1) p by simp_all
  have "length k < 4294967296" "length v < 4294967296" using Cons.prems(2) p valid_string_short by auto
  with Cons e p show ?case by (simp add: wr_metadata_def)
qed (simp add: wr_metadata_def)

definition document_storable :: "prepared_document \<Rightarrow> bool" where
  "document_storable d \<longleftrightarrow> omap_wf (pd_metadata d) \<and> length (pd_metadata d) \<le> kMaxMetadataEntries \<and>
     valid_string (pd_key d) \<and> valid_string (pd_title d) \<and> valid_string (pd_content d) \<and>
     valid_string (pd_content_hash d) \<and> valid_string (pd_chunking_fingerprint d) \<and> valid_string (pd_embedding_identity d) \<and>
     (\<forall>(k, v) \<in> set (pd_metadata d). valid_string k \<and> valid_string v) \<and> length (pd_chunks d) \<le> kMaxChunks \<and>
     (\<forall>i < length (pd_chunks d). unat (pc_ordinal (pd_chunks d ! i)) = i) \<and>
     (\<forall>c \<in> set (pd_chunks d). valid_string (pc_key c) \<and> valid_string (pc_text c) \<and> valid_string (pc_context c) \<and>
        valid_string (pc_indexed_text c) \<and> length (pc_embedding c) \<le> kMaxVectorDimension \<and> pc_start_line c \<le> pc_end_line c)"

text \<open>What of a document has been read after its row, after its chunk rows, and after its vectors.\<close>

definition row_document :: "prepared_document \<Rightarrow> prepared_document" where
  "row_document d = blank_document\<lparr>pd_key := pd_key d, pd_title := pd_title d, pd_content := pd_content d,
     pd_metadata := pd_metadata d\<rparr>"

definition row_chunk :: "prepared_chunk \<Rightarrow> prepared_chunk" where
  "row_chunk c = blank_chunk\<lparr>pc_text := pc_text c, pc_context := pc_context c, pc_start_line := pc_start_line c,
     pc_end_line := pc_end_line c\<rparr>"

definition vector_chunk :: "prepared_chunk \<Rightarrow> prepared_chunk" where
  "vector_chunk c = (row_chunk c)\<lparr>pc_embedding := pc_embedding c\<rparr>"

definition with_chunks :: "(prepared_chunk \<Rightarrow> prepared_chunk) \<Rightarrow> prepared_document \<Rightarrow> prepared_document" where
  "with_chunks f d = (row_document d)\<lparr>pd_chunks := map f (pd_chunks d)\<rparr>"

lemma wr_document_pair:
  "wr_document (index, d) = wr_u (of_nat index :: u32) @ wr_str (pd_key d) @ wr_str (pd_title d)
     @ wr_str (pd_content d) @ wr_u (of_nat (length (pd_metadata d)) :: u32) @ wr_metadata (pd_metadata d)"
  by (simp add: wr_document_def)

lemma rd_documents_wr:
  "\<forall>d \<in> set ds. document_storable d \<Longrightarrow>
     rd_documents (length ds) (of_nat i) (concat (map wr_document (enumerate i ds)) @ s) acc = Inr (acc @ map row_document ds, s)"
proof (induction ds arbitrary: i acc)
  case (Cons d ds)
  then have d: "document_storable d" by simp
  then have short: "length (pd_key d) < 4294967296" "length (pd_title d) < 4294967296" "length (pd_content d) < 4294967296"
    by (simp_all add: document_storable_def valid_string_short)
  have count: "length (pd_metadata d) \<le> kMaxMetadataEntries" using d by (simp add: document_storable_def)
  then have n: "unat (of_nat (length (pd_metadata d)) :: u32) = length (pd_metadata d)"
    by (intro unat_of_nat_u32) (simp add: kMaxMetadataEntries_def)
  have meta: "rd_metadata_rows (length (pd_metadata d)) (wr_metadata (pd_metadata d) @ r) [] = Inr (pd_metadata d, r)" for r
    using rd_metadata_rows_wr [of "[]" "pd_metadata d" r] d by (simp add: document_storable_def)
  have room: "length (pd_metadata d) \<le> (length (wr_metadata (pd_metadata d)) + n) div 8" for n
    using length_wr_metadata [of "pd_metadata d"] by simp
  have IH: "rd_documents (length ds) (of_nat i + 1) (concat (map wr_document (enumerate (Suc i) ds)) @ s) acc' =
      Inr (acc' @ map row_document ds, s)" for acc'
    using Cons.IH [of "Suc i" acc'] Cons.prems by (simp add: add.commute)
  show ?case
    using short count
    by (simp add: wr_document_pair room n meta IH row_document_def not_less)
qed simp


subsection \<open>Chunks\<close>

definition rows_from :: "nat \<Rightarrow> prepared_document list \<Rightarrow> (nat \<times> prepared_chunk) list" where
  "rows_from j ds = concat (map (\<lambda>(j, d). map (Pair j) (pd_chunks d)) (enumerate j ds))"

definition locations_from :: "nat \<Rightarrow> prepared_document list \<Rightarrow> (nat \<times> nat) list" where
  "locations_from j ds = concat (map (\<lambda>(j, d). map (Pair j) [0..<length (pd_chunks d)]) (enumerate j ds))"

lemma rows_from_Cons [simp]: "rows_from j (d # ds) = map (Pair j) (pd_chunks d) @ rows_from (Suc j) ds" "rows_from j [] = []"
  by (simp_all add: rows_from_def)

lemma locations_from_Cons [simp]:
  "locations_from j (d # ds) = map (Pair j) [0..<length (pd_chunks d)] @ locations_from (Suc j) ds" "locations_from j [] = []"
  by (simp_all add: locations_from_def)

lemma length_locations: "length (locations_from j ds) = length (rows_from j ds)"
  by (induction ds arbitrary: j) simp_all

definition chunk_storable :: "prepared_chunk \<Rightarrow> bool" where
  "chunk_storable c \<longleftrightarrow> valid_string (pc_text c) \<and> valid_string (pc_context c) \<and> pc_start_line c \<le> pc_end_line c"

lemma rd_chunks_document:
  "\<forall>c \<in> set cs. chunk_storable c \<Longrightarrow> j < length ds \<Longrightarrow> length ds \<le> kMaxDocuments \<Longrightarrow>
     rd_chunks (length cs + n) (of_nat i) (concat (map wr_chunk (enumerate i (map (Pair j) cs))) @ s) ds locations =
       rd_chunks n (of_nat (i + length cs)) s
         (ds[j := (ds ! j)\<lparr>pd_chunks := pd_chunks (ds ! j) @ map row_chunk cs\<rparr>])
         (locations @ map (Pair j) [length (pd_chunks (ds ! j))..<length (pd_chunks (ds ! j)) + length cs])"
proof (induction cs arbitrary: i ds locations)
  case (Cons c cs)
  have c: "length (pc_text c) < 4294967296" "length (pc_context c) < 4294967296" "\<not> pc_end_line c < pc_start_line c"
    using Cons.prems(1) valid_string_short by (auto simp: chunk_storable_def)
  have j: "unat (of_nat j :: u32) = j"
    using Cons.prems(2,3) by (intro unat_of_nat_u32) (simp add: kMaxDocuments_def)
  let ?ds = "push_chunk j (row_chunk c) ds"
  have "rd_chunks (length cs + n) (of_nat (Suc i)) (concat (map wr_chunk (enumerate (Suc i) (map (Pair j) cs))) @ s) ?ds
      (locations @ [(j, length (pd_chunks (ds ! j)))]) = rd_chunks n (of_nat (Suc i + length cs)) s
         (?ds[j := (?ds ! j)\<lparr>pd_chunks := pd_chunks (?ds ! j) @ map row_chunk cs\<rparr>])
         ((locations @ [(j, length (pd_chunks (ds ! j)))]) @
            map (Pair j) [length (pd_chunks (?ds ! j))..<length (pd_chunks (?ds ! j)) + length cs])"
    by (rule Cons.IH) (use Cons.prems in \<open>simp_all add: push_chunk_def\<close>)
  moreover have "pd_chunks (?ds ! j) = pd_chunks (ds ! j) @ [row_chunk c]" using Cons.prems(2) by (simp add: push_chunk_def)
  moreover have "[length (pd_chunks (ds ! j))..<length (pd_chunks (ds ! j)) + length (c # cs)] =
      length (pd_chunks (ds ! j)) # [Suc (length (pd_chunks (ds ! j)))..<Suc (length (pd_chunks (ds ! j))) + length cs]"
    using upt_conv_Cons [of "length (pd_chunks (ds ! j))" "length (pd_chunks (ds ! j)) + length (c # cs)"] by (simp del: upt_Suc)
  ultimately show ?case
    using c Cons.prems(2)
    by (simp add: wr_chunk_def j push_chunk_def row_chunk_def [symmetric] add.commute [of _ 1] del: upt_Suc)
qed simp

lemma rd_chunks_rows:
  "\<forall>d \<in> set ds. \<forall>c \<in> set (pd_chunks d). chunk_storable c \<Longrightarrow> length before + length ds \<le> kMaxDocuments \<Longrightarrow>
     rd_chunks (length (rows_from (length before) ds)) (of_nat i)
         (concat (map wr_chunk (enumerate i (rows_from (length before) ds))) @ s) (before @ map row_document ds) locations =
       Inr (before @ map (with_chunks row_chunk) ds, locations @ locations_from (length before) ds, s)"
proof (induction ds arbitrary: before i locations)
  case (Cons d ds)
  let ?j = "length before"
  have d: "(before @ map row_document (d # ds)) ! ?j = row_document d" by simp
  have empty: "pd_chunks (row_document d) = []" by (simp add: row_document_def blank_document_def)
  have "rd_chunks (length (rows_from (Suc ?j) ds)) (of_nat (i + length (pd_chunks d)))
      (concat (map wr_chunk (enumerate (i + length (pd_chunks d)) (rows_from (Suc ?j) ds))) @ s)
      ((before @ [with_chunks row_chunk d]) @ map row_document ds) (locations @ map (Pair ?j) [0..<length (pd_chunks d)]) =
    Inr ((before @ [with_chunks row_chunk d]) @ map (with_chunks row_chunk) ds,
      (locations @ map (Pair ?j) [0..<length (pd_chunks d)]) @ locations_from (Suc ?j) ds, s)"
    using Cons.IH [of "before @ [with_chunks row_chunk d]" "i + length (pd_chunks d)"] Cons.prems by (simp del: of_nat_add)
  then show ?case
    using rd_chunks_document [of "pd_chunks d" ?j "before @ map row_document (d # ds)" "length (rows_from (Suc ?j) ds)" i] Cons.prems
    by (simp add: enumerate_append_eq d empty with_chunks_def list_update_append)
qed simp


subsection \<open>Embeddings\<close>

lemma rd_floats_wr: "rd_floats (length v) (concat (map wr_u v)) = v"
proof (induction v)
  case (Cons x v)
  have "unat x < 2 ^ LENGTH(32)" by (rule unsigned_less)
  then have "le_nat (wr_u x) = unat x" by (simp add: wr_u_def)
  with Cons show ?case by simp
qed simp

lemma length_floats: "length (concat (map (wr_u :: u32 \<Rightarrow> string) v)) = 4 * length v"
  by (induction v) simp_all

definition vector_storable :: "fp \<Rightarrow> nat \<Rightarrow> vec \<Rightarrow> bool" where
  "vector_storable F n v \<longleftrightarrow> length v = n \<and> n \<le> kMaxVectorDimension \<and> list_all f32_finite v \<and>
     (v \<noteq> [] \<longrightarrow> fp_norm_error F v \<le> kEmbeddingTolerance)"

lemma rd_embeddings_document:
  "\<forall>c \<in> set cs. vector_storable F n (pc_embedding c) \<Longrightarrow> m = 0 \<or> m = n \<Longrightarrow> j < length ds \<Longrightarrow>
   pd_chunks (ds ! j) = map vector_chunk before @ map row_chunk cs \<Longrightarrow>
     rd_embeddings F (map (Pair j) [length before..<length before + length cs] @ locations) m
       (concat (map (\<lambda>c. wr_vector (pc_embedding c)) cs) @ s) ds =
     rd_embeddings F locations (if cs = [] then m else n) s (ds[j := (ds ! j)\<lparr>pd_chunks := map vector_chunk (before @ cs)\<rparr>])"
proof (induction cs arbitrary: before m ds)
  case Nil
  then have "(ds ! j)\<lparr>pd_chunks := map vector_chunk (before @ [])\<rparr> = ds ! j" by (cases "ds ! j") simp
  then have "ds[j := (ds ! j)\<lparr>pd_chunks := map vector_chunk (before @ [])\<rparr>] = ds" by simp
  then show ?case by simp
next
  case (Cons c cs)
  let ?v = "pc_embedding c"
  have v: "length ?v = n" "n \<le> kMaxVectorDimension" "list_all f32_finite ?v" "?v \<noteq> [] \<longrightarrow> fp_norm_error F ?v \<le> kEmbeddingTolerance"
    using Cons.prems(1) by (simp_all add: vector_storable_def)
  have n: "unat (of_nat n :: u32) = n" using v(2) by (intro unat_of_nat_u32) (simp add: kMaxVectorDimension_def)
  have z: "(of_nat n :: u32) = 0 \<longleftrightarrow> n = 0" using n by (metis unat_eq_0 of_nat_0)
  let ?ds = "set_chunk j (length before) (\<lambda>c. c\<lparr>pc_embedding := ?v\<rparr>) ds"
  have at: "pd_chunks (?ds ! j) = map vector_chunk (before @ [c]) @ map row_chunk cs"
    using Cons.prems(3,4) by (simp add: set_chunk_def nth_append list_update_append vector_chunk_def)
  have IH: "rd_embeddings F (map (Pair j) [length (before @ [c])..<length (before @ [c]) + length cs] @ locations) n
       (concat (map (\<lambda>c. wr_vector (pc_embedding c)) cs) @ s) ?ds =
     rd_embeddings F locations (if cs = [] then n else n) s (?ds[j := (?ds ! j)\<lparr>pd_chunks := map vector_chunk ((before @ [c]) @ cs)\<rparr>])"
    by (rule Cons.IH [OF _ _ _ at]) (use Cons.prems in \<open>simp_all add: set_chunk_def\<close>)
  have upd: "?ds[j := (?ds ! j)\<lparr>pd_chunks := map vector_chunk ((before @ [c]) @ cs)\<rparr>] =
      ds[j := (ds ! j)\<lparr>pd_chunks := map vector_chunk (before @ c # cs)\<rparr>]"
    using Cons.prems(3) by (simp add: set_chunk_def)
  have step: "rd_embeddings F ((j, length before) # locs) m (wr_vector ?v @ r) ds = rd_embeddings F locs n r ?ds" for locs r
  proof -
    have b: "rd_bytes (n * 4) (concat (map wr_u ?v) @ r) = Some (concat (map wr_u ?v), r)"
      by (rule rd_bytes_len) (simp add: length_floats v(1))
    have f: "rd_floats n (concat (map wr_u ?v)) = ?v" using rd_floats_wr [of ?v] v(1) by simp
    have room: "\<not> (4 * n + length r) div 4 < n" by simp
    show ?thesis
    proof (cases "?v = []")
      case True
      with v(1) have "n = 0" by simp
      then show ?thesis using Cons.prems(2) True by (simp add: wr_vector_def rd_bytes_def)
    next
      case False
      with v(1) have "n \<noteq> 0" by auto
      then show ?thesis
        using v(2-4) Cons.prems(2) False by (auto simp: wr_vector_def v(1) n z b f room length_floats Let_def not_less)
    qed
  qed
  have "[length before..<length before + length (c # cs)] = length before # [Suc (length before)..<Suc (length before) + length cs]"
    using upt_conv_Cons [of "length before" "length before + length (c # cs)"] by (simp del: upt_Suc)
  then show ?case using step IH upd by (simp del: upt_Suc)
qed

lemma rd_embeddings_rows:
  "\<forall>d \<in> set ds. \<forall>c \<in> set (pd_chunks d). vector_storable F n (pc_embedding c) \<Longrightarrow> m = 0 \<or> m = n \<Longrightarrow>
     rd_embeddings F (locations_from (length before) ds) m
       (concat (map (\<lambda>(j, c). wr_vector (pc_embedding c)) (rows_from (length before) ds)) @ s)
       (before @ map (with_chunks row_chunk) ds) = Inr (before @ map (with_chunks vector_chunk) ds, s)"
proof (induction ds arbitrary: before m)
  case (Cons d ds)
  let ?j = "length before"
  let ?ds = "before @ map (with_chunks row_chunk) (d # ds)"
  let ?done = "before @ [with_chunks vector_chunk d]"
  let ?rest = "concat (map (\<lambda>(j, c). wr_vector (pc_embedding c)) (rows_from (Suc ?j) ds)) @ s"
  let ?m = "if pd_chunks d = [] then m else n"
  have at: "?ds ! ?j = with_chunks row_chunk d" by simp
  have "rd_embeddings F (locations_from (length ?done) ds) ?m
       (concat (map (\<lambda>(j, c). wr_vector (pc_embedding c)) (rows_from (length ?done) ds)) @ s)
       (?done @ map (with_chunks row_chunk) ds) = Inr (?done @ map (with_chunks vector_chunk) ds, s)"
    by (rule Cons.IH) (use Cons.prems in auto)
  then have later: "rd_embeddings F (locations_from (Suc ?j) ds) ?m ?rest (?done @ map (with_chunks row_chunk) ds) =
      Inr (?done @ map (with_chunks vector_chunk) ds, s)" by simp
  have here: "rd_embeddings F (map (Pair ?j) [length ([] :: prepared_chunk list)..<length ([] :: prepared_chunk list) + length (pd_chunks d)]
        @ locations_from (Suc ?j) ds) m
      (concat (map (\<lambda>c. wr_vector (pc_embedding c)) (pd_chunks d)) @ ?rest) ?ds =
    rd_embeddings F (locations_from (Suc ?j) ds) ?m ?rest
      (?ds[?j := (?ds ! ?j)\<lparr>pd_chunks := map vector_chunk ([] @ pd_chunks d)\<rparr>])"
    by (rule rd_embeddings_document) (use Cons.prems at in \<open>simp_all add: with_chunks_def\<close>)
  have upd: "?ds[?j := (?ds ! ?j)\<lparr>pd_chunks := map vector_chunk ([] @ pd_chunks d)\<rparr>] = ?done @ map (with_chunks row_chunk) ds"
    by (simp add: list_update_append with_chunks_def)
  have "concat (map (\<lambda>(j, c). wr_vector (pc_embedding c)) (rows_from ?j (d # ds))) @ s =
      concat (map (\<lambda>c. wr_vector (pc_embedding c)) (pd_chunks d)) @ ?rest"
    by (simp add: comp_def)
  then show ?case using trans [OF here [unfolded upd] later] by simp
qed simp


subsection \<open>The runtime section\<close>

lemma rd_runtime_chunks_wr:
  "\<forall>c \<in> set cs. valid_string (pc_key c) \<and> valid_string (pc_indexed_text c) \<Longrightarrow>
   \<forall>i < length cs. unat (pc_ordinal (cs ! i)) = index + i \<Longrightarrow>
     rd_runtime_chunks (map vector_chunk cs) index (concat (map wr_runtime_chunk cs) @ s) = Inr (cs, s)"
proof (induction cs arbitrary: index)
  case (Cons c cs)
  have ord: "unat (pc_ordinal c) = index" "\<forall>i < length cs. unat (pc_ordinal (cs ! i)) = Suc index + i"
    using Cons.prems(2) by (simp_all add: All_less_Suc2)
  have "length (pc_key c) < 4294967296" "length (pc_indexed_text c) < 4294967296"
    using Cons.prems(1) valid_string_short by auto
  moreover have "rd_runtime_chunks (map vector_chunk cs) (Suc index) (concat (map wr_runtime_chunk cs) @ s) = Inr (cs, s)"
    by (rule Cons.IH) (use Cons.prems(1) ord(2) in simp_all)
  moreover have "(vector_chunk c)\<lparr>pc_key := pc_key c, pc_ordinal := pc_ordinal c, pc_indexed_text := pc_indexed_text c\<rparr> = c"
    by (simp add: vector_chunk_def row_chunk_def blank_chunk_def)
  moreover have "wr_runtime_chunk c = wr_str (pc_key c) @ wr_u (pc_ordinal c) @ wr_str (pc_indexed_text c)"
    by (simp add: wr_runtime_chunk_def)
  ultimately show ?case by (simp add: ord(1))
qed simp

lemma rd_runtime_documents_wr:
  "\<forall>d \<in> set ds. document_storable d \<Longrightarrow> length revisions = length ds \<Longrightarrow> \<forall>r \<in> set revisions. r \<noteq> 0 \<Longrightarrow>
     rd_runtime_documents (map (with_chunks vector_chunk) ds) (concat (map wr_runtime_document (zip revisions ds)) @ s)
       = Inr (zip revisions ds, s)"
proof (induction ds arbitrary: revisions)
  case (Cons d ds)
  obtain r rs where r: "revisions = r # rs" using Cons.prems(2) by (cases revisions) auto
  have d: "document_storable d" using Cons.prems(1) by simp
  then have short: "length (pd_key d) < 4294967296" "length (pd_content_hash d) < 4294967296"
      "length (pd_chunking_fingerprint d) < 4294967296" "length (pd_embedding_identity d) < 4294967296"
    by (simp_all add: document_storable_def valid_string_short)
  have n: "unat (of_nat (length (pd_chunks d)) :: u32) = length (pd_chunks d)"
    using d by (intro unat_of_nat_u32) (simp add: document_storable_def kMaxChunks_def)
  have chunks: "rd_runtime_chunks (map vector_chunk (pd_chunks d)) 0 (concat (map wr_runtime_chunk (pd_chunks d)) @ t)
      = Inr (pd_chunks d, t)" for t
    by (rule rd_runtime_chunks_wr) (use d in \<open>simp_all add: document_storable_def\<close>)
  have whole: "(with_chunks vector_chunk d)\<lparr>pd_content_hash := pd_content_hash d, pd_chunking_fingerprint := pd_chunking_fingerprint d,
      pd_embedding_identity := pd_embedding_identity d, pd_chunks := pd_chunks d\<rparr> = d"
    by (simp add: with_chunks_def row_document_def blank_document_def)
  have fields: "pd_key (with_chunks vector_chunk d) = pd_key d"
      "pd_chunks (with_chunks vector_chunk d) = map vector_chunk (pd_chunks d)"
    by (simp_all add: with_chunks_def row_document_def)
  have "rd_runtime_documents (map (with_chunks vector_chunk) ds) (concat (map wr_runtime_document (zip rs ds)) @ s)
       = Inr (zip rs ds, s)"
    by (rule Cons.IH) (use Cons.prems r in simp_all)
  then show ?case
    using short Cons.prems(3) by (simp add: r wr_runtime_document_def n chunks fields whole)
qed simp

lemma rd_revisions_wr:
  "omap_wf (acc @ m) \<Longrightarrow> \<forall>(k, r) \<in> set m. valid_string k \<and> k \<noteq> [] \<and> r \<noteq> 0 \<Longrightarrow>
     rd_revisions (length m) (concat (map wr_revision m) @ s) acc = Inr (acc @ m, s)"
proof (induction m arbitrary: acc)
  case (Cons p m)
  obtain k r where p: "p = (k, r)" by force
  have e: "map_of acc k = None" "fst (omap_emplace k r acc) = acc @ [(k, r)]"
    using omap_emplace_above [of acc k r m] Cons.prems(1) p by simp_all
  have "length k < 4294967296" "k \<noteq> []" "r \<noteq> 0" using Cons.prems(2) p valid_string_short by auto
  with Cons e p show ?case by (simp add: wr_revision_def)
qed simp

subsection \<open>What a checkpoint must be to survive\<close>

text \<open>
  The invariants of the backend's own state (documents under distinct keys with ordinals, line
  ranges and vectors as validated), the limits of the format, and one dimension for all vectors,
  zero for a lexical-only corpus.
\<close>

definition checkpoint_wf :: "fp \<Rightarrow> nat \<Rightarrow> checkpoint \<Rightarrow> bool" where
  "checkpoint_wf F n cp \<longleftrightarrow>
     (\<forall>e \<in> set (cp_documents cp). \<exists>d. cd_prepared e = Some d \<and> document_storable d \<and> cd_revision e \<noteq> 0 \<and>
        map_of (cp_revisions cp) (pd_key d) = Some (cd_revision e) \<and>
        (\<forall>c \<in> set (pd_chunks d). vector_storable F n (pc_embedding c))) \<and>
     length (cp_documents cp) \<le> kMaxDocuments \<and>
     length (chunk_rows (map (the \<circ> cd_prepared) (cp_documents cp))) \<le> kMaxChunks \<and>
     omap_wf (cp_revisions cp) \<and> length (cp_revisions cp) \<le> kMaxDocuments \<and>
     (\<forall>(k, r) \<in> set (cp_revisions cp). valid_string k \<and> k \<noteq> [] \<and> r \<noteq> 0)"

definition lexical_roundtrip :: "checkpoint_lib \<Rightarrow> bool" where
  "lexical_roundtrip L \<longleftrightarrow> (\<forall>rows. cl_lexical L rows \<noteq> [] \<and> cl_lexical_size L (cl_lexical L rows) = Some (length rows))"

definition the_documents :: "checkpoint \<Rightarrow> prepared_document list" where
  "the_documents cp = map (the \<circ> cd_prepared) (cp_documents cp)"

lemma chunk_rows_from: "chunk_rows ds = rows_from 0 ds"
  by (simp add: chunk_rows_def rows_from_def)

lemma storable_chunks: "document_storable d \<Longrightarrow> \<forall>c \<in> set (pd_chunks d). chunk_storable c"
  by (simp add: document_storable_def chunk_storable_def)

lemma load_documents_section:
  assumes "\<forall>d \<in> set ds. document_storable d" and "length ds \<le> kMaxDocuments"
  shows "load_documents (documents_section ds) = Inr (map row_document ds)"
proof -
  have "unat (of_nat (length ds) :: u32) = length ds"
    using assms(2) by (intro unat_of_nat_u32) (simp add: kMaxDocuments_def)
  then show ?thesis
    using rd_documents_wr [OF assms(1), of 0 "[]" "[]"] assms(2) by (simp add: load_documents_def documents_section_def)
qed

lemma load_chunks_section:
  assumes "\<forall>d \<in> set ds. document_storable d" and "length ds \<le> kMaxDocuments" and "length (chunk_rows ds) \<le> kMaxChunks"
  shows "load_chunks (chunks_section ds) (map row_document ds) = Inr (map (with_chunks row_chunk) ds, locations_from 0 ds)"
proof -
  have "unat (of_nat (length (chunk_rows ds)) :: u32) = length (chunk_rows ds)"
    using assms(3) by (intro unat_of_nat_u32) (simp add: kMaxChunks_def)
  moreover have "\<forall>d \<in> set ds. \<forall>c \<in> set (pd_chunks d). chunk_storable c" using assms(1) storable_chunks by blast
  ultimately show ?thesis
    using rd_chunks_rows [of ds "[]" 0 "[]" "[]"] assms(2,3)
    by (simp add: load_chunks_def chunks_section_def chunk_rows_from)
qed

lemma load_embeddings_section:
  assumes "\<forall>d \<in> set ds. \<forall>c \<in> set (pd_chunks d). vector_storable F n (pc_embedding c)"
  shows "load_embeddings F (embeddings_section ds) (locations_from 0 ds) (map (with_chunks row_chunk) ds) =
    Inr (map (with_chunks vector_chunk) ds)"
  using rd_embeddings_rows [OF assms, of 0 "[]" "[]"]
  by (simp add: load_embeddings_def embeddings_section_def chunk_rows_from)

lemma load_runtime_section:
  assumes "\<forall>d \<in> set ds. document_storable d" and "length (cp_documents cp) = length ds" and "length ds \<le> kMaxDocuments"
    and "\<forall>e \<in> set (cp_documents cp). cd_revision e \<noteq> 0" and "omap_wf (cp_revisions cp)"
    and "length (cp_revisions cp) \<le> kMaxDocuments"
    and "\<forall>(k, r) \<in> set (cp_revisions cp). valid_string k \<and> k \<noteq> [] \<and> r \<noteq> 0"
    and "\<forall>(r, d) \<in> set (zip (map cd_revision (cp_documents cp)) ds). map_of (cp_revisions cp) (pd_key d) = Some r"
  shows "load_runtime (runtime_section cp ds) (map (with_chunks vector_chunk) ds) =
    Inr (cp\<lparr>cp_documents := map (\<lambda>(r, d). \<lparr>cd_prepared = Some d, cd_revision = r\<rparr>) (zip (map cd_revision (cp_documents cp)) ds)\<rparr>)"
proof -
  let ?revs = "map cd_revision (cp_documents cp)"
  have n: "unat (of_nat (length ds) :: u32) = length ds" "unat (of_nat (length (cp_revisions cp)) :: u32) = length (cp_revisions cp)"
    using assms(3,6) by (auto intro!: unat_of_nat_u32 simp: kMaxDocuments_def)
  have docs: "rd_runtime_documents (map (with_chunks vector_chunk) ds) (concat (map wr_runtime_document (zip ?revs ds)) @ t)
      = Inr (zip ?revs ds, t)" for t
    by (rule rd_runtime_documents_wr [OF assms(1)]) (use assms(2,4) in simp_all)
  have revs: "rd_revisions (length (cp_revisions cp)) (concat (map wr_revision (cp_revisions cp))) [] = Inr (cp_revisions cp, [])"
    using rd_revisions_wr [of "[]" "cp_revisions cp" "[]"] assms(5,7) by simp
  have act: "list_all (\<lambda>(r, d). map_of (cp_revisions cp) (pd_key d) = Some r) (zip ?revs ds)"
    using assms(8) by (simp add: list_all_iff)
  show ?thesis
    using assms(6) act by (simp add: load_runtime_def runtime_section_def n docs revs not_less)
qed

subsection \<open>The written container\<close>

definition any_embedding :: "prepared_document list \<Rightarrow> bool" where
  "any_embedding ds \<longleftrightarrow> list_ex (\<lambda>(j, c). pc_embedding c \<noteq> []) (chunk_rows ds)"

definition lexical_section :: "checkpoint_lib \<Rightarrow> prepared_document list \<Rightarrow> string" where
  "lexical_section L ds = cl_lexical L (map (\<lambda>(i, j, c). (of_nat i, pc_indexed_text c)) (enumerate 0 (chunk_rows ds)))"

lemma container_parts:
  "ct_flags (checkpoint_container L meta cp ds) = (if any_embedding ds then kHasEmbeddings else 0)"
  "ct_major (checkpoint_container L meta cp ds) = kFormatMajor"
  "omap_wf (ct_sections (checkpoint_container L meta cp ds))"
  "map_of (ct_sections (checkpoint_container L meta cp ds)) =
     (if any_embedding ds then Map.empty(tag_value Tag_embed \<mapsto> embeddings_section ds) else Map.empty)
       (tag_value Tag_meta \<mapsto> meta, tag_value Tag_docs \<mapsto> documents_section ds, tag_value Tag_chunks \<mapsto> chunks_section ds,
        tag_value Tag_bm25 \<mapsto> lexical_section L ds, tag_value Tag_runtime \<mapsto> runtime_section cp ds)"
  by (simp_all add: checkpoint_container_def container_put_def container_set_flags_def container_new_def Let_def
      any_embedding_def lexical_section_def fun_eq_iff omap_wf_def)

lemma omap_tags:
  assumes "omap_wf m"
  shows "length m = card (dom (map_of m))"
proof -
  have "distinct (map fst m)" by (rule omap_wf_distinct [OF assms])
  then have "length m = card (set (map fst m))" by (metis distinct_card length_map)
  then show ?thesis by (simp add: dom_map_of_conv_image_fst)
qed

lemma container_small: "length (ct_sections (checkpoint_container L meta cp ds)) \<le> kMaxSections"
proof -
  have "dom (map_of (ct_sections (checkpoint_container L meta cp ds))) \<subseteq>
      set (map tag_value [Tag_embed, Tag_meta, Tag_docs, Tag_chunks, Tag_bm25, Tag_runtime])"
    unfolding container_parts(4) by (auto split: if_splits)
  then have "card (dom (map_of (ct_sections (checkpoint_container L meta cp ds)))) \<le>
      card (set (map tag_value [Tag_embed, Tag_meta, Tag_docs, Tag_chunks, Tag_bm25, Tag_runtime]))"
    by (rule card_mono [rotated]) simp
  also have "\<dots> \<le> 6" by (rule order_trans [OF card_length]) simp
  finally show ?thesis by (simp add: omap_tags [OF container_parts(3)] kMaxSections_def)
qed

lemma wr_u32_nonempty [simp]: "wr_u (w :: u32) \<noteq> []"
proof
  assume "wr_u w = []"
  then have "length (wr_u w) = 0" by simp
  then show False by simp
qed

lemma embeddings_section_nonempty: "any_embedding ds \<Longrightarrow> embeddings_section ds \<noteq> []"
  by (fastforce simp: any_embedding_def embeddings_section_def list_ex_iff wr_vector_def)

lemma sections_nonempty:
  assumes "meta \<noteq> []" and "lexical_roundtrip L"
  shows "\<forall>(t, p) \<in> set (ct_sections (checkpoint_container L meta cp ds)). p \<noteq> []"
proof (intro ballI, unfold split_beta)
  fix q assume "q \<in> set (ct_sections (checkpoint_container L meta cp ds))"
  then have "map_of (ct_sections (checkpoint_container L meta cp ds)) (fst q) = Some (snd q)"
    using omap_wf_distinct [OF container_parts(3)] by simp
  then show "snd q \<noteq> []"
    using assms embeddings_section_nonempty [of ds] unfolding container_parts(4)
    by (auto simp: documents_section_def chunks_section_def runtime_section_def lexical_section_def lexical_roundtrip_def
        split: if_splits)
qed

subsection \<open>The round trip\<close>

lemma the_documents_wf:
  assumes "checkpoint_wf F n cp"
  shows "\<forall>d \<in> set (the_documents cp). document_storable d"
    and "\<forall>d \<in> set (the_documents cp). \<forall>c \<in> set (pd_chunks d). vector_storable F n (pc_embedding c)"
    and "length (the_documents cp) = length (cp_documents cp)"
    and "length (the_documents cp) \<le> kMaxDocuments"
    and "length (chunk_rows (the_documents cp)) \<le> kMaxChunks"
    and "map (\<lambda>(r, d). \<lparr>cd_prepared = Some d, cd_revision = r\<rparr>)
       (zip (map cd_revision (cp_documents cp)) (the_documents cp)) = cp_documents cp"
    and "\<forall>(r, d) \<in> set (zip (map cd_revision (cp_documents cp)) (the_documents cp)).
       map_of (cp_revisions cp) (pd_key d) = Some r"
proof -
  have e: "\<And>e. e \<in> set (cp_documents cp) \<Longrightarrow> \<exists>d. cd_prepared e = Some d \<and> document_storable d \<and> cd_revision e \<noteq> 0 \<and>
        map_of (cp_revisions cp) (pd_key d) = Some (cd_revision e) \<and>
        (\<forall>c \<in> set (pd_chunks d). vector_storable F n (pc_embedding c))"
    using assms by (simp add: checkpoint_wf_def)
  show "\<forall>d \<in> set (the_documents cp). document_storable d"
    "\<forall>d \<in> set (the_documents cp). \<forall>c \<in> set (pd_chunks d). vector_storable F n (pc_embedding c)"
    using e by (fastforce simp: the_documents_def)+
  show "length (the_documents cp) = length (cp_documents cp)" by (simp add: the_documents_def)
  show "length (the_documents cp) \<le> kMaxDocuments" "length (chunk_rows (the_documents cp)) \<le> kMaxChunks"
    using assms by (simp_all add: checkpoint_wf_def the_documents_def)
  have z: "zip (map cd_revision es) (map (the \<circ> cd_prepared) es) = map (\<lambda>e. (cd_revision e, the (cd_prepared e))) es" for es
    by (induction es) simp_all
  show "map (\<lambda>(r, d). \<lparr>cd_prepared = Some d, cd_revision = r\<rparr>)
       (zip (map cd_revision (cp_documents cp)) (the_documents cp)) = cp_documents cp"
    unfolding the_documents_def z using e by (fastforce simp: comp_def intro!: map_idI)
  show "\<forall>(r, d) \<in> set (zip (map cd_revision (cp_documents cp)) (the_documents cp)).
       map_of (cp_revisions cp) (pd_key d) = Some r"
    unfolding the_documents_def z using e by fastforce
qed

lemma no_embedding_chunks:
  "\<not> any_embedding ds \<Longrightarrow> map (with_chunks row_chunk) ds = map (with_chunks vector_chunk) ds"
proof -
  assume a: "\<not> any_embedding ds"
  have "pc_embedding c = []" if "d \<in> set ds" "c \<in> set (pd_chunks d)" for d c
  proof -
    from that(1) obtain j where "(j, d) \<in> set (enumerate 0 ds)"
      by (metis in_set_conv_nth in_set_enumerate_eq add_0 fst_conv le0 length_enumerate nth_enumerate_eq nth_mem)
    with that(2) have "(j, c) \<in> set (chunk_rows ds)" by (force simp: chunk_rows_def)
    with a show ?thesis by (auto simp: any_embedding_def list_ex_iff)
  qed
  then show ?thesis
    by (auto simp: with_chunks_def vector_chunk_def row_chunk_def blank_chunk_def)
qed

lemma checkpoint_of_saved_view:
  assumes wf: "checkpoint_wf F n cp" and lib: "lexical_roundtrip L" and meta: "jl_parse (cl_json L) meta = Some runtime_meta"
    and flags: "lay_flags (vw_layout v) = ct_flags (checkpoint_container L meta cp (the_documents cp))"
    and sections: "\<And>t. view_get t v = map_of (ct_sections (checkpoint_container L meta cp (the_documents cp))) (tag_value t)"
  shows "checkpoint_of_view L F v = Inr cp"
proof -
  let ?ds = "the_documents cp"
  note ds = the_documents_wf [OF wf]
  have accepted: "meta_accepted (cl_json L) meta = Inr ()"
    using meta by (simp add: meta_accepted_def runtime_meta_def)
  have flag: "(lay_flags (vw_layout v) AND kHasEmbeddings \<noteq> 0) = view_has Tag_embed v"
    using flags sections [of Tag_embed]
    by (simp add: view_has_def container_parts kHasEmbeddings_def)
  have vectors: "(case view_get Tag_embed v of None \<Rightarrow> Inr (map (with_chunks row_chunk) ?ds)
      | Some blob \<Rightarrow> load_embeddings F blob (locations_from 0 ?ds) (map (with_chunks row_chunk) ?ds)) =
      Inr (map (with_chunks vector_chunk) ?ds)"
    using load_embeddings_section [OF ds(2)] no_embedding_chunks [of ?ds]
    by (cases "any_embedding ?ds") (simp_all add: sections container_parts)
  have lex: "cl_lexical_size L (lexical_section L ?ds) = Some (length (locations_from 0 ?ds))"
    using lib by (simp add: lexical_roundtrip_def lexical_section_def length_locations chunk_rows_from)
  have whole: "load_runtime (runtime_section cp ?ds) (map (with_chunks vector_chunk) ?ds) = Inr cp"
    using load_runtime_section [OF ds(1) ds(3) [symmetric] ds(4) _ _ _ _ ds(7)] wf
    by (auto simp: checkpoint_wf_def ds(6))
  show ?thesis
    unfolding checkpoint_of_view_def flag
    using load_documents_section [OF ds(1,4)] load_chunks_section [OF ds(1,4,5)] vectors
    by (simp add: sections container_parts accepted lex whole)
qed

text \<open>
  The durable checkpoint of the embedded backend round-trips: when the save of a checkpoint whose
  vectors share one dimension succeeds, opening the file gives the same documents, chunks, vectors,
  revisions, generation and write-ahead-log position back; the lexical rows and the metadata are read
  back by the libraries that wrote them.\<close>
theorem checkpoint_roundtrip:
  assumes "snd (checkpoint_save L env path cp fs) = Inr ()" and "checkpoint_wf F n cp"
    and "std_sort_spec srt" and "lexical_roundtrip L"
    and "\<And>s. jl_dump (cl_json L) runtime_meta = Some s \<Longrightarrow>
       s \<noteq> [] \<and> jl_parse (cl_json L) s = Some runtime_meta \<and>
       length (serialize (checkpoint_container L s cp (map (the \<circ> cd_prepared) (cp_documents cp)))) < 2 ^ 64"
  shows "checkpoint_load L F view_ok srt path (last (fst (checkpoint_save L env path cp fs))) = Inr cp"
proof -
  obtain meta where meta: "jl_dump (cl_json L) runtime_meta = Some meta"
      and saved: "checkpoint_save L env path cp fs = write_file env path (checkpoint_container L meta cp (the_documents cp)) fs"
    using assms(1) by (auto simp: checkpoint_save_def the_documents_def fail_def split: sum.splits option.splits)
  let ?c = "checkpoint_container L meta cp (the_documents cp)"
  note m = assms(5) [OF meta, folded the_documents_def]
  have "write_ok env" using assms(1) by (simp add: saved write_file_result)
  then have at: "last (fst (checkpoint_save L env path cp fs)) path = Some (serialize ?c)"
    by (simp add: saved write_file_final)
  have "container_wf ?c" using m by (simp add: container_wf_def container_parts(2,3) container_small)
  from view_of_serialized [where fs = "last (fst (checkpoint_save L env path cp fs))" and path = path, OF this assms(3) _ at]
    sections_nonempty [OF _ assms(4)] m
  obtain v where v: "view_open_file view_ok srt path (last (fst (checkpoint_save L env path cp fs))) = Inr v"
      "lay_flags (vw_layout v) = ct_flags ?c" "\<And>t. view_get t v = map_of (ct_sections ?c) (tag_value t)" by auto
  show ?thesis
    using checkpoint_of_saved_view [OF assms(2,4) _ v(2,3)] m by (simp add: checkpoint_load_def v(1))
qed

definition plain_lexical :: checkpoint_lib where
  "plain_lexical = \<lparr>cl_json = table_lib [(runtime_meta, ''M'')],
     cl_lexical = (\<lambda>rows. CHR ''x'' # map (\<lambda>_. CHR ''x'') rows), cl_lexical_size = (\<lambda>s. Some (length s - 1))\<rparr>"

lemma plain_lexical_roundtrip: "lexical_roundtrip plain_lexical"
  by (simp add: lexical_roundtrip_def plain_lexical_def)

definition stored_document :: "string \<Rightarrow> vec \<Rightarrow> prepared_document" where
  "stored_document key v = \<lparr>pd_key = key, pd_title = ''t'', pd_content = ''c'', pd_metadata = [(''k'', ''v'')], pd_content_hash = ''h'',
     pd_chunking_fingerprint = ''f'', pd_embedding_identity = ''e'',
     pd_chunks = [\<lparr>pc_key = key @ ''1'', pc_ordinal = 0, pc_text = ''c'', pc_indexed_text = ''c'', pc_context = [],
                   pc_start_line = 0, pc_end_line = 0, pc_embedding = v\<rparr>]\<rparr>"

definition checkpoint_of :: "prepared_document list \<Rightarrow> checkpoint" where
  "checkpoint_of ds = \<lparr>cp_documents = map (\<lambda>d. \<lparr>cd_prepared = Some d, cd_revision = 1\<rparr>) ds,
     cp_revisions = map (\<lambda>d. (pd_key d, 1)) ds, cp_generation = 3, cp_wal_position = 0\<rparr>"

definition unit_vector :: vec where "unit_vector = [0x3F800000]"

lemma stored_document_storable: "length key < 100 \<Longrightarrow> document_storable (stored_document key v) \<longleftrightarrow> length v \<le> kMaxVectorDimension"
  by (simp add: document_storable_def stored_document_def omap_wf_def kMaxMetadataEntries_def kMaxChunks_def valid_string_def)

lemma plain_lexical_meta: "jl_dump (cl_json plain_lexical) runtime_meta = Some ''M''"
    "jl_parse (cl_json plain_lexical) ''M'' = Some runtime_meta"
  by (simp_all add: plain_lexical_def table_lib_def)

definition one_checkpoint :: checkpoint where
  "one_checkpoint = checkpoint_of [stored_document ''d'' unit_vector]"

definition mixed_checkpoint :: checkpoint where
  "mixed_checkpoint = checkpoint_of [stored_document ''a'' unit_vector, stored_document ''b'' []]"

lemma sample_checkpoints_valid: "validate_for_save one_checkpoint = Inr ()" "validate_for_save mixed_checkpoint = Inr ()"
  by (simp_all add: one_checkpoint_def mixed_checkpoint_def checkpoint_of_def stored_document_def unit_vector_def
      validate_for_save_def valid_string_def kMaxDocuments_def kMaxChunks_def kMaxMetadataEntries_def kMaxVectorDimension_def)

lemma sample_checkpoints_small:
  "length (serialize (checkpoint_container plain_lexical ''M'' one_checkpoint (the_documents one_checkpoint))) < 2 ^ 64"
  "length (serialize (checkpoint_container plain_lexical ''M'' mixed_checkpoint (the_documents mixed_checkpoint))) < 2 ^ 64"
  by (simp_all add: length_serialize payload_size_def checkpoint_container_def container_put_def container_set_flags_def
      container_new_def one_checkpoint_def mixed_checkpoint_def checkpoint_of_def the_documents_def stored_document_def
      unit_vector_def plain_lexical_def chunk_rows_def documents_section_def chunks_section_def embeddings_section_def
      runtime_section_def wr_document_def wr_metadata_def wr_chunk_def wr_vector_def wr_runtime_document_def
      wr_runtime_chunk_def wr_revision_def wr_str_def)

lemma sample_save: "snd (checkpoint_save plain_lexical sample_env path one_checkpoint fs) = Inr ()"
    "checkpoint_save plain_lexical sample_env path mixed_checkpoint fs =
       write_file sample_env path (checkpoint_container plain_lexical ''M'' mixed_checkpoint (the_documents mixed_checkpoint)) fs"
  by (simp_all add: checkpoint_save_def sample_checkpoints_valid plain_lexical_meta write_file_result sample_env_ok
      the_documents_def)

lemma one_checkpoint_wf: "checkpoint_wf sample_fp 1 one_checkpoint"
proof -
  have "document_storable (stored_document ''d'' unit_vector)"
    by (simp add: stored_document_storable unit_vector_def kMaxVectorDimension_def)
  then show ?thesis
    by (simp add: checkpoint_wf_def one_checkpoint_def checkpoint_of_def kMaxDocuments_def kMaxChunks_def chunk_rows_def
        vector_storable_def unit_vector_def stored_document_def omap_wf_def valid_string_def kMaxVectorDimension_def
        f32_finite_def sample_fp_def kEmbeddingTolerance_def)
qed

theorem checkpoint_roundtrip_witness:
  "checkpoint_load plain_lexical sample_fp view_ok stable_sort ''c''
     (last (fst (checkpoint_save plain_lexical sample_env ''c'' one_checkpoint (\<lambda>_. None)))) = Inr one_checkpoint"
  by (rule checkpoint_roundtrip [OF sample_save(1) one_checkpoint_wf std_sort_examples(1) plain_lexical_roundtrip])
    (use sample_checkpoints_small(1) in \<open>simp add: plain_lexical_meta the_documents_def\<close>)

lemma mixed_rejected:
  assumes "\<And>t. view_get t v = map_of (ct_sections (checkpoint_container plain_lexical ''M'' mixed_checkpoint
      (the_documents mixed_checkpoint))) (tag_value t)"
    and "lay_flags (vw_layout v) = ct_flags (checkpoint_container plain_lexical ''M'' mixed_checkpoint (the_documents mixed_checkpoint))"
  shows "checkpoint_of_view plain_lexical sample_fp v = fail Errc_corrupt_index ''checkpoint embedding dimension is invalid''"
proof -
  let ?ds = "the_documents mixed_checkpoint"
  have ds: "?ds = [stored_document ''a'' unit_vector, stored_document ''b'' []]"
    by (simp add: the_documents_def mixed_checkpoint_def checkpoint_of_def)
  have any: "any_embedding ?ds"
    by (simp add: ds any_embedding_def chunk_rows_def stored_document_def unit_vector_def)
  have st: "\<forall>d \<in> set ?ds. document_storable d"
    by (simp add: ds stored_document_storable unit_vector_def kMaxVectorDimension_def)
  have n: "length ?ds \<le> kMaxDocuments" "length (chunk_rows ?ds) \<le> kMaxChunks"
    by (simp_all add: ds kMaxDocuments_def kMaxChunks_def chunk_rows_def stored_document_def)
  have f: "f32_finite (of_nat (le_nat (wr_u (0x3F800000 :: u32))))"
    using rd_floats_wr [of "[0x3F800000]"] by (simp add: f32_finite_def)
  have accepted: "meta_accepted (cl_json plain_lexical) ''M'' = Inr ()"
    by (simp add: meta_accepted_def plain_lexical_meta runtime_meta_def)
  have flag: "(lay_flags (vw_layout v) AND kHasEmbeddings \<noteq> 0) = view_has Tag_embed v"
    using any assms by (simp add: view_has_def container_parts kHasEmbeddings_def)
  have bad: "load_embeddings sample_fp (embeddings_section ?ds) (locations_from 0 ?ds) (map (with_chunks row_chunk) ?ds) =
      fail Errc_corrupt_index ''checkpoint embedding dimension is invalid''"
    by (simp add: ds load_embeddings_def embeddings_section_def chunk_rows_def stored_document_def unit_vector_def wr_vector_def
        kMaxVectorDimension_def Let_def f sample_fp_def rd_bytes_def kEmbeddingTolerance_def fail_def)
  show ?thesis
    unfolding checkpoint_of_view_def flag
    using load_documents_section [OF st n(1)] load_chunks_section [OF st n] bad any
    by (simp add: assms(1) container_parts accepted fail_def)
qed

text \<open>
  The common dimension is needed: the save accepts an embedded document followed by a lexical-only
  one, and the loader takes the empty vector of the lexical-only chunk for a row of a different
  dimension. The embedded backend keeps such corpora out of its generations.\<close>
theorem mixed_checkpoint_unloadable:
  "snd (checkpoint_save plain_lexical sample_env path mixed_checkpoint fs) = Inr () \<and>
   checkpoint_load plain_lexical sample_fp view_ok stable_sort path
       (last (fst (checkpoint_save plain_lexical sample_env path mixed_checkpoint fs))) =
     fail Errc_corrupt_index ''checkpoint embedding dimension is invalid''"
proof
  let ?c = "checkpoint_container plain_lexical ''M'' mixed_checkpoint (the_documents mixed_checkpoint)"
  let ?fs = "last (fst (checkpoint_save plain_lexical sample_env path mixed_checkpoint fs))"
  show "snd (checkpoint_save plain_lexical sample_env path mixed_checkpoint fs) = Inr ()"
    by (simp add: sample_save(2) write_file_result sample_env_ok)
  have at: "?fs path = Some (serialize ?c)" by (simp add: sample_save(2) write_file_final sample_env_ok)
  have "container_wf ?c" using sample_checkpoints_small(2) by (simp add: container_wf_def container_parts(2,3) container_small)
  from view_of_serialized [where fs = ?fs and path = path, OF this std_sort_examples(1) _ at]
    sections_nonempty [OF _ plain_lexical_roundtrip, of "''M''" mixed_checkpoint "the_documents mixed_checkpoint"]
  obtain v where v: "view_open_file view_ok stable_sort path ?fs = Inr v" "lay_flags (vw_layout v) = ct_flags ?c"
      "\<And>t. view_get t v = map_of (ct_sections ?c) (tag_value t)" by auto
  from mixed_rejected [OF v(3,2)] v(1) show "checkpoint_load plain_lexical sample_fp view_ok stable_sort path ?fs =
      fail Errc_corrupt_index ''checkpoint embedding dimension is invalid''"
    by (simp add: checkpoint_load_def)
qed

end
