(* ===== verification/Backend_Restart.thy ===== *)
theory Backend_Restart
  imports Checkpoint_Roundtrip Embedded_Contract
begin

text \<open>
  \<^verbatim>\<open>EmbeddedBackend::checkpoint\<close>, \<^verbatim>\<open>restore_checkpoint\<close> and \<^verbatim>\<open>open_checkpoint\<close>: the durable half of the
  embedded backend, over the checkpoint file and the dense-index sidecars beside it. Shown here: a
  checkpoint of any state the backend reaches opens again as the same catalogue.
\<close>

subsection \<open>Writing a checkpoint\<close>

text \<open>
  The sidecars are caches in other files, written with their results ignored and read back under a
  fingerprint of the vectors; what they hold is a parameter.
\<close>

record sidecars =
  sd_write :: "generation \<Rightarrow> fs \<Rightarrow> fs"
  sd_load :: "dense_implementation \<Rightarrow> dense_algorithm \<Rightarrow> vector_record list \<Rightarrow> string \<Rightarrow> dense_index option"

definition snapshot_checkpoint :: "embedded_backend \<Rightarrow> u64 \<Rightarrow> checkpoint" where
  "snapshot_checkpoint be wal =
     \<lparr>cp_documents = map (\<lambda>(key, active). \<lparr>cd_prepared = Some (ad_prepared active), cd_revision = ad_revision active\<rparr>)
        (gen_documents (eb_active be)),
      cp_revisions = eb_latest_revisions be, cp_generation = gen_number (eb_active be), cp_wal_position = wal\<rparr>"

definition backend_checkpoint ::
    "checkpoint_lib \<Rightarrow> write_env \<Rightarrow> sidecars \<Rightarrow> string \<Rightarrow> u64 \<Rightarrow> embedded_backend \<Rightarrow> fs
       \<Rightarrow> fs list \<times> unit result \<times> embedded_backend" where
  "backend_checkpoint L env S path wal be fs =
     (case checkpoint_save L env path (snapshot_checkpoint be wal) fs of
        (states, Inl e) \<Rightarrow> (states, Inl e, be)
      | (states, Inr _) \<Rightarrow>
          (states @ [sd_write S (eb_active be) (last states)], Inr (), be\<lparr>eb_checkpoint_wal_position := wal\<rparr>))"

subsection \<open>Restoring one\<close>

record restored =
  rs_documents :: documents
  rs_vectors :: "vector_record list"
  rs_dimension :: nat
  rs_identity :: string

definition restored_document :: "prepared_document \<Rightarrow> document_revision \<Rightarrow> restored \<Rightarrow> restored" where
  "restored_document d revision r =
     (let vectors = map (\<lambda>c. (pc_key c, pc_embedding c)) (filter (\<lambda>c. pc_embedding c \<noteq> []) (pd_chunks d))
      in \<lparr>rs_documents = fst (omap_emplace (pd_key d) \<lparr>ad_revision = revision, ad_prepared = d\<rparr> (rs_documents r)),
          rs_vectors = rs_vectors r @ vectors,
          rs_dimension = (if rs_dimension r \<noteq> 0 then rs_dimension r
                          else case vectors of [] \<Rightarrow> 0 | (_, v) # _ \<Rightarrow> length v),
          rs_identity = (if pd_embedding_identity d \<noteq> [] then pd_embedding_identity d else rs_identity r)\<rparr>)"

fun restore_documents ::
    "fp \<Rightarrow> (document_key \<times> document_revision) list \<Rightarrow> checkpoint_document list \<Rightarrow> restored \<Rightarrow> restored result" where
  "restore_documents F revisions [] r = Inr r"
| "restore_documents F revisions (entry # entries) r =
     (case cd_prepared entry of
        None \<Rightarrow> fail Errc_corrupt_index ''checkpoint prepared document is missing''
      | Some d \<Rightarrow>
          (case validate F d (cd_revision entry) of
             Inl e \<Rightarrow> fail Errc_corrupt_index (''checkpoint prepared document is invalid: '' @ err_message e)
           | Inr _ \<Rightarrow>
               (if map_of (rs_documents r) (pd_key d) \<noteq> None
                then fail Errc_corrupt_index ''checkpoint has duplicate document keys''
                else if map_of revisions (pd_key d) \<noteq> Some (cd_revision entry)
                then fail Errc_corrupt_index ''checkpoint active revision does not match catalog''
                else restore_documents F revisions entries (restored_document d (cd_revision entry) r))))"

definition restored_base ::
    "fp \<Rightarrow> ann \<Rightarrow> sidecars \<Rightarrow> dense_policy \<Rightarrow> dense_algorithm \<Rightarrow> restored \<Rightarrow> tiered result" where
  "restored_base F A S policy algorithm r =
     (case sd_load S (dp_implementation policy) algorithm (rs_vectors r) (rs_identity r) of
        Some ix \<Rightarrow> from_base F ix (map fst (rs_vectors r)) (rs_dimension r)
      | None \<Rightarrow> and_then (tiered_empty F) (\<lambda>_. tiered_compact F A (rs_vectors r) (rs_dimension r) policy))"

definition restore_checkpoint ::
    "fp \<Rightarrow> ann \<Rightarrow> sidecars \<Rightarrow> checkpoint \<Rightarrow> embedded_backend \<Rightarrow> unit result \<times> embedded_backend" where
  "restore_checkpoint F A S cp be =
     (if \<not> list_all (\<lambda>(document, revision). document \<noteq> [] \<and> revision \<noteq> 0) (cp_revisions cp)
      then (fail Errc_corrupt_index ''checkpoint revision catalog is invalid'', be)
      else
        case and_then (restore_documents F (cp_revisions cp) (cp_documents cp)
               \<lparr>rs_documents = [], rs_vectors = [], rs_dimension = 0, rs_identity = []\<rparr>) (\<lambda>r.
             and_then (resolve_dense_algorithm (ann_faiss A) (mp_dense (eb_policy be)) (length (rs_vectors r))) (\<lambda>algorithm.
             and_then (restored_base F A S (mp_dense (eb_policy be)) algorithm r) (\<lambda>dense.
             case build_generation F (rs_documents r) dense [] [] (cp_generation cp) of
               Inl e \<Rightarrow> fail Errc_corrupt_index (''checkpoint generation is invalid: '' @ err_message e)
             | Inr g \<Rightarrow> Inr g))) of
          Inl e \<Rightarrow> (Inl e, be)
        | Inr g \<Rightarrow> (Inr (), be\<lparr>eb_latest_revisions := cp_revisions cp, eb_active := g,
                             eb_checkpoint_wal_position := cp_wal_position cp\<rparr>))"

definition open_checkpoint ::
    "checkpoint_lib \<Rightarrow> fp \<Rightarrow> ann \<Rightarrow> sidecars \<Rightarrow> view_env \<Rightarrow> (section_range list \<Rightarrow> section_range list) \<Rightarrow> string
       \<Rightarrow> maintenance_policy \<Rightarrow> fs \<Rightarrow> embedded_backend result" where
  "open_checkpoint L F A S env std_sort path policy fs =
     and_then (checkpoint_load L F env std_sort path fs) (\<lambda>cp.
     and_then (backend_new F policy) (\<lambda>be.
       case restore_checkpoint F A S cp be of (Inl e, _) \<Rightarrow> Inl e | (Inr _, be) \<Rightarrow> Inr be))"

subsection \<open>What is restored\<close>

lemma restore_documents_Inr:
  assumes "\<forall>(k, a) \<in> set ds. pd_key (ad_prepared a) = k \<and> validate F (ad_prepared a) (ad_revision a) = Inr () \<and>
      map_of revisions k = Some (ad_revision a)"
    and "omap_wf (rs_documents r @ ds)"
  shows "\<exists>r'. restore_documents F revisions
      (map (\<lambda>(key, active). \<lparr>cd_prepared = Some (ad_prepared active), cd_revision = ad_revision active\<rparr>) ds) r = Inr r' \<and>
    rs_documents r' = rs_documents r @ ds \<and> rs_vectors r' = rs_vectors r @ live_vectors ds \<and>
    rs_dimension r' = (if rs_dimension r \<noteq> 0 then rs_dimension r
                          else case live_vectors ds of [] \<Rightarrow> 0 | (_, v) # _ \<Rightarrow> length v)"
  using assms
proof (induction ds arbitrary: r)
  case (Cons p ds)
  obtain k a where p: "p = (k, a)" by force
  let ?d = "ad_prepared a"
  let ?r = "restored_document ?d (ad_revision a) r"
  have a: "pd_key ?d = k" "validate F ?d (ad_revision a) = Inr ()" "map_of revisions k = Some (ad_revision a)"
    using Cons.prems(1) p by auto
  have fresh: "map_of (rs_documents r) k = None" "fst (omap_emplace k a (rs_documents r)) = rs_documents r @ [(k, a)]"
    using omap_emplace_above [of "rs_documents r" k a ds] Cons.prems(2) p by simp_all
  have whole: "\<lparr>ad_revision = ad_revision a, ad_prepared = ?d\<rparr> = a" by simp
  have docs: "rs_documents ?r = rs_documents r @ [(k, a)]"
    using fresh(2) by (simp add: restored_document_def Let_def a(1) whole del: active_document.surjective)
  obtain r' where r': "restore_documents F revisions
      (map (\<lambda>(key, active). \<lparr>cd_prepared = Some (ad_prepared active), cd_revision = ad_revision active\<rparr>) ds) ?r = Inr r'"
      "rs_documents r' = rs_documents ?r @ ds" "rs_vectors r' = rs_vectors ?r @ live_vectors ds"
      "rs_dimension r' = (if rs_dimension ?r \<noteq> 0 then rs_dimension ?r
                          else case live_vectors ds of [] \<Rightarrow> 0 | (_, v) # _ \<Rightarrow> length v)"
    using Cons.IH [of ?r] Cons.prems docs p by auto
  let ?new = "map (\<lambda>c. (pc_key c, pc_embedding c)) (filter (\<lambda>c. pc_embedding c \<noteq> []) (pd_chunks ?d))"
  have new: "live_vectors (p # ds) = ?new @ live_vectors ds" by (simp add: live_vectors_def p)
  have nonempty: "\<forall>(k, v) \<in> set ?new. v \<noteq> []" by auto
  have "rs_dimension r' = (if rs_dimension r \<noteq> 0 then rs_dimension r
                          else case live_vectors (p # ds) of [] \<Rightarrow> 0 | (_, v) # _ \<Rightarrow> length v)"
  proof (cases ?new)
    case Nil
    then show ?thesis unfolding r'(4) new by (simp add: restored_document_def Let_def)
  next
    case (Cons w ws)
    obtain k' v where w: "w = (k', v)" by force
    with nonempty Cons have "v \<noteq> []" by auto
    then show ?thesis unfolding r'(4) new Cons w by (simp add: restored_document_def Let_def Cons w)
  qed
  moreover have "rs_vectors r' = rs_vectors r @ live_vectors (p # ds)"
    by (simp add: r'(3) new restored_document_def Let_def)
  moreover have "rs_documents r' = rs_documents r @ p # ds" by (simp add: r'(2) docs p)
  ultimately show ?case using r'(1) a fresh(1) by (intro exI [of _ r']) (simp add: p)
qed (simp add: live_vectors_def)

subsection \<open>A generation does not depend on its dense tiers\<close>

definition same_rows :: "generation \<Rightarrow> generation \<Rightarrow> bool" where
  "same_rows g h \<longleftrightarrow> gen_documents h = gen_documents g \<and> gen_chunks h = gen_chunks g \<and>
     gen_ordinal_keys h = gen_ordinal_keys g \<and> gen_lexical h = gen_lexical g \<and> gen_dimension h = gen_dimension g \<and>
     gen_chunking_fingerprint h = gen_chunking_fingerprint g \<and> gen_embedding_identity h = gen_embedding_identity g"

definition same_building :: "build_state \<Rightarrow> build_state \<Rightarrow> bool" where
  "same_building s r \<longleftrightarrow> same_rows (bs_gen s) (bs_gen r) \<and> bs_ordinal r = bs_ordinal s \<and> bs_dense_chunks r = bs_dense_chunks s"

lemma add_chunk_same:
  "add_chunk t k a c s = Inr s' \<Longrightarrow> same_building s r \<Longrightarrow> \<exists>r'. add_chunk u k a c r = Inr r' \<and> same_building s' r'"
  by (auto simp: add_chunk_def Let_def fail_def same_building_def same_rows_def split: if_splits)

lemma add_chunks_same:
  "add_chunks t k a cs s = Inr s' \<Longrightarrow> same_building s r \<Longrightarrow> \<exists>r'. add_chunks u k a cs r = Inr r' \<and> same_building s' r'"
proof (induction cs arbitrary: s r)
  case (Cons c cs)
  then obtain s1 where s1: "add_chunk t k a c s = Inr s1" "add_chunks t k a cs s1 = Inr s'" by (auto simp: and_then_Inr)
  from add_chunk_same [OF s1(1) Cons.prems(2)] obtain r1 where "add_chunk u k a c r = Inr r1" "same_building s1 r1" by blast
  with Cons.IH [OF s1(2)] show ?case by simp
qed simp

lemma add_document_same:
  assumes "add_document t k a s = Inr s'" and "same_building s r"
  shows "\<exists>r'. add_document u k a r = Inr r' \<and> same_building s' r'"
proof -
  define start :: "generation \<Rightarrow> generation" where "start g = (let g = (if gen_chunking_fingerprint g = []
       then g\<lparr>gen_chunking_fingerprint := pd_chunking_fingerprint (ad_prepared a)\<rparr> else g)
     in if gen_embedding_identity g = [] then g\<lparr>gen_embedding_identity := pd_embedding_identity (ad_prepared a)\<rparr> else g)" for g
  let ?s = "s\<lparr>bs_gen := start (bs_gen s)\<rparr>" and ?r = "r\<lparr>bs_gen := start (bs_gen r)\<rparr>"
  have s: "add_chunks t k a (pd_chunks (ad_prepared a)) ?s = Inr s'"
    "gen_chunking_fingerprint (start (bs_gen s)) = pd_chunking_fingerprint (ad_prepared a)"
    "gen_embedding_identity (start (bs_gen s)) = pd_embedding_identity (ad_prepared a)"
    using assms(1) by (auto simp: add_document_def Let_def start_def fail_def split: if_splits)
  have same: "same_rows (start (bs_gen s)) (start (bs_gen r))"
    using assms(2) by (simp add: same_building_def same_rows_def start_def Let_def)
  with assms(2) have "same_building ?s ?r" by (simp add: same_building_def)
  from add_chunks_same [OF s(1) this] obtain r' where
    "add_chunks u k a (pd_chunks (ad_prepared a)) ?r = Inr r'" "same_building s' r'" by blast
  moreover have "add_document u k a r = add_chunks u k a (pd_chunks (ad_prepared a)) ?r"
    using s(2,3) same by (auto simp: add_document_def Let_def start_def fail_def same_rows_def split: if_splits)
  ultimately show ?thesis by auto
qed

lemma add_documents_same:
  "add_documents t ds s = Inr s' \<Longrightarrow> same_building s r \<Longrightarrow> \<exists>r'. add_documents u ds r = Inr r' \<and> same_building s' r'"
proof (induction t ds s arbitrary: r rule: add_documents.induct)
  case (2 t k a ds s)
  from "2.prems"(1) obtain s1 where s1: "add_document t k a s = Inr s1" "add_documents t ds s1 = Inr s'"
    by (auto simp: and_then_Inr)
  from add_document_same [OF s1(1) "2.prems"(2)] obtain r1 where "add_document u k a r = Inr r1" "same_building s1 r1" by blast
  with "2.IH" [OF s1(2)] show ?case by simp
qed simp

text \<open>What was built once can be built again over another dense base that covers no other rows.\<close>

lemma rebuild_generation:
  assumes "build_generation F ds t dd ts n = Inr g" and "base_dimension (ti_base u) = 0 \<or> base_dimension (ti_base u) = gen_dimension g"
  shows "\<exists>h. build_generation F ds u [] [] m = Inr h \<and> same_rows g h \<and> gen_number h = m \<and>
    gen_delta_documents h = [] \<and> ti_base (gen_dense h) = ti_base u \<and> ti_tombstones (gen_dense h) = []"
proof -
  obtain s where s: "add_documents t ds (build_start ds t dd n) = Inr s"
    and mix: "\<not> (bs_dense_chunks s \<noteq> 0 \<and> bs_dense_chunks s \<noteq> length (gen_chunks (bs_gen s)))"
    and g: "same_rows (bs_gen s) g"
    using assms(1) by (auto simp: build_generation_def and_then_Inr fail_def same_rows_def split: if_splits)
  have "same_building (build_start ds t dd n) (build_start ds u [] m)"
    by (simp add: same_building_def same_rows_def build_start_def)
  from add_documents_same [OF s this] obtain r where r: "add_documents u ds (build_start ds u [] m) = Inr r" "same_building s r"
    by blast
  have "building ds u [] m (rows ds) r" using add_documents_building [OF r(1) building_start] by simp
  then have b: "bs_delta_vectors r = []" "gen_number (bs_gen r) = m" "gen_delta_documents (bs_gen r) = []"
    by (simp_all add: building_def delta_rows_def)
  have d: "gen_dimension (bs_gen r) = gen_dimension g" using r(2) g by (simp add: same_building_def same_rows_def)
  obtain e where e: "exact_build F [] = Inr e" using exact_build_ok [of "[]" 0 F] by auto
  have "with_delta F u [] [] (gen_dimension (bs_gen r)) =
      Inr \<lparr>ti_base = ti_base u, ti_delta = e, ti_delta_keys = [], ti_tombstones = [], ti_dimension = gen_dimension g\<rparr>"
    using assms(2) by (auto simp: with_delta_def Let_def d e)
  then have "build_generation F ds u [] [] m = Inr ((bs_gen r)\<lparr>gen_dense := \<lparr>ti_base = ti_base u, ti_delta = e,
      ti_delta_keys = [], ti_tombstones = [], ti_dimension = gen_dimension g\<rparr>\<rparr>)"
    using mix r(2) by (auto simp: build_generation_def r(1) b(1) same_building_def same_rows_def)
  with b(2,3) g r(2) show ?thesis by (simp add: same_building_def same_rows_def)
qed

definition built :: "fp \<Rightarrow> generation \<Rightarrow> bool" where
  "built F g \<longleftrightarrow> (\<exists>t dd ts n. build_generation F (gen_documents g) t dd ts n = Inr g)"

lemma builtI: "build_generation F ds t dd ts n = Inr g \<Longrightarrow> built F g"
  using build_generation_Inr(1) [of F ds t dd ts n g] by (auto simp: built_def)

lemma activate_built: "built F (eb_active be) \<Longrightarrow> built F (eb_active (snd (activate F d r be)))"
  using activate_invalid [of F d r _ be] activate_stale [of F d r be] activate_fresh [of F d r be]
  by (cases "validate F d r"; cases "stale be (pd_key d) r") (auto dest: builtI split: sum.splits)

lemma erase_built: "built F (eb_active be) \<Longrightarrow> built F (eb_active (snd (erase F k r be)))"
  using erase_unchanged [of k r be F] erase_fresh [of k r be F]
  by (cases "k = [] \<or> r = 0 \<or> stale be k r") (auto dest: builtI split: sum.splits)

lemma reachable_built: "backend_reachable F A be ss \<Longrightarrow> built F (eb_active be)"
proof (induction rule: backend_reachable.induct)
  case (start p be)
  then show ?case by (auto simp: backend_new_def and_then_Inr intro: builtI)
next
  case (publishes be ss s ov g)
  then have "built F g" by (auto simp: compact_build_def and_then_Inr fail_def split: if_splits intro: builtI)
  with publishes show ?case by (simp add: compact_publish_def)
qed (simp_all add: activate_built erase_built)

subsection \<open>What a reachable state puts into its checkpoint\<close>

lemma check_save_chunks_Inr:
  "check_save_chunks cs keys = Inr r \<Longrightarrow> \<forall>c \<in> set cs. valid_string (pc_key c) \<and> valid_string (pc_text c) \<and>
     valid_string (pc_context c) \<and> valid_string (pc_indexed_text c) \<and> length (pc_embedding c) \<le> kMaxVectorDimension"
proof (induction cs arbitrary: keys)
  case (Cons c cs)
  have c: "check_save_chunks cs (pc_key c # keys) = Inr r" "valid_string (pc_key c)" "valid_string (pc_text c)"
      "valid_string (pc_context c)" "valid_string (pc_indexed_text c)" "\<not> length (pc_embedding c) > kMaxVectorDimension"
    using Cons.prems by (simp_all only: check_save_chunks.simps fail_neq_Inr split: if_splits) simp_all
  with Cons.IH [OF c(1)] show ?case by (simp add: not_less)
qed simp

lemma check_save_documents_Inr:
  "check_save_documents cp es n ds keys = Inr () \<Longrightarrow> n \<le> kMaxChunks \<Longrightarrow>
     n + length (concat (map (pd_chunks \<circ> the \<circ> cd_prepared) es)) \<le> kMaxChunks \<and>
     (\<forall>e \<in> set es. \<exists>d. cd_prepared e = Some d \<and> cd_revision e \<noteq> 0 \<and>
        map_of (cp_revisions cp) (pd_key d) = Some (cd_revision e) \<and>
        length (pd_metadata d) \<le> kMaxMetadataEntries \<and> list_all valid_string [pd_key d, pd_title d, pd_content d,
          pd_content_hash d, pd_chunking_fingerprint d, pd_embedding_identity d] \<and> length (pd_chunks d) \<le> kMaxChunks \<and>
        (\<forall>(k, v) \<in> set (pd_metadata d). valid_string k \<and> valid_string v) \<and>
        (\<exists>keys r. check_save_chunks (pd_chunks d) keys = Inr r))"
proof (induction es arbitrary: n ds keys)
  case (Cons e es)
  from Cons.prems(1) obtain d where d: "cd_prepared e = Some d" by (auto simp: fail_def split: option.splits)
  from Cons.prems(1) obtain keys' where k: "check_save_chunks (pd_chunks d) keys = Inr keys'"
      "check_save_documents cp es (n + length (pd_chunks d)) (pd_key d # ds) keys' = Inr ()"
      "\<not> length (pd_chunks d) > kMaxChunks - n"
    by (auto simp: d and_then_Inr fail_def split: if_splits)
  have "cd_revision e \<noteq> 0 \<and> map_of (cp_revisions cp) (pd_key d) = Some (cd_revision e) \<and>
        length (pd_metadata d) \<le> kMaxMetadataEntries \<and> list_all valid_string [pd_key d, pd_title d, pd_content d,
          pd_content_hash d, pd_chunking_fingerprint d, pd_embedding_identity d] \<and>
        (\<forall>(k, v) \<in> set (pd_metadata d). valid_string k \<and> valid_string v)"
    using Cons.prems(1) by (auto simp: d fail_def list_all_iff split: if_splits)
  with Cons.IH [OF k(2)] k Cons.prems(2) d show ?case by (auto simp: add.assoc)
qed simp

lemma validate_chunks_sound:
  "validate_chunks F d cs i keys dm ae em = Inr r \<Longrightarrow> c \<in> set cs \<Longrightarrow>
     pc_key c \<noteq> [] \<and> pc_start_line c \<le> pc_end_line c \<and> list_all f32_finite (pc_embedding c) \<and>
     (pc_embedding c \<noteq> [] \<longrightarrow> fp_norm_error F (pc_embedding c) \<le> kEmbeddingTolerance)"
proof (induction F d cs i keys dm ae em rule: validate_chunks.induct)
  case (2 F d c' cs i keys dm ae em)
  from "2.prems"(1) obtain keys' dm' ae' em' where
    "validate_chunks F d cs (i + 1) keys' dm' ae' em' = Inr r" by (auto simp: fail_def Let_def split: if_splits)
  with "2.IH" "2.prems" show ?case
    by (cases "c = c'") (auto simp: fail_def Let_def split: if_splits)
qed simp

lemma validate_Inr_chunks:
  assumes "validate F d r = Inr ()"
  shows "\<exists>x. validate_chunks F d (pd_chunks d) 0 [] 0 False False = Inr x"
  using assms by (auto simp: validate_def fail_def and_then_Inr split: if_splits)

lemma length_rows_from: "length (rows_from j ds) = length (concat (map pd_chunks ds))"
  by (induction ds arbitrary: j) simp_all

lemma length_chunk_rows: "length (chunk_rows ds) = length (concat (map pd_chunks ds))"
  by (simp only: chunk_rows_from length_rows_from)

lemma row_dimension:
  assumes "built F g" and "(k, a) \<in> set (gen_documents g)" and "c \<in> set (pd_chunks (ad_prepared a))"
  shows "length (pc_embedding c) = gen_dimension g"
proof -
  from assms(1) obtain t dd ts n where b: "build_generation F (gen_documents g) t dd ts n = Inr g" by (auto simp: built_def)
  note facts = build_generation_Inr(4,5) [OF b]
  have "(k, a, c) \<in> set (rows (gen_documents g))" using assms(2,3) by (auto simp: mem_rows doc_rows_def)
  with facts show ?thesis by (auto simp: catalogue_def row_emb_def)
qed

definition metadata_maps :: "embedded_backend \<Rightarrow> bool" where
  "metadata_maps be \<longleftrightarrow> (\<forall>(k, a) \<in> set (gen_documents (eb_active be)). omap_wf (pd_metadata (ad_prepared a)))"

lemma active_documents:
  assumes "backend_reachable F A be ss" and "(k, a) \<in> set (gen_documents (eb_active be))"
  shows "pd_key (ad_prepared a) = k" and "validate F (ad_prepared a) (ad_revision a) = Inr ()"
    and "map_of (eb_latest_revisions be) k = Some (ad_revision a)"
proof -
  have w: "generation_wf (eb_active be)" "documents_wf F be" using reachable_wf [OF assms(1)] by (simp_all add: backend_wf_def)
  have "map_of (gen_documents (eb_active be)) k = Some a" using w(1) assms(2) by (simp add: generation_wf_def mem_omap)
  then show "pd_key (ad_prepared a) = k" "validate F (ad_prepared a) (ad_revision a) = Inr ()"
    "map_of (eb_latest_revisions be) k = Some (ad_revision a)" using w(2) by (auto simp: documents_wf_def)
qed

lemma snapshot_checkpoint_wf:
  assumes "backend_reachable F A be ss" and "metadata_maps be" and "validate_for_save (snapshot_checkpoint be wal) = Inr ()"
  shows "checkpoint_wf F (gen_dimension (eb_active be)) (snapshot_checkpoint be wal)"
proof -
  let ?cp = "snapshot_checkpoint be wal" and ?g = "eb_active be"
  from assms(3) have v: "length (cp_documents ?cp) \<le> kMaxDocuments" "check_save_documents ?cp (cp_documents ?cp) 0 [] [] = Inr ()"
      "length (cp_revisions ?cp) \<le> kMaxDocuments"
      "list_all (\<lambda>(document, revision). document \<noteq> [] \<and> valid_string document \<and> revision \<noteq> 0) (cp_revisions ?cp)"
    by (auto simp: validate_for_save_def and_then_Inr fail_def split: if_splits)
  note c = check_save_documents_Inr [OF v(2) le0, simplified]
  have wf: "omap_wf (eb_latest_revisions be)" using reachable_wf [OF assms(1)] by (simp add: backend_wf_def)
  have doc: "\<exists>d. cd_prepared e = Some d \<and> document_storable d \<and> cd_revision e \<noteq> 0 \<and>
      map_of (cp_revisions ?cp) (pd_key d) = Some (cd_revision e) \<and>
      (\<forall>c \<in> set (pd_chunks d). vector_storable F (gen_dimension ?g) (pc_embedding c))" if e: "e \<in> set (cp_documents ?cp)" for e
  proof -
    from e obtain k a where a: "(k, a) \<in> set (gen_documents ?g)" "e = \<lparr>cd_prepared = Some (ad_prepared a), cd_revision = ad_revision a\<rparr>"
      by (auto simp: snapshot_checkpoint_def)
    let ?d = "ad_prepared a"
    from c e obtain keys r where s: "cd_revision e \<noteq> 0" "map_of (cp_revisions ?cp) (pd_key ?d) = Some (cd_revision e)"
        "length (pd_metadata ?d) \<le> kMaxMetadataEntries" "valid_string (pd_key ?d)" "valid_string (pd_title ?d)"
        "valid_string (pd_content ?d)" "valid_string (pd_content_hash ?d)" "valid_string (pd_chunking_fingerprint ?d)"
        "valid_string (pd_embedding_identity ?d)" "length (pd_chunks ?d) \<le> kMaxChunks"
        "\<forall>(k, v) \<in> set (pd_metadata ?d). valid_string k \<and> valid_string v" "check_save_chunks (pd_chunks ?d) keys = Inr r"
      by (fastforce simp: a(2))
    from validate_Inr_chunks [OF active_documents(2) [OF assms(1) a(1)]]
    obtain x where x: "validate_chunks F ?d (pd_chunks ?d) 0 [] 0 False False = Inr x" by blast
    have m: "omap_wf (pd_metadata ?d)" using assms(2) a(1) by (auto simp: metadata_maps_def)
    have "document_storable ?d"
      unfolding document_storable_def
      using m s(3-11) check_save_chunks_Inr [OF s(12)] validate_chunks_sound [OF x] validate_chunks_ordinal [OF x]
      by (intro conjI) auto
    moreover have "vector_storable F (gen_dimension ?g) (pc_embedding c)" if ch: "c \<in> set (pd_chunks ?d)" for c
      using row_dimension [OF reachable_built [OF assms(1)] a(1) ch] check_save_chunks_Inr [OF s(12)]
        validate_chunks_sound [OF x ch] ch by (auto simp: vector_storable_def)
    ultimately show ?thesis using s(1,2) by (simp add: a(2))
  qed
  have "length (chunk_rows (map (the \<circ> cd_prepared) (cp_documents ?cp))) \<le> kMaxChunks"
    using c by (simp add: length_chunk_rows comp_def)
  with v doc wf show ?thesis
    by (auto simp: checkpoint_wf_def list_all_iff snapshot_checkpoint_def)
qed

subsection \<open>Restart\<close>

definition first_dimension :: "vector_record list \<Rightarrow> nat" where
  "first_dimension vs = (case vs of [] \<Rightarrow> 0 | (_, v) # _ \<Rightarrow> length v)"

text \<open>A sidecar is accepted under the fingerprint of the vectors: it indexes as many, of their dimension.\<close>

definition sidecars_ok :: "sidecars \<Rightarrow> string \<Rightarrow> bool" where
  "sidecars_ok S path \<longleftrightarrow> (\<forall>g fs. sd_write S g fs path = fs path) \<and>
     (\<forall>i algorithm vs identity ix. sd_load S i algorithm vs identity = Some ix \<longrightarrow>
        index_vectors ix = length vs \<and> index_dimension ix = first_dimension vs)"

lemma exact_build_empty: "\<exists>e. exact_build F [] = Inr e"
  using exact_build_ok [of "[]" 0 F] by auto

lemma backend_new_Inr: "\<exists>be. backend_new F policy = Inr be \<and> eb_policy be = policy"
proof -
  obtain e where "exact_build F [] = Inr e" using exact_build_empty by blast
  then show ?thesis
    by (auto simp: backend_new_def tiered_empty_def build_generation_def build_start_def with_delta_def base_empty_def)
qed

lemma restored_base_Inr:
  assumes "sidecars_ok S path" and "rs_dimension r = first_dimension (rs_vectors r)"
    and "\<forall>(k, v) \<in> set (rs_vectors r). k \<noteq> [] \<and> length v = rs_dimension r" and "distinct (map fst (rs_vectors r))"
    and "build_dense_index F A policy (rs_vectors r) = Inr ix"
  shows "\<exists>u. restored_base F A S policy algorithm r = Inr u \<and> base_dimension (ti_base u) = rs_dimension r \<and>
    set (base_keys (ti_base u)) = fst ` set (rs_vectors r)"
proof -
  obtain e where e: "exact_build F [] = Inr e" using exact_build_empty by blast
  show ?thesis
  proof (cases "sd_load S (dp_implementation policy) algorithm (rs_vectors r) (rs_identity r)")
    case None
    have "list_all (\<lambda>(k, v). length v = rs_dimension r) (rs_vectors r)" using assms(3) by (auto simp: list_all_iff)
    then show ?thesis by (simp add: restored_base_def None tiered_empty_def tiered_compact_def e assms(5))
  next
    case (Some ix')
    have "index_vectors ix' = length (rs_vectors r)" "index_dimension ix' = rs_dimension r"
      using assms(1,2) Some by (auto simp: sidecars_ok_def)
    moreover have "list_all (\<lambda>k. k \<noteq> []) (map fst (rs_vectors r))" using assms(3) by (auto simp: list_all_iff)
    ultimately show ?thesis using assms(4) by (simp add: restored_base_def Some from_base_def e)
  qed
qed

lemma live_vectors_facts:
  assumes "backend_reachable F A be ss"
  defines "vs \<equiv> live_vectors (gen_documents (eb_active be))"
  shows "\<forall>(k, v) \<in> set vs. k \<noteq> [] \<and> length v = gen_dimension (eb_active be)" and "distinct (map fst vs)"
    and "first_dimension vs = gen_dimension (eb_active be)"
proof -
  let ?g = "eb_active be"
  have cat: "catalogue (rows (gen_documents ?g)) ?g" using reachable_wf [OF assms(1)] by (simp add: backend_wf_def generation_wf_def)
  show each: "\<forall>(k, v) \<in> set vs. k \<noteq> [] \<and> length v = gen_dimension ?g"
  proof (intro ballI, clarify)
    fix k v assume "(k, v) \<in> set vs"
    then obtain dk a c where r: "(dk, a) \<in> set (gen_documents ?g)" "c \<in> set (pd_chunks (ad_prepared a))" "k = pc_key c" "v = pc_embedding c"
      by (fastforce simp: vs_def live_vectors_rows mem_rows doc_rows_def row_key_def row_emb_def)
    from validate_Inr_chunks [OF active_documents(2) [OF assms(1) r(1)]] obtain x where
      x: "validate_chunks F (ad_prepared a) (pd_chunks (ad_prepared a)) 0 [] 0 False False = Inr x" by blast
    show "k \<noteq> [] \<and> length v = gen_dimension ?g"
      using validate_chunks_sound [OF x r(2)] row_dimension [OF reachable_built [OF assms(1)] r(1,2)] r(3,4) by simp
  qed
  show "distinct (map fst vs)"
    using cat by (simp add: vs_def live_vectors_rows catalogue_def comp_def distinct_map_filter)
  show "first_dimension vs = gen_dimension ?g"
  proof (cases vs)
    case Nil
    have "\<forall>x \<in> set (rows (gen_documents ?g)). row_emb x = []"
      using Nil by (simp add: vs_def live_vectors_rows filter_empty_conv)
    with cat Nil show ?thesis by (auto simp: catalogue_def first_dimension_def)
  next
    case (Cons p ps)
    with each show ?thesis by (cases p) (simp add: first_dimension_def)
  qed
qed

text \<open>
  C31: a restart loses nothing. When the embedded backend, in any state that activations, erasures and
  compactions reach, has written a checkpoint, opening that file in a new process gives a backend
  with the same documents, chunks, lexical rows, dimension, fingerprints, revisions and generation
  number, at the saved position of the write-ahead log, with every live vector in the dense base and
  no tombstones, whether or not the dense sidecar survived.\<close>
theorem checkpoint_restart:
  assumes "backend_reachable F A be ss" and "metadata_maps be"
    and "backend_checkpoint L env S path wal be fs = (states, Inr (), be')"
    and "std_sort_spec srt" and "lexical_roundtrip L" and "sidecars_ok S path"
    and "\<And>s. jl_dump (cl_json L) runtime_meta = Some s \<Longrightarrow>
       s \<noteq> [] \<and> jl_parse (cl_json L) s = Some runtime_meta \<and>
       length (serialize (checkpoint_container L s (snapshot_checkpoint be wal)
         (map (the \<circ> cd_prepared) (cp_documents (snapshot_checkpoint be wal))))) < 2 ^ 64"
    and "build_dense_index F A (mp_dense policy) (live_vectors (gen_documents (eb_active be))) = Inr ix"
  shows "\<exists>new. open_checkpoint L F A S view_ok srt path policy (last states) = Inr new \<and>
    same_rows (eb_active be) (eb_active new) \<and> gen_number (eb_active new) = gen_number (eb_active be) \<and>
    eb_latest_revisions new = eb_latest_revisions be \<and> eb_checkpoint_wal_position new = wal \<and> eb_policy new = policy \<and>
    ti_tombstones (gen_dense (eb_active new)) = [] \<and>
    set (base_keys (ti_base (gen_dense (eb_active new)))) = fst ` set (live_vectors (gen_documents (eb_active be)))"
proof -
  let ?cp = "snapshot_checkpoint be wal" and ?g = "eb_active be" and ?p = "mp_dense policy"
  let ?r0 = "\<lparr>rs_documents = [], rs_vectors = [], rs_dimension = 0, rs_identity = []\<rparr> :: restored"
  obtain sts where saved: "checkpoint_save L env path ?cp fs = (sts, Inr ())" and states: "states = sts @ [sd_write S ?g (last sts)]"
    using assms(3) by (auto simp: backend_checkpoint_def split: prod.splits sum.splits)
  have valid: "validate_for_save ?cp = Inr ()" using saved by (auto simp: checkpoint_save_def split: sum.splits)
  have loaded: "checkpoint_load L F view_ok srt path (last sts) = Inr ?cp"
    using checkpoint_roundtrip [OF _ snapshot_checkpoint_wf [OF assms(1,2) valid] assms(4,5,7), of env path fs] saved by simp
  have same: "last states path = last sts path" using assms(6) by (simp add: states sidecars_ok_def)
  have "checkpoint_load L F view_ok srt path (last states) = Inr ?cp"
    using loaded same by (simp add: checkpoint_load_def view_open_file_def)
  moreover obtain b0 where "backend_new F policy = Inr b0" "eb_policy b0 = policy" using backend_new_Inr by blast
  moreover have docs: "\<forall>(k, a) \<in> set (gen_documents ?g). pd_key (ad_prepared a) = k \<and>
      validate F (ad_prepared a) (ad_revision a) = Inr () \<and> map_of (eb_latest_revisions be) k = Some (ad_revision a)"
    using active_documents [OF assms(1)] by blast
  moreover have "omap_wf (gen_documents ?g)" using reachable_wf [OF assms(1)] by (simp add: backend_wf_def generation_wf_def)
  ultimately obtain r where r: "restore_documents F (cp_revisions ?cp) (cp_documents ?cp) ?r0 = Inr r"
      "rs_documents r = gen_documents ?g" "rs_vectors r = live_vectors (gen_documents ?g)"
      "rs_dimension r = first_dimension (live_vectors (gen_documents ?g))"
    using restore_documents_Inr [OF docs, of ?r0] by (auto simp: snapshot_checkpoint_def first_dimension_def)
  note vs = live_vectors_facts [OF assms(1)]
  obtain algorithm where alg: "resolve_dense_algorithm (ann_faiss A) ?p (length (rs_vectors r)) = Inr algorithm"
    using assms(8) by (auto simp: build_dense_index_def and_then_Inr r(3))
  obtain u where u: "restored_base F A S ?p algorithm r = Inr u" "base_dimension (ti_base u) = gen_dimension ?g"
      "set (base_keys (ti_base u)) = fst ` set (live_vectors (gen_documents ?g))"
    using restored_base_Inr [OF assms(6), of r F A ?p ix algorithm] vs assms(8) by (auto simp: r(3,4))
  obtain t dd ts n where "build_generation F (gen_documents ?g) t dd ts n = Inr ?g"
    using reachable_built [OF assms(1)] by (auto simp: built_def)
  from rebuild_generation [OF this, of u "gen_number ?g"] u(2) obtain h where h:
      "build_generation F (gen_documents ?g) u [] [] (gen_number ?g) = Inr h" "same_rows ?g h" "gen_number h = gen_number ?g"
      "ti_base (gen_dense h) = ti_base u" "ti_tombstones (gen_dense h) = []" by auto
  have revisions: "list_all (\<lambda>(document, revision). document \<noteq> [] \<and> revision \<noteq> 0) (cp_revisions ?cp)"
    using valid by (auto simp: validate_for_save_def and_then_Inr fail_def list_all_iff split: if_splits)
  have "restore_checkpoint F A S ?cp b0 = (Inr (), b0\<lparr>eb_latest_revisions := cp_revisions ?cp, eb_active := h,
      eb_checkpoint_wal_position := cp_wal_position ?cp\<rparr>)"
    using revisions r(1,2) alg u(1) h(1) \<open>eb_policy b0 = policy\<close>
    by (simp add: restore_checkpoint_def) (simp add: snapshot_checkpoint_def)
  then show ?thesis
    using \<open>checkpoint_load L F view_ok srt path (last states) = Inr ?cp\<close> \<open>backend_new F policy = Inr b0\<close>
      \<open>eb_policy b0 = policy\<close> h(2-) u(3)
    by (simp add: open_checkpoint_def) (simp add: snapshot_checkpoint_def)
qed

definition lost_sidecars :: sidecars where
  "lost_sidecars = \<lparr>sd_write = (\<lambda>g fs. fs), sd_load = (\<lambda>_ _ _ _. None)\<rparr>"

lemma sample_snapshot: "snapshot_checkpoint sample_indexed wal = \<lparr>cp_documents = [\<lparr>cd_prepared = Some (sample_document [] 0x3F800000),
     cd_revision = 1\<rparr>], cp_revisions = [(''d'', 1)], cp_generation = 2, cp_wal_position = wal\<rparr>"
  by (simp add: snapshot_checkpoint_def sample_compacted sample_gen_def)

lemma sample_lengths: "length (pc_key (sample_chunk ctx e)) = 20" "length (pd_content_hash (sample_document ctx e)) = 24"
  by (simp_all add: sample_chunk_def sample_document_def stable_chunk_key_def document_content_hash_def)

lemma sample_snapshot_valid: "validate_for_save (snapshot_checkpoint sample_indexed wal) = Inr ()"
proof -
  have "pc_key (sample_chunk [] 0x3F800000) \<noteq> []" by (metis list.size(3) sample_lengths(1) zero_neq_numeral)
  then show ?thesis
    using sample_lengths
    by (simp add: sample_snapshot validate_for_save_def valid_string_def kMaxDocuments_def kMaxChunks_def
        kMaxMetadataEntries_def kMaxVectorDimension_def)
      (simp add: sample_document_def sample_chunk_def valid_string_def kMaxVectorDimension_def)
qed

lemma sample_snapshot_small:
  "length (serialize (checkpoint_container plain_lexical ''M'' (snapshot_checkpoint sample_indexed wal)
     [sample_document [] 0x3F800000])) < 2 ^ 64"
  by (simp add: length_serialize payload_size_def checkpoint_container_def container_put_def container_set_flags_def
      container_new_def sample_snapshot sample_document_def sample_chunk_def stable_chunk_key_def document_content_hash_def
      plain_lexical_def chunk_rows_def documents_section_def chunks_section_def embeddings_section_def
      runtime_section_def wr_document_def wr_metadata_def wr_chunk_def wr_vector_def wr_runtime_document_def
      wr_runtime_chunk_def wr_revision_def wr_str_def)

theorem checkpoint_restart_witness:
  "\<exists>new. open_checkpoint plain_lexical sample_fp sample_ann lost_sidecars view_ok stable_sort ''c'' sample_policy
       (last (fst (backend_checkpoint plain_lexical sample_env lost_sidecars ''c'' 5 sample_indexed (\<lambda>_. None)))) = Inr new \<and>
     map fst (gen_documents (eb_active new)) = [''d''] \<and> eb_checkpoint_wal_position new = 5"
proof -
  obtain ss where reach: "backend_reachable sample_fp sample_ann sample_indexed ss" using sample_reachable by blast
  let ?save = "checkpoint_save plain_lexical sample_env ''c'' (snapshot_checkpoint sample_indexed 5) (\<lambda>_. None)"
  let ?run = "backend_checkpoint plain_lexical sample_env lost_sidecars ''c'' 5 sample_indexed (\<lambda>_. None)"
  have "snd ?save = Inr ()"
    by (simp add: checkpoint_save_def sample_snapshot_valid plain_lexical_meta write_file_result sample_env_ok)
  then obtain states be' where run: "?run = (states, Inr (), be')"
    by (cases ?save) (auto simp: backend_checkpoint_def)
  have maps: "metadata_maps sample_indexed" by (simp add: metadata_maps_def sample_compacted sample_gen_def sample_document_def)
  have lost: "sidecars_ok lost_sidecars ''c''" by (simp add: sidecars_ok_def lost_sidecars_def)
  have vectors: "live_vectors (gen_documents (eb_active sample_indexed)) = [(sample_key, [0x3F800000])]"
    by (simp add: sample_compacted sample_gen_def live_vectors_def sample_fields sample_embedding sample_chunk_key)
  obtain ix where ix: "build_dense_index sample_fp sample_ann (mp_dense sample_policy)
      (live_vectors (gen_documents (eb_active sample_indexed))) = Inr ix"
    unfolding vectors
    by (auto simp: build_dense_index_def resolve_dense_algorithm_def sample_policy_fields sample_exact sample_finite)
  have dump: "s \<noteq> [] \<and> jl_parse (cl_json plain_lexical) s = Some runtime_meta \<and>
       length (serialize (checkpoint_container plain_lexical s (snapshot_checkpoint sample_indexed 5)
         (map (the \<circ> cd_prepared) (cp_documents (snapshot_checkpoint sample_indexed 5))))) < 2 ^ 64"
    if "jl_dump (cl_json plain_lexical) runtime_meta = Some s" for s
  proof -
    have "s = ''M''" using that by (simp add: plain_lexical_meta)
    then show ?thesis using sample_snapshot_small [of 5] by (simp add: plain_lexical_meta sample_snapshot)
  qed
  from checkpoint_restart [OF reach maps run std_sort_examples(1) plain_lexical_roundtrip lost dump ix] obtain new where
    "open_checkpoint plain_lexical sample_fp sample_ann lost_sidecars view_ok stable_sort ''c'' sample_policy (last states) = Inr new"
    "same_rows (eb_active sample_indexed) (eb_active new)" "eb_checkpoint_wal_position new = 5" by blast
  moreover from this(2) have "map fst (gen_documents (eb_active new)) = [''d'']"
    by (simp add: same_rows_def sample_compacted sample_gen_def)
  ultimately show ?thesis by (simp add: run)
qed

end
