(* ===== verification/Tokenizer.thy ===== *)
theory Tokenizer
  imports Rag_Prelude
begin

text \<open>
  \<^verbatim>\<open>rag.cpp/src/text/tokenizer.cpp\<close> and \<^verbatim>\<open>include/rag/text/tokenizer.hpp\<close>: the stop words, the Porter
  stemmer and the tokenizer with its bounded memo of stems. Characters are classified as in the C
  locale. Shown here: the stemmer never empties or lengthens a word, so its accesses stay in
  bounds; tokens are well formed; the memo is bounded and never changes what is returned.
\<close>

subsection \<open>Stop words\<close>

definition kStop :: "string list" where
  "kStop = [
     ''a'', ''about'', ''above'', ''after'', ''again'', ''against'', ''all'', ''am'', ''an'', ''and'',
      ''any'', ''are'', ''aren't'', ''as'', ''at'', ''be'', ''because'', ''been'', ''before'', ''being'',
      ''below'', ''between'', ''both'', ''but'', ''by'', ''can'', ''can't'', ''cannot'', ''could'',
      ''couldn't'', ''did'', ''didn't'', ''do'', ''does'', ''doesn't'', ''doing'', ''don't'', ''down'',
      ''during'', ''each'', ''few'', ''for'', ''from'', ''further'', ''had'', ''hadn't'', ''has'',
      ''hasn't'', ''have'', ''haven't'', ''having'', ''he'', ''he'd'', ''he'll'', ''he's'', ''her'',
      ''here'', ''here's'', ''hers'', ''herself'', ''him'', ''himself'', ''his'', ''how'', ''how's'',
      ''i'', ''i'd'', ''i'll'', ''i'm'', ''i've'', ''if'', ''in'', ''into'', ''is'', ''isn't'', ''it'',
      ''it's'', ''its'', ''itself'', ''let's'', ''me'', ''more'', ''most'', ''mustn't'', ''my'',
      ''myself'', ''no'', ''nor'', ''not'', ''of'', ''off'', ''on'', ''once'', ''only'', ''or'', ''other'',
      ''ought'', ''our'', ''ours'', ''ourselves'', ''out'', ''over'', ''own'', ''same'', ''shan't'',
      ''she'', ''she'd'', ''she'll'', ''she's'', ''should'', ''shouldn't'', ''so'', ''some'', ''such'',
      ''than'', ''that'', ''that's'', ''the'', ''their'', ''theirs'', ''them'', ''themselves'', ''then'',
      ''there'', ''there's'', ''these'', ''they'', ''they'd'', ''they'll'', ''they're'', ''they've'',
      ''this'', ''those'', ''through'', ''to'', ''too'', ''under'', ''until'', ''up'', ''very'', ''was'',
      ''wasn't'', ''we'', ''we'd'', ''we'll'', ''we're'', ''we've'', ''were'', ''weren't'', ''what'',
      ''what's'', ''when'', ''when's'', ''where'', ''where's'', ''which'', ''while'', ''who'', ''who's'',
      ''whom'', ''why'', ''why's'', ''with'', ''won't'', ''would'', ''wouldn't'', ''you'', ''you'd'',
      ''you'll'', ''you're'', ''you've'', ''your'', ''yours'', ''yourself'', ''yourselves'']"

definition is_stopword :: "string \<Rightarrow> bool" where
  "is_stopword w \<longleftrightarrow> w \<in> set kStop"

subsection \<open>The stemmer\<close>

fun is_vowel :: "string \<Rightarrow> nat \<Rightarrow> bool" where
  "is_vowel s 0 \<longleftrightarrow> s ! 0 \<in> set ''aeiou''"
| "is_vowel s (Suc i) \<longleftrightarrow> s ! Suc i \<in> set ''aeiou'' \<or> s ! Suc i = CHR ''y'' \<and> \<not> is_vowel s i"

text \<open>The inner loops of \<^verbatim>\<open>measure\<close>: the first index from \<open>i\<close> on that is past \<open>j\<close> or not \<open>p\<close>.\<close>

function skip_run :: "(nat \<Rightarrow> bool) \<Rightarrow> nat \<Rightarrow> nat \<Rightarrow> nat" where
  "skip_run p i j = (if i > j then i else if p i then skip_run p (i + 1) j else i)"
  by pat_completeness auto
termination
  by (relation "measure (\<lambda>(p, i, j). Suc j - i)") auto

declare skip_run.simps [simp del]

lemma skip_run_ge: "i \<le> skip_run p i j"
proof (induction p i j rule: skip_run.induct)
  case (1 p i j)
  then show ?case using skip_run.simps [of p i j] by fastforce
qed

function measure_loop :: "string \<Rightarrow> nat \<Rightarrow> nat \<Rightarrow> nat \<Rightarrow> nat" where
  "measure_loop s i j m =
     (let i1 = skip_run (is_vowel s) i j in
      if i1 > j then m
      else let i2 = skip_run (\<lambda>k. \<not> is_vowel s k) (i1 + 1) j in
           if i2 > j then m + 1 else measure_loop s (i2 + 1) j (m + 1))"
  by pat_completeness auto
termination
proof (relation "measure (\<lambda>(s, i, j, m). Suc j - i)")
  fix s :: string and i j m i1 i2 :: nat
  assume "i1 = skip_run (is_vowel s) i j" "\<not> j < i1" "i2 = skip_run (\<lambda>k. \<not> is_vowel s k) (i1 + 1) j" "\<not> j < i2"
  then show "((s, i2 + 1, j, m + 1), (s, i, j, m)) \<in> measure (\<lambda>(s, i, j, m). Suc j - i)"
    using skip_run_ge [of i "is_vowel s" j] skip_run_ge [of "i1 + 1" "\<lambda>k. \<not> is_vowel s k" j] by auto
qed simp

declare measure_loop.simps [simp del]

definition porter_measure :: "string \<Rightarrow> nat \<Rightarrow> nat" where
  "porter_measure s j =
     (let i = skip_run (\<lambda>k. \<not> is_vowel s k) 0 j in if i > j then 0 else measure_loop s (i + 1) j 0)"

definition has_vowel :: "string \<Rightarrow> nat \<Rightarrow> bool" where
  "has_vowel s j \<longleftrightarrow> list_ex (is_vowel s) [0..<min (j + 1) (length s)]"

definition double_consonant :: "string \<Rightarrow> nat \<Rightarrow> bool" where
  "double_consonant s j \<longleftrightarrow> j \<ge> 1 \<and> s ! j = s ! (j - 1) \<and> \<not> is_vowel s j"

definition cvc :: "string \<Rightarrow> nat \<Rightarrow> bool" where
  "cvc s i \<longleftrightarrow> i \<ge> 2 \<and> \<not> (is_vowel s i \<or> \<not> is_vowel s (i - 1) \<or> is_vowel s (i - 2))
     \<and> s ! i \<notin> set ''wxy''"

definition ends_with :: "string \<Rightarrow> string \<Rightarrow> bool" where
  "ends_with s suf \<longleftrightarrow> length suf \<le> length s \<and> drop (length s - length suf) s = suf"

definition but_last :: "nat \<Rightarrow> string \<Rightarrow> string" where
  "but_last n s = take (length s - n) s"

definition stem_measure :: "string \<Rightarrow> nat" where
  "stem_measure stem = (if stem = [] then 0 else porter_measure stem (length stem - 1))"

definition replace_suffix :: "string \<Rightarrow> string \<Rightarrow> string \<Rightarrow> (nat \<Rightarrow> bool) \<Rightarrow> string option" where
  "replace_suffix s suf rep pred =
     (if \<not> ends_with s suf then None
      else let stem = but_last (length suf) s in
           if pred (stem_measure stem) then Some (stem @ rep) else None)"

definition step1a :: "string \<Rightarrow> string" where
  "step1a s = (if ends_with s ''sses'' then but_last 2 s
     else if ends_with s ''ies'' then but_last 2 s
     else if ends_with s ''ss'' then s
     else if ends_with s ''s'' then but_last 1 s else s)"

text \<open>The second component is \<^verbatim>\<open>step1b_extra\<close>.\<close>

definition step1b :: "string \<Rightarrow> string \<times> bool" where
  "step1b s =
     (if ends_with s ''eed''
      then (if stem_measure (but_last 3 s) > 0 then (but_last 1 s, False) else (s, False))
      else if ends_with s ''ed''
      then (let stem = but_last 2 s in if has_vowel stem (length stem - 1) \<and> stem \<noteq> [] then (stem, True) else (s, False))
      else if ends_with s ''ing''
      then (let stem = but_last 3 s in if has_vowel stem (length stem - 1) \<and> stem \<noteq> [] then (stem, True) else (s, False))
      else (s, False))"

definition step1b_tidy :: "string \<Rightarrow> string" where
  "step1b_tidy s =
     (if ends_with s ''at'' \<or> ends_with s ''bl'' \<or> ends_with s ''iz'' then s @ ''e''
      else if double_consonant s (length s - 1)
      then (if last s \<notin> set ''lsz'' then but_last 1 s else s)
      else if s \<noteq> [] \<and> porter_measure s (length s - 1) = 1 \<and> cvc s (length s - 1) then s @ ''e''
      else s)"

definition step1c :: "string \<Rightarrow> string" where
  "step1c s = (if ends_with s ''y'' \<and> has_vowel (but_last 1 s) (length (but_last 1 s) - 1)
     then s[length s - 1 := CHR ''i''] else s)"

definition step2_suffixes :: "(string \<times> string) list" where
  "step2_suffixes =
     [(''ational'', ''ate''), (''tional'', ''tion''), (''enci'', ''ence''), (''anci'', ''ance''), (''izer'', ''ize''),
      (''bli'', ''ble''), (''alli'', ''al''), (''entli'', ''ent''), (''eli'', ''e''), (''ousli'', ''ous''),
      (''ization'', ''ize''), (''ation'', ''ate''), (''ator'', ''ate''), (''alism'', ''al''), (''iveness'', ''ive''),
      (''fulness'', ''ful''), (''ousness'', ''ous''), (''aliti'', ''al''), (''iviti'', ''ive''), (''biliti'', ''ble'')]"

definition step3_suffixes :: "(string \<times> string) list" where
  "step3_suffixes =
     [(''icate'', ''ic''), (''ative'', []), (''alize'', ''al''), (''iciti'', ''ic''), (''ical'', ''ic''), (''ful'', []), (''ness'', [])]"

definition step4_suffixes :: "string list" where
  "step4_suffixes =
     [''al'', ''ance'', ''ence'', ''er'', ''ic'', ''able'', ''ible'', ''ant'', ''ement'', ''ment'', ''ent'', ''ou'',
      ''ism'', ''ate'', ''iti'', ''ous'', ''ive'', ''ize'', ''tion'']"

fun replace_first :: "(string \<times> string) list \<Rightarrow> string \<Rightarrow> string" where
  "replace_first [] s = s"
| "replace_first ((suf, rep) # rules) s =
     (case replace_suffix s suf rep (\<lambda>m. m > 0) of Some s' \<Rightarrow> s' | None \<Rightarrow> replace_first rules s)"

fun step4 :: "string list \<Rightarrow> string \<Rightarrow> string" where
  "step4 [] s = s"
| "step4 (suf # sufs) s =
     (if \<not> ends_with s suf then step4 sufs s
      else let stem = but_last (length suf) s in
           if stem = [] then s
           else if suf = ''tion'' then (if stem_measure stem > 1 then stem @ ''t'' else s)
           else if stem_measure stem > 1 then stem else s)"

definition step5a :: "string \<Rightarrow> string" where
  "step5a s =
     (if ends_with s ''e''
      then let stem = but_last 1 s in
           if stem \<noteq> [] \<and> (stem_measure stem > 1 \<or> stem_measure stem = 1 \<and> \<not> cvc stem (length stem - 1))
           then stem else s
      else s)"

definition step5b :: "string \<Rightarrow> string" where
  "step5b s =
     (if porter_measure s (length s - 1) > 1 \<and> double_consonant s (length s - 1) \<and> ends_with s ''l''
      then but_last 1 s else s)"

definition porter_stem :: "string \<Rightarrow> string" where
  "porter_stem word =
     (if length word \<le> 2 then word
      else let (s, extra) = step1b (step1a word);
               s = (if extra then step1b_tidy s else s);
               s = step1c s;
               s = replace_first step2_suffixes s;
               s = replace_first step3_suffixes s;
               s = step4 step4_suffixes s;
               s = step5a s
           in step5b s)"

subsection \<open>The memo\<close>

type_synonym stem_cache = "(string \<times> string) list"   \<comment> \<open>one entry a word\<close>

definition kMaxEntries :: nat where "kMaxEntries = 65536"

definition stem_cached :: "string \<Rightarrow> stem_cache \<Rightarrow> string \<times> stem_cache" where
  "stem_cached word cache =
     (case map_of cache word of
        Some s \<Rightarrow> (s, cache)
      | None \<Rightarrow> let cache = (if length cache \<ge> kMaxEntries then [] else cache)
                in (porter_stem word, (word, porter_stem word) # cache))"

subsection \<open>Tokens\<close>

record tokenize_options =
  to_lowercase :: bool
  to_drop_stopwords :: bool
  to_stem :: bool
  to_min_len :: nat
  to_max_len :: nat

definition default_tokenize :: tokenize_options where
  "default_tokenize = \<lparr>to_lowercase = True, to_drop_stopwords = True, to_stem = True, to_min_len = 2, to_max_len = 40\<rparr>"

definition is_upper :: "char \<Rightarrow> bool" where
  "is_upper ch \<longleftrightarrow> 65 \<le> (of_char ch :: nat) \<and> (of_char ch :: nat) \<le> 90"

definition is_alnum :: "char \<Rightarrow> bool" where
  "is_alnum ch \<longleftrightarrow> is_upper ch \<or> 97 \<le> (of_char ch :: nat) \<and> (of_char ch :: nat) \<le> 122
     \<or> 48 \<le> (of_char ch :: nat) \<and> (of_char ch :: nat) \<le> 57"

definition to_lower :: "char \<Rightarrow> char" where
  "to_lower ch = (if is_upper ch then char_of (of_char ch + 32 :: nat) else ch)"

definition apostrophe :: char where "apostrophe = char_of (39 :: nat)"

definition flush :: "tokenize_options \<Rightarrow> string \<Rightarrow> string list \<times> stem_cache \<Rightarrow> string list \<times> stem_cache" where
  "flush opts cur = (\<lambda>(out, cache).
     if cur = [] then (out, cache)
     else if length cur \<le> to_max_len opts \<and> \<not> (to_drop_stopwords opts \<and> is_stopword cur)
     then (if to_stem opts
           then let (tok, cache) = stem_cached cur cache
                in (if length tok \<ge> to_min_len opts then out @ [tok] else out, cache)
           else (if length cur \<ge> to_min_len opts then out @ [cur] else out, cache))
     else (out, cache))"

fun tokenize_loop ::
    "tokenize_options \<Rightarrow> string \<Rightarrow> string \<Rightarrow> string list \<times> stem_cache \<Rightarrow> string list \<times> stem_cache" where
  "tokenize_loop opts [] cur st = flush opts cur st"
| "tokenize_loop opts (ch # text) cur st =
     (if is_alnum ch then tokenize_loop opts text (cur @ [if to_lowercase opts then to_lower ch else ch]) st
      else if ch = apostrophe \<and> cur \<noteq> [] then tokenize_loop opts text cur st
      else tokenize_loop opts text [] (flush opts cur st))"

definition tokenize :: "tokenize_options \<Rightarrow> string \<Rightarrow> stem_cache \<Rightarrow> string list \<times> stem_cache" where
  "tokenize opts text cache = tokenize_loop opts text [] ([], cache)"

subsection \<open>The stemmer keeps words non-empty and no longer\<close>

definition letters :: string where
  "letters = ''abcdefghijklmnopqrstuvwxyz''"

definition shrinks :: "string \<Rightarrow> string \<Rightarrow> bool" where
  "shrinks s r \<longleftrightarrow> r \<noteq> [] \<and> length r \<le> length s \<and> set r \<subseteq> set s \<union> set letters"

lemma shrinks_refl: "s \<noteq> [] \<Longrightarrow> shrinks s s"
  by (simp add: shrinks_def)

lemma shrinks_trans: "shrinks s r \<Longrightarrow> shrinks r q \<Longrightarrow> shrinks s q"
  by (auto simp: shrinks_def)

lemma length_but_last [simp]: "length (but_last n s) = length s - n"
  by (simp add: but_last_def)

lemma set_but_last: "set (but_last n s) \<subseteq> set s"
  by (simp add: but_last_def set_take_subset)

lemma shrinks_but_last: "n < length s \<Longrightarrow> shrinks s (but_last n s)"
  using set_but_last [of n s] by (auto simp: shrinks_def but_last_def)

lemma shrinks_replace:
  assumes "but_last n s \<noteq> []" and "n \<le> length s" and "length rep \<le> n" and "set rep \<subseteq> set letters"
  shows "shrinks s (but_last n s @ rep)"
  using assms set_but_last [of n s] by (auto simp: shrinks_def)

lemma ends_with_length: "ends_with s suf \<Longrightarrow> length suf \<le> length s"
  by (simp add: ends_with_def)

lemma step1a_shrinks: "2 < length s \<Longrightarrow> shrinks s (step1a s)"
  by (auto simp: step1a_def intro!: shrinks_but_last intro: shrinks_refl)

lemma stem_measure_Nil [simp]: "stem_measure [] = 0"
  by (simp add: stem_measure_def)

lemma step1b_shrinks:
  assumes "step1b s = (r, extra)" and "s \<noteq> []"
  shows "shrinks s r \<and> (extra \<longrightarrow> length r + 2 \<le> length s)"
proof -
  have "but_last 3 s \<noteq> [] \<Longrightarrow> 3 < length s" by (auto simp: but_last_def)
  moreover have "but_last 2 s \<noteq> [] \<Longrightarrow> 2 < length s" by (auto simp: but_last_def)
  moreover have "0 < stem_measure (but_last 3 s) \<Longrightarrow> but_last 3 s \<noteq> []" by auto
  ultimately show ?thesis
    using assms by (auto simp: step1b_def Let_def shrinks_refl intro!: shrinks_but_last dest: ends_with_length split: if_splits)
qed

lemma step1b_tidy_grows: "r \<noteq> [] \<Longrightarrow> step1b_tidy r \<noteq> [] \<and> length (step1b_tidy r) \<le> Suc (length r) \<and>
    set (step1b_tidy r) \<subseteq> set r \<union> set letters"
  using set_but_last [of 1 r]
  by (auto simp: step1b_tidy_def double_consonant_def letters_def but_last_def)

lemma step1c_shrinks: "s \<noteq> [] \<Longrightarrow> shrinks s (step1c s)"
proof -
  assume "s \<noteq> []"
  have "set (s[length s - 1 := CHR ''i'']) \<subseteq> set s \<union> set letters"
    by (rule subset_trans [OF set_update_subset_insert]) (auto simp: letters_def)
  with \<open>s \<noteq> []\<close> show ?thesis by (simp add: step1c_def shrinks_def)
qed

definition rule_ok :: "string \<times> string \<Rightarrow> bool" where
  "rule_ok = (\<lambda>(suf, rep). length rep \<le> length suf \<and> set rep \<subseteq> set letters)"

lemma replace_first_shrinks:
  "list_all rule_ok rules \<Longrightarrow> s \<noteq> [] \<Longrightarrow> shrinks s (replace_first rules s)"
proof (induction rules s rule: replace_first.induct)
  case (2 suf rep rules s)
  show ?case
  proof (cases "replace_suffix s suf rep (\<lambda>m. m > 0)")
    case None
    with 2 show ?thesis by simp
  next
    case (Some r)
    then have r: "r = but_last (length suf) s @ rep" "but_last (length suf) s \<noteq> []" "length suf \<le> length s"
      by (auto simp: replace_suffix_def Let_def ends_with_length split: if_splits)
    with 2 Some shrinks_replace [OF r(2,3)] show ?thesis by (simp add: rule_ok_def)
  qed
qed (simp add: shrinks_refl)

lemma step4_shrinks: "s \<noteq> [] \<Longrightarrow> shrinks s (step4 sufs s)"
proof (induction sufs s rule: step4.induct)
  case (2 suf sufs s)
  have t: "shrinks s (but_last (length ''tion'') s @ ''t'')" if "but_last (length ''tion'') s \<noteq> []" "ends_with s ''tion''"
    using that ends_with_length [OF that(2)] by (intro shrinks_replace) (auto simp: letters_def)
  have stem: "shrinks s (but_last (length suf) s)" if "but_last (length suf) s \<noteq> []"
    using that by (intro shrinks_but_last) (auto simp: but_last_def)
  show ?case
  proof (cases "suf = ''tion''")
    case True
    with 2 t show ?thesis by (simp add: Let_def shrinks_refl)
  next
    case False
    with 2 stem show ?thesis by (simp add: Let_def shrinks_refl)
  qed
qed (simp add: shrinks_refl)

lemma step5_shrinks: "s \<noteq> [] \<Longrightarrow> shrinks s (step5a s)" "s \<noteq> [] \<Longrightarrow> shrinks s (step5b s)"
proof -
  have "but_last 1 s \<noteq> [] \<Longrightarrow> shrinks s (but_last 1 s)"
    by (intro shrinks_but_last) (auto simp: but_last_def)
  then show "s \<noteq> [] \<Longrightarrow> shrinks s (step5a s)" by (auto simp: step5a_def Let_def shrinks_refl)
  show "s \<noteq> [] \<Longrightarrow> shrinks s (step5b s)"
    by (auto simp: step5b_def double_consonant_def shrinks_refl intro!: shrinks_but_last)
qed

lemma rules_ok: "list_all rule_ok step2_suffixes" "list_all rule_ok step3_suffixes"
  by (simp_all add: step2_suffixes_def step3_suffixes_def rule_ok_def letters_def)

lemma porter_stem_shrinks:
  assumes "word \<noteq> []"
  shows "shrinks word (porter_stem word)"
proof (cases "length word \<le> 2")
  case True
  with assms show ?thesis by (simp add: porter_stem_def shrinks_refl)
next
  case False
  obtain s extra where s: "step1b (step1a word) = (s, extra)" by force
  have a: "shrinks word (step1a word)" using False by (simp add: step1a_shrinks)
  then have "step1a word \<noteq> []" by (simp add: shrinks_def)
  note b = step1b_shrinks [OF s this]
  have nonempty: "s \<noteq> []" using b by (simp add: shrinks_def)
  have tidy: "shrinks word (if extra then step1b_tidy s else s)"
    using shrinks_trans [OF a] b step1b_tidy_grows [OF nonempty] a by (fastforce simp: shrinks_def)
  define s1 where "s1 = (if extra then step1b_tidy s else s)"
  have "shrinks word s1" using tidy by (simp add: s1_def)
  note steps = step1c_shrinks replace_first_shrinks [OF rules_ok(1)] replace_first_shrinks [OF rules_ok(2)]
    step4_shrinks [where sufs = step4_suffixes] step5_shrinks
  have chain: "shrinks word r \<Longrightarrow> shrinks word (f r)" if "\<And>r. r \<noteq> [] \<Longrightarrow> shrinks r (f r)" for f r
    using that shrinks_trans by (metis shrinks_def)
  have "shrinks word (step5b (step5a (step4 step4_suffixes (replace_first step3_suffixes
      (replace_first step2_suffixes (step1c s1))))))"
    by (intro chain [OF steps(6)] chain [OF steps(5)] chain [OF steps(4)] chain [OF steps(3)] chain [OF steps(2)]
        chain [OF steps(1)] \<open>shrinks word s1\<close>)
  with False s show ?thesis by (simp add: porter_stem_def s1_def Let_def)
qed

subsection \<open>Tokens\<close>

text \<open>The reference: the words of a text, each with what it contributes.\<close>

fun words_from :: "tokenize_options \<Rightarrow> string \<Rightarrow> string \<Rightarrow> string list" where
  "words_from opts [] cur = [cur]"
| "words_from opts (ch # text) cur =
     (if is_alnum ch then words_from opts text (cur @ [if to_lowercase opts then to_lower ch else ch])
      else if ch = apostrophe \<and> cur \<noteq> [] then words_from opts text cur
      else cur # words_from opts text [])"

definition kept :: "tokenize_options \<Rightarrow> string \<Rightarrow> bool" where
  "kept opts w \<longleftrightarrow> w \<noteq> [] \<and> length w \<le> to_max_len opts \<and> \<not> (to_drop_stopwords opts \<and> is_stopword w)"

definition tokens :: "tokenize_options \<Rightarrow> string \<Rightarrow> string list" where
  "tokens opts text = filter (\<lambda>t. to_min_len opts \<le> length t)
     (map (if to_stem opts then porter_stem else id) (filter (kept opts) (words_from opts text [])))"

definition cache_ok :: "stem_cache \<Rightarrow> bool" where
  "cache_ok cache \<longleftrightarrow> length cache \<le> kMaxEntries \<and> (\<forall>(w, s) \<in> set cache. s = porter_stem w)"

lemma stem_cached_pure:
  assumes "cache_ok cache"
  shows "fst (stem_cached w cache) = porter_stem w" and "cache_ok (snd (stem_cached w cache))"
  using assms
  by (auto simp: stem_cached_def cache_ok_def Let_def kMaxEntries_def split: option.split dest!: map_of_SomeD)

definition contribution :: "tokenize_options \<Rightarrow> string \<Rightarrow> string list" where
  "contribution opts w = (if kept opts w
     then (let t = (if to_stem opts then porter_stem w else w) in if to_min_len opts \<le> length t then [t] else [])
     else [])"

lemma flush_pure:
  assumes "cache_ok cache"
  shows "\<exists>c. flush opts cur (out, cache) = (out @ contribution opts cur, c) \<and> cache_ok c"
  using assms stem_cached_pure [OF assms, of cur]
  by (auto simp: flush_def contribution_def kept_def Let_def split: prod.split)

lemma tokenize_loop_pure:
  "cache_ok cache \<Longrightarrow> \<exists>c. tokenize_loop opts body cur (out, cache) =
     (out @ concat (map (contribution opts) (words_from opts body cur)), c) \<and> cache_ok c"
proof (induction body arbitrary: cur out cache)
  case Nil
  then show ?case using flush_pure by simp
next
  case (Cons ch body)
  obtain c where "flush opts cur (out, cache) = (out @ contribution opts cur, c)" "cache_ok c"
    using flush_pure [OF Cons.prems] by blast
  with Cons.IH [of c "[]" "out @ contribution opts cur"] Cons show ?case by simp
qed

lemma tokens_contributions: "tokens opts text = concat (map (contribution opts) (words_from opts text []))"
proof -
  have "filter (\<lambda>t. to_min_len opts \<le> length t) (map (if to_stem opts then porter_stem else id) (filter (kept opts) ws)) =
      concat (map (contribution opts) ws)" for ws
    by (induction ws) (simp_all add: contribution_def Let_def)
  then show ?thesis by (simp add: tokens_def)
qed

lemma tokenize_pure:
  assumes "cache_ok cache"
  shows "fst (tokenize opts body cache) = tokens opts body" and "cache_ok (snd (tokenize opts body cache))"
  using tokenize_loop_pure [OF assms, of opts body "[]" "[]"]
  by (auto simp: tokenize_def tokens_contributions)

text \<open>
  C40: memoising the stems changes nothing and stays bounded: from any cache that earlier calls left,
  tokenizing a text gives the tokens of the plain pipeline (split, drop, stem, drop), and the cache
  stays within its limit.\<close>
theorem tokenize_memo_irrelevant:
  assumes "cache_ok cache"
  shows "fst (tokenize opts body cache) = tokens opts body \<and> cache_ok (snd (tokenize opts body cache))"
  using tokenize_pure [OF assms] by simp

definition token_char :: "tokenize_options \<Rightarrow> char \<Rightarrow> bool" where
  "token_char opts ch \<longleftrightarrow> is_alnum ch \<and> (to_lowercase opts \<longrightarrow> \<not> is_upper ch)"

lemma char_codes: "of_char (char_of n :: char) = n mod 256"
  by simp

lemma token_char_lower: "is_alnum ch \<Longrightarrow> token_char opts (if to_lowercase opts then to_lower ch else ch)"
  by (auto simp: token_char_def is_alnum_def is_upper_def to_lower_def)

lemma token_char_letters: "list_all (token_char opts) letters"
  by (simp add: letters_def token_char_def is_alnum_def is_upper_def)

lemma words_from_chars: "list_all (token_char opts) cur \<Longrightarrow> w \<in> set (words_from opts body cur) \<Longrightarrow> list_all (token_char opts) w"
proof (induction body arbitrary: cur)
  case (Cons ch body)
  let ?c = "if to_lowercase opts then to_lower ch else ch"
  consider "is_alnum ch" "w \<in> set (words_from opts body (cur @ [?c]))" | "w \<in> set (words_from opts body cur)" | "w = cur"
    | "w \<in> set (words_from opts body [])"
    using Cons.prems(2) by (simp only: words_from.simps split: if_splits) auto
  then show ?case
  proof cases
    case 1
    from Cons.IH [OF _ 1(2)] show ?thesis using Cons.prems(1) token_char_lower [OF 1(1)] by simp
  next
    case 4
    from Cons.IH [OF _ 4] show ?thesis by simp
  qed (use Cons in blast)+
qed simp

text \<open>
  C39: every token is well formed: not empty, within the length limits, and made of ASCII letters and
  digits only, lower-cased when that is asked for; stemming keeps it so, because it never empties or
  lengthens a word.\<close>
theorem tokens_wellformed:
  assumes "cache_ok cache" and "t \<in> set (fst (tokenize opts body cache))"
  shows "t \<noteq> [] \<and> to_min_len opts \<le> length t \<and> length t \<le> to_max_len opts \<and> list_all (token_char opts) t"
proof -
  have "t \<in> set (concat (map (contribution opts) (words_from opts body [])))"
    using tokenize_loop_pure [OF assms(1), of opts body "[]" "[]"] assms(2) by (auto simp: tokenize_def)
  then obtain w where w: "w \<in> set (words_from opts body [])" "t \<in> set (contribution opts w)" by auto
  have t: "kept opts w" "t = (if to_stem opts then porter_stem w else w)" "to_min_len opts \<le> length t"
    using w(2) by (auto simp: contribution_def Let_def split: if_splits)
  have chars: "list_all (token_char opts) w" using words_from_chars [OF _ w(1)] by simp
  have sh: "shrinks w t" using t(1,2) porter_stem_shrinks [of w] by (auto simp: kept_def shrinks_refl)
  have "list_all (token_char opts) t"
    using sh chars token_char_letters [of opts] by (auto simp: shrinks_def list_all_iff)
  with sh t(1,3) show ?thesis by (auto simp: shrinks_def kept_def)
qed

lemma apostrophe_no_token: "\<not> token_char opts apostrophe"
  by (simp add: token_char_def is_alnum_def is_upper_def apostrophe_def)

text \<open>The contractions of the stop list contain an apostrophe, which no word keeps: they never match.\<close>

lemma contractions_never_match:
  assumes "w \<in> set (words_from opts body [])" and "apostrophe \<in> set s"
  shows "w \<noteq> s"
  using words_from_chars [OF _ assms(1)] assms(2) apostrophe_no_token by (auto simp: list_all_iff)

lemma ducks_words: "words_from default_tokenize ''Ducks sing'' [] = [''ducks'', ''sing'']" by code_simp
lemma ducks_stem: "porter_stem ''ducks'' = ''duck''" by code_simp
lemma sing_stem: "porter_stem ''sing'' = ''sing''" by code_simp
lemma ducks_content: "is_stopword ''ducks'' = False" by code_simp
lemma sing_content: "is_stopword ''sing'' = False" by code_simp

lemma ducks_tokens: "tokens default_tokenize ''Ducks sing'' = [''duck'', ''sing'']"
  unfolding tokens_def ducks_words
  by (simp add: kept_def default_tokenize_def ducks_content sing_content ducks_stem sing_stem)

lemma ducks_cache: "cache_ok [(''ducks'', ''duck'')]"
  by (simp add: cache_ok_def ducks_stem kMaxEntries_def)

theorem tokenize_memo_irrelevant_witness:
  "fst (tokenize default_tokenize ''Ducks sing'' [(''ducks'', ''duck'')]) = [''duck'', ''sing'']"
proof -
  have "fst (tokenize default_tokenize ''Ducks sing'' [(''ducks'', ''duck'')]) = tokens default_tokenize ''Ducks sing''"
    by (rule conjunct1 [OF tokenize_memo_irrelevant [OF ducks_cache]])
  with ducks_tokens show ?thesis by (simp only:)
qed

theorem tokens_wellformed_witness:
  "length ''duck'' \<le> to_max_len default_tokenize \<and> list_all (token_char default_tokenize) ''duck''"
proof -
  have "''duck'' \<in> set (fst (tokenize default_tokenize ''Ducks sing'' [(''ducks'', ''duck'')]))"
    unfolding tokenize_pure(1) [OF ducks_cache] ducks_tokens by simp
  from tokens_wellformed [OF ducks_cache this] show ?thesis by simp
qed

end
