(* ===== verification/Retrieval.thy ===== *)
theory Retrieval
  imports Embedded_Contract Tokenizer
begin

text \<open>
  \<^verbatim>\<open>rag.cpp/src/retrieval/runtime.cpp\<close> and the default of \<^verbatim>\<open>candidate_backend.cpp\<close>: candidate fusion,
  feature reranking, maximal marginal relevance, stitching and resolution over any backend. The
  float arithmetic is a parameter; comparisons are those of the bit patterns, and the sorts order
  number scores, as their comparators do. Shown here: the results are distinct resolved passages of the
  backend, at most as many as asked for, and on the embedded backend each is a live passage of the
  newest revision of its document.
\<close>

subsection \<open>The backend as its readers see it\<close>

record candidate_source =
  cs_lexical :: "lexical_request \<Rightarrow> candidate list result"
  cs_dense :: "dense_request \<Rightarrow> candidate list result"
  cs_hybrid :: "lexical_request \<Rightarrow> dense_request \<Rightarrow> (candidate list \<times> candidate list) result"
  cs_fetch :: "chunk_key list \<Rightarrow> fetch_options \<Rightarrow> stored_chunk list result"

definition hybrid_default ::
    "(lexical_request \<Rightarrow> candidate list result) \<Rightarrow> (dense_request \<Rightarrow> candidate list result)
       \<Rightarrow> lexical_request \<Rightarrow> dense_request \<Rightarrow> (candidate list \<times> candidate list) result" where
  "hybrid_default lexical dense lrequest drequest =
     (let d = dense drequest in
      and_then (lexical lrequest) (\<lambda>l. and_then d (\<lambda>d. Inr (l, d))))"

definition embedded_source :: "fp \<Rightarrow> ann \<Rightarrow> lex_search \<Rightarrow> embedded_backend \<Rightarrow> candidate_source" where
  "embedded_source F A lx be =
     \<lparr>cs_lexical = (\<lambda>r. lexical_candidates lx r be), cs_dense = (\<lambda>r. dense_candidates F A r be),
      cs_hybrid = hybrid_default (\<lambda>r. lexical_candidates lx r be) (\<lambda>r. dense_candidates F A r be),
      cs_fetch = (\<lambda>keys options. fetch keys options be)\<rparr>"

subsection \<open>Float arithmetic\<close>

record score_ops =
  so_add :: "f32 \<Rightarrow> f32 \<Rightarrow> f32"
  so_sub :: "f32 \<Rightarrow> f32 \<Rightarrow> f32"
  so_mul :: "f32 \<Rightarrow> f32 \<Rightarrow> f32"
  so_div :: "f32 \<Rightarrow> f32 \<Rightarrow> f32"
  so_of_size :: "u64 \<Rightarrow> f32"

definition f32_one :: f32 where "f32_one = 0x3F800000"
definition f32_neg_inf :: f32 where "f32_neg_inf = 0xFF800000"
definition f32_epsilon :: f32 where "f32_epsilon = 0x3089705F"        \<comment> \<open>\<open>1.0e-9F\<close>\<close>
definition f32_base_share :: f32 where "f32_base_share = 0x3F19999A"  \<comment> \<open>\<open>0.6F\<close>\<close>
definition f32_term_share :: f32 where "f32_term_share = 0x3ECCCCCD"  \<comment> \<open>\<open>0.4F\<close>\<close>

definition f32_min :: "f32 \<Rightarrow> f32 \<Rightarrow> f32" where "f32_min a b = (if f32_less b a then b else a)"
definition f32_max :: "f32 \<Rightarrow> f32 \<Rightarrow> f32" where "f32_max a b = (if f32_less a b then b else a)"

definition f32_clamp :: "f32 \<Rightarrow> f32 \<Rightarrow> f32 \<Rightarrow> f32" where
  "f32_clamp v lo hi = (if f32_less v lo then lo else if f32_less hi v then hi else v)"

record runtime_config =
  rc_bm25_weight :: f32
  rc_dense_weight :: f32
  rc_mmr_lambda :: f32
  rc_rrf_rank_constant :: u64
  rc_adjacent_line_gap :: u64

subsection \<open>Fusion and reranking\<close>

definition rrf_add ::
    "score_ops \<Rightarrow> f32 \<Rightarrow> u64 \<Rightarrow> nat \<times> candidate \<Rightarrow> (chunk_key \<times> f32) list \<Rightarrow> (chunk_key \<times> f32) list" where
  "rrf_add O1 weight constant = (\<lambda>(rank, c) scores.
     omap_put (cand_chunk c)
       (so_add O1 (case map_of scores (cand_chunk c) of None \<Rightarrow> 0 | Some s \<Rightarrow> s)
          (so_div O1 weight (so_of_size O1 (constant + of_nat rank + 1)))) scores)"

definition rrf ::
    "score_ops \<Rightarrow> candidate list \<Rightarrow> candidate list \<Rightarrow> runtime_config \<Rightarrow> nat \<Rightarrow> candidate list" where
  "rrf O1 lexical dense config limit =
     (let scores = fold (rrf_add O1 (rc_bm25_weight config) (rc_rrf_rank_constant config)) (enumerate 0 lexical) [];
          scores = fold (rrf_add O1 (rc_dense_weight config) (rc_rrf_rank_constant config)) (enumerate 0 dense) scores;
          output = map (\<lambda>(key, score). \<lparr>cand_chunk = key, cand_raw_score = score, cand_score_type = Score_cosine\<rparr>) scores
      in take limit (sort_key cand_key output))"

type_synonym resolved = "(chunk_key \<times> stored_chunk) list"   \<comment> \<open>the hash map of fetched chunks\<close>

definition score_range :: "candidate list \<Rightarrow> f32 \<times> f32" where
  "score_range candidates =
     (let first = cand_raw_score (hd candidates) in
      (fold (\<lambda>c low. f32_min low (cand_raw_score c)) candidates first,
       fold (\<lambda>c high. f32_max high (cand_raw_score c)) candidates first))"

definition rescored :: "score_ops \<Rightarrow> resolved \<Rightarrow> string list \<Rightarrow> f32 \<Rightarrow> f32 \<Rightarrow> candidate \<Rightarrow> candidate" where
  "rescored O1 chunks terms low spread c =
     (case map_of chunks (cand_chunk c) of
        None \<Rightarrow> c
      | Some found \<Rightarrow>
          let present = tokens default_tokenize (sc_context found @ [LF] @ sc_text found);
              covered = length (filter (\<lambda>t. t \<in> set present) terms);
              coverage = so_div O1 (so_of_size O1 (of_nat covered)) (so_of_size O1 (of_nat (length terms)));
              base = (if f32_less f32_epsilon spread
                      then so_div O1 (so_sub O1 (cand_raw_score c) low) spread else f32_one)
          in c\<lparr>cand_raw_score := so_add O1 (so_mul O1 f32_base_share base) (so_mul O1 f32_term_share coverage)\<rparr>)"

definition feature_rerank :: "score_ops \<Rightarrow> string \<Rightarrow> candidate list \<Rightarrow> resolved \<Rightarrow> candidate list" where
  "feature_rerank O1 query candidates chunks =
     (let terms = remdups_adj (sort (tokens default_tokenize query)) in
      if terms = [] \<or> candidates = [] then candidates
      else let (low, high) = score_range candidates
           in sort_key cand_key (map (rescored O1 chunks terms low (so_sub O1 high low)) candidates))"

definition chunk_at :: "resolved \<Rightarrow> candidate \<Rightarrow> stored_chunk" where
  "chunk_at chunks c = the (map_of chunks (cand_chunk c))"

definition similarity :: "score_ops \<Rightarrow> fp \<Rightarrow> stored_chunk \<Rightarrow> stored_chunk \<Rightarrow> f32" where
  "similarity O1 F a b =
     (if sc_embedding a \<noteq> [] \<and> length (sc_embedding a) = length (sc_embedding b)
      then fp_dot F (sc_embedding a) (sc_embedding b)
      else
        let x = remdups (tokens default_tokenize (sc_text a));
            y = remdups (tokens default_tokenize (sc_text b));
            intersection = length (filter (\<lambda>t. t \<in> set y) x);
            union_size = length x + length y - intersection
        in if union_size = 0 then 0
           else so_div O1 (so_of_size O1 (of_nat intersection)) (so_of_size O1 (of_nat union_size)))"

text \<open>One round of the greedy choice: the best unused index, the number of candidates for none.\<close>

definition mmr_best ::
    "score_ops \<Rightarrow> fp \<Rightarrow> resolved \<Rightarrow> candidate list \<Rightarrow> f32 \<Rightarrow> f32 \<Rightarrow> f32 \<Rightarrow> nat list \<Rightarrow> nat" where
  "mmr_best O1 F chunks candidates lambda low spread selected =
     fst (fold (\<lambda>index (best, best_score).
       if index \<in> set selected then (best, best_score)
       else
         let redundancy = fold (\<lambda>chosen r. f32_max r (similarity O1 F (chunk_at chunks (candidates ! index))
                                    (chunk_at chunks (candidates ! chosen)))) selected 0;
             relevance = so_div O1 (so_sub O1 (cand_raw_score (candidates ! index)) low) spread;
             score = so_sub O1 (so_mul O1 lambda relevance) (so_mul O1 (so_sub O1 f32_one lambda) redundancy)
         in if f32_less best_score score then (index, score) else (best, best_score))
       [0..<length candidates] (length candidates, f32_neg_inf))"

function mmr_select ::
    "score_ops \<Rightarrow> fp \<Rightarrow> resolved \<Rightarrow> candidate list \<Rightarrow> f32 \<Rightarrow> f32 \<Rightarrow> f32 \<Rightarrow> nat \<Rightarrow> nat list \<Rightarrow> nat list" where
  "mmr_select O1 F chunks candidates lambda low spread k selected =
     (if length selected < k
      then let best = mmr_best O1 F chunks candidates lambda low spread selected in
           if best = length candidates then selected
           else mmr_select O1 F chunks candidates lambda low spread k (selected @ [best])
      else selected)"
  by pat_completeness auto
termination
  by (relation "measure (\<lambda>(O1, F, chunks, candidates, lambda, low, spread, k, selected). k - length selected)") auto

declare mmr_select.simps [simp del]

definition mmr ::
    "score_ops \<Rightarrow> fp \<Rightarrow> candidate list \<Rightarrow> resolved \<Rightarrow> nat \<Rightarrow> f32 \<Rightarrow> candidate list" where
  "mmr O1 F candidates chunks k lambda =
     (if candidates = [] then []
      else
        let lambda = f32_clamp lambda 0 f32_one;
            k = min k (length candidates);
            (low, high) = score_range candidates;
            spread = (if f32_less f32_epsilon (so_sub O1 high low) then so_sub O1 high low else f32_one)
        in map (\<lambda>i. candidates ! i) (mmr_select O1 F chunks candidates lambda low spread k []))"

definition line_gap :: "stored_chunk \<Rightarrow> stored_chunk \<Rightarrow> u32" where
  "line_gap a b =
     (if sc_start_line b > sc_end_line a then sc_start_line b - sc_end_line a
      else if sc_start_line a > sc_end_line b then sc_start_line a - sc_end_line b else 0)"

definition adjoins :: "u64 \<Rightarrow> stored_chunk \<Rightarrow> stored_chunk \<Rightarrow> bool" where
  "adjoins max_gap a b \<longleftrightarrow>
     sc_document a = sc_document b \<and> sc_revision a = sc_revision b \<and> unat (line_gap a b) \<le> unat max_gap"

text \<open>The candidates still kept, from one \<open>left\<close> to the next: dropped ones are gone from the rest.\<close>

function stitch :: "candidate list \<Rightarrow> resolved \<Rightarrow> u64 \<Rightarrow> candidate list" where
  "stitch [] chunks max_gap = []"
| "stitch (left # rest) chunks max_gap =
     left # stitch (filter (\<lambda>right. \<not> adjoins max_gap (chunk_at chunks left) (chunk_at chunks right)) rest) chunks max_gap"
  by pat_completeness auto
termination
  by (relation "measure (\<lambda>(cs, chunks, max_gap). length cs)") (auto simp: le_imp_less_Suc)

subsection \<open>Search\<close>

record search_result =
  res_chunk_key :: string
  res_document_key :: string
  res_revision :: u64
  res_score :: f32
  res_text :: string
  res_context :: string
  res_uri :: string
  res_title :: string
  res_metadata :: metadata
  res_start_line :: u32
  res_end_line :: u32

definition result_of :: "candidate \<Rightarrow> stored_chunk \<Rightarrow> search_result" where
  "result_of c chunk =
     \<lparr>res_chunk_key = sc_key chunk, res_document_key = sc_document chunk, res_revision = sc_revision chunk,
      res_score = cand_raw_score c, res_text = sc_text chunk, res_context = sc_context chunk,
      res_uri = sc_document chunk, res_title = sc_title chunk, res_metadata = sc_metadata chunk,
      res_start_line = sc_start_line chunk, res_end_line = sc_end_line chunk\<rparr>"

definition find_candidates ::
    "score_ops \<Rightarrow> candidate_source \<Rightarrow> search_request \<Rightarrow> runtime_config \<Rightarrow> nat \<Rightarrow> candidate list result" where
  "find_candidates O1 backend request config pool =
     (let lrequest = \<lparr>lreq_query = sreq_query request, lreq_k = pool, lreq_filter = sreq_filter request\<rparr>;
          drequest = (\<lambda>v. \<lparr>dreq_query = v, dreq_k = pool, dreq_filter = sreq_filter request\<rparr>)
      in case (sreq_mode request, sreq_embedding request) of
           (Mode_lexical, _) \<Rightarrow> cs_lexical backend lrequest
         | (_, None) \<Rightarrow> fail Errc_invalid_argument ''dense retrieval requires a query embedding''
         | (Mode_hybrid, Some v) \<Rightarrow>
             and_then (cs_hybrid backend lrequest (drequest v)) (\<lambda>(lexical, dense). Inr (rrf O1 lexical dense config pool))
         | (Mode_dense, Some v) \<Rightarrow> cs_dense backend (drequest v))"

definition arrange ::
    "score_ops \<Rightarrow> fp \<Rightarrow> search_request \<Rightarrow> runtime_config \<Rightarrow> candidate list \<Rightarrow> resolved \<Rightarrow> candidate list" where
  "arrange O1 F request config candidates chunks =
     (let k = unat (sreq_top_k request);
          candidates = feature_rerank O1 (sreq_query request) candidates chunks;
          candidates = (if sreq_profile request = ''quality''
                        then stitch (mmr O1 F candidates chunks k (rc_mmr_lambda config)) chunks (rc_adjacent_line_gap config)
                        else candidates)
      in take k candidates)"

definition search ::
    "score_ops \<Rightarrow> fp \<Rightarrow> candidate_source \<Rightarrow> search_request \<Rightarrow> runtime_config \<Rightarrow> search_result list result" where
  "search O1 F backend request config =
     (if sreq_query request = [] \<or> sreq_top_k request = 0
      then fail Errc_invalid_argument ''query and non-zero top-k are required''
      else and_then (find_candidates O1 backend request config
                       (unat (max (sreq_top_k request) (sreq_candidate_pool request)))) (\<lambda>candidates.
        and_then (cs_fetch backend (map cand_chunk candidates)
                    \<lparr>fo_include_text = True, fo_include_embedding = (sreq_profile request = ''quality'')\<rparr>) (\<lambda>fetched.
          let chunks = fold (\<lambda>c m. if map_of m (sc_key c) = None then m @ [(sc_key c, c)] else m) fetched [] in
          if length chunks \<noteq> length candidates
          then fail Errc_corrupt_index ''backend did not resolve every candidate''
          else Inr (map (\<lambda>c. result_of c (chunk_at chunks c)) (arrange O1 F request config candidates chunks)))))"

subsection \<open>Every stage permutes or selects\<close>

lemma rescored_chunk [simp]: "cand_chunk (rescored O1 chunks terms low spread c) = cand_chunk c"
  by (simp add: rescored_def Let_def split: option.split)

lemma feature_rerank_keys: "mset (map cand_chunk (feature_rerank O1 query cs chunks)) = mset (map cand_chunk cs)"
  by (simp add: feature_rerank_def Let_def split_beta comp_def flip: mset_map)
    (simp add: multiset.map_comp comp_def)

lemma feature_rerank_sorted:
  assumes "tokens default_tokenize query \<noteq> []"
  shows "sorted (map cand_key (feature_rerank O1 query cs chunks))"
proof -
  have "remdups_adj (sort (tokens default_tokenize query)) \<noteq> []" using assms by (metis remdups_adj_Nil_iff set_empty set_sort)
  then show ?thesis by (simp add: feature_rerank_def Let_def split_beta)
qed

lemma mmr_best_fresh:
  "mmr_best O1 F chunks cs lambda low spread selected < length cs \<and>
     mmr_best O1 F chunks cs lambda low spread selected \<notin> set selected \<or>
   mmr_best O1 F chunks cs lambda low spread selected = length cs"
proof -
  define step where "step = (\<lambda>index (best, best_score).
       if index \<in> set selected then (best, best_score)
       else
         let redundancy = fold (\<lambda>chosen r. f32_max r (similarity O1 F (chunk_at chunks (cs ! index))
                                    (chunk_at chunks (cs ! chosen)))) selected 0;
             relevance = so_div O1 (so_sub O1 (cand_raw_score (cs ! index)) low) spread;
             score = so_sub O1 (so_mul O1 lambda relevance) (so_mul O1 (so_sub O1 f32_one lambda) redundancy)
         in if f32_less best_score score then (index, score) else (best, best_score))"
  have inv: "P (fst (fold step is b))" if "P (fst b)" "\<And>i. i \<in> set is \<Longrightarrow> i \<notin> set selected \<Longrightarrow> P i" for P "is" b
    using that
  proof (induction "is" arbitrary: b)
    case (Cons i "is")
    have "P (fst (step i b))" using Cons.prems by (cases b) (auto simp: step_def Let_def)
    with Cons show ?case by simp
  qed simp
  have "mmr_best O1 F chunks cs lambda low spread selected = fst (fold step [0..<length cs] (length cs, f32_neg_inf))"
    by (simp add: mmr_best_def step_def)
  moreover have "(\<lambda>i. i < length cs \<and> i \<notin> set selected \<or> i = length cs) (fst (fold step [0..<length cs] (length cs, f32_neg_inf)))"
    by (rule inv) simp_all
  ultimately show ?thesis by simp
qed

lemma mmr_select_distinct:
  assumes "distinct selected" and "\<forall>i \<in> set selected. i < length cs" and "length selected \<le> k"
  shows "distinct (mmr_select O1 F chunks cs lambda low spread k selected) \<and>
    (\<forall>i \<in> set (mmr_select O1 F chunks cs lambda low spread k selected). i < length cs) \<and>
    length (mmr_select O1 F chunks cs lambda low spread k selected) \<le> k"
  using assms
proof (induction O1 F chunks cs lambda low spread k selected rule: mmr_select.induct)
  case (1 O1 F chunks cs lambda low spread k selected)
  let ?best = "mmr_best O1 F chunks cs lambda low spread selected"
  show ?case
  proof (cases "length selected < k \<and> ?best \<noteq> length cs")
    case True
    then have "?best < length cs" "?best \<notin> set selected" using mmr_best_fresh [of O1 F chunks cs lambda low spread selected] by auto
    with 1 True show ?thesis by (subst (1 2 3) mmr_select.simps) (auto simp: Let_def)
  next
    case False
    with "1.prems" show ?thesis by (subst (1 2 3) mmr_select.simps) (auto simp: Let_def)
  qed
qed

lemma distinct_map_nth:
  assumes "distinct xs" and "distinct is" and "\<forall>i \<in> set is. i < length xs"
  shows "distinct (map (\<lambda>i. xs ! i) is)"
  using assms by (auto simp: distinct_map inj_on_def nth_eq_iff_index_eq)

lemma mmr_keys:
  assumes "distinct (map cand_chunk cs)"
  shows "distinct (map cand_chunk (mmr O1 F cs chunks k lambda)) \<and> set (mmr O1 F cs chunks k lambda) \<subseteq> set cs"
proof (cases "cs = []")
  case False
  obtain l s "is" where m: "mmr O1 F cs chunks k lambda = map (\<lambda>i. cs ! i) is"
      "is = mmr_select O1 F chunks cs (f32_clamp lambda 0 f32_one) l s (min k (length cs)) []"
    using False by (simp add: mmr_def Let_def split_beta)
  have "distinct is" "\<forall>i \<in> set is. i < length cs"
    using mmr_select_distinct [of "[]" cs "min k (length cs)" O1 F chunks "f32_clamp lambda 0 f32_one" l s] m(2) by simp_all
  moreover from this have "distinct (map (\<lambda>i. map cand_chunk cs ! i) is)"
    by (intro distinct_map_nth [OF assms]) simp_all
  moreover have "map cand_chunk (map (\<lambda>i. cs ! i) is) = map (\<lambda>i. map cand_chunk cs ! i) is"
    using calculation(2) by simp
  ultimately have "distinct (map cand_chunk (map (\<lambda>i. cs ! i) is))" by (simp only:)
  with \<open>\<forall>i \<in> set is. i < length cs\<close> show ?thesis unfolding m(1) by auto
qed (simp add: mmr_def)

lemma stitch_keys: "set (stitch cs chunks gap) \<subseteq> set cs \<and> (distinct (map cand_chunk cs) \<longrightarrow> distinct (map cand_chunk (stitch cs chunks gap)))"
proof (induction cs chunks gap rule: stitch.induct)
  case (2 left rest chunks gap)
  then show ?case by (fastforce simp: distinct_map inj_on_def)
qed simp

text \<open>No two passages that are left adjoin each other.\<close>

lemma stitch_apart:
  "sorted_wrt (\<lambda>a b. \<not> adjoins gap (chunk_at chunks a) (chunk_at chunks b)) (stitch cs chunks gap)"
proof (induction cs chunks gap rule: stitch.induct)
  case (2 left rest chunks gap)
  then show ?case using stitch_keys by fastforce
qed simp

lemma arrange_keys:
  assumes "distinct (map cand_chunk cs)"
  shows "distinct (map cand_chunk (arrange O1 F request config cs chunks))"
    and "cand_chunk ` set (arrange O1 F request config cs chunks) \<subseteq> cand_chunk ` set cs"
    and "length (arrange O1 F request config cs chunks) \<le> unat (sreq_top_k request)"
proof -
  let ?r = "feature_rerank O1 (sreq_query request) cs chunks"
  have r: "distinct (map cand_chunk ?r)" "cand_chunk ` set ?r = cand_chunk ` set cs"
    using feature_rerank_keys [of O1 "sreq_query request" cs chunks] assms
    by (metis mset_eq_imp_distinct_iff, metis set_map set_mset_mset)
  define q where "q = (if sreq_profile request = ''quality''
      then stitch (mmr O1 F ?r chunks (unat (sreq_top_k request)) (rc_mmr_lambda config)) chunks (rc_adjacent_line_gap config) else ?r)"
  have q: "distinct (map cand_chunk q)" "set q \<subseteq> set ?r"
    using r(1) mmr_keys [OF r(1)] stitch_keys by (auto simp: q_def) blast+
  have a: "arrange O1 F request config cs chunks = take (unat (sreq_top_k request)) q"
    by (simp add: arrange_def Let_def q_def)
  show "distinct (map cand_chunk (arrange O1 F request config cs chunks))"
    using q(1) by (simp add: a distinct_take flip: take_map)
  show "cand_chunk ` set (arrange O1 F request config cs chunks) \<subseteq> cand_chunk ` set cs"
    using image_mono [OF subset_trans [OF set_take_subset q(2)], of cand_chunk] r(2) by (simp add: a)
  show "length (arrange O1 F request config cs chunks) \<le> unat (sreq_top_k request)"
    by (simp add: a)
qed

subsection \<open>Resolution\<close>

lemma resolve_fold:
  fixes fetched :: "stored_chunk list"
  defines "r \<equiv> fold (\<lambda>c m. if map_of m (sc_key c) = None then m @ [(sc_key c, c)] else m)"
  assumes "distinct (map fst m)"
  shows "distinct (map fst (r fetched m)) \<and> set (r fetched m) \<subseteq> set m \<union> (\<lambda>c. (sc_key c, c)) ` set fetched"
  using assms(2) unfolding r_def
proof (induction fetched arbitrary: m)
  case (Cons c fetched)
  have "distinct (map fst (if map_of m (sc_key c) = None then m @ [(sc_key c, c)] else m))"
    using Cons.prems by (auto simp: map_of_eq_None_iff)
  from Cons.IH [OF this] show ?case by (auto split: if_splits)
qed simp

text \<open>Enough distinct fetched chunks for the candidates: the candidates are distinct and all resolved.\<close>

lemma all_resolved:
  assumes "distinct (map fst chunks)" and "fst ` set chunks \<subseteq> set keys" and "length chunks = length keys"
  shows "distinct keys" and "k \<in> set keys \<Longrightarrow> \<exists>c. (k, c) \<in> set chunks \<and> map_of chunks k = Some c"
proof -
  have card: "card (fst ` set chunks) = length keys" using assms(1,3) by (metis distinct_card length_map set_map)
  have le: "card (set keys) \<le> length keys" by (rule card_length)
  have "card (fst ` set chunks) \<le> card (set keys)" by (rule card_mono) (use assms(2) in simp_all)
  with card le have c: "card (set keys) = length keys" by simp
  then show "distinct keys" by (simp add: card_distinct)
  have "fst ` set chunks = set keys" by (rule card_subset_eq) (use assms(2) card c in simp_all)
  then show "k \<in> set keys \<Longrightarrow> \<exists>c. (k, c) \<in> set chunks \<and> map_of chunks k = Some c"
    using assms(1) by (metis (no_types, lifting) image_iff map_of_eq_Some_iff prod.collapse)
qed

text \<open>The contract of \<^verbatim>\<open>CandidateBackend::fetch\<close> that the search rests on: only requested chunks come back.\<close>

locale chunk_store =
  fixes ok :: "'s \<Rightarrow> bool"
    and get :: "'s \<Rightarrow> chunk_key list \<Rightarrow> fetch_options \<Rightarrow> stored_chunk list result"
  assumes requested: "ok st \<Longrightarrow> get st keys opts = Inr cs \<Longrightarrow> sc_key ` set cs \<subseteq> set keys"
begin

lemma search_resolved:
  assumes "ok st" and "cs_fetch backend = get st" and "search O1 F backend request config = Inr results"
  shows "length results \<le> unat (sreq_top_k request) \<and> distinct (map res_chunk_key results) \<and>
    (\<exists>keys opts cs. get st keys opts = Inr cs \<and> fo_include_text opts \<and>
       (\<forall>r \<in> set results. \<exists>c \<in> set cs. sc_key c = res_chunk_key r \<and> (\<exists>cand. r = result_of cand c)))"
proof -
  let ?opts = "\<lparr>fo_include_text = True, fo_include_embedding = (sreq_profile request = ''quality'')\<rparr>"
  let ?resolve = "\<lambda>fetched. fold (\<lambda>c m. if map_of m (sc_key c) = None then m @ [(sc_key c, c)] else m) fetched []"
  obtain cands fetched where f: "get st (map cand_chunk cands) ?opts = Inr fetched"
      and len: "length (?resolve fetched) = length cands"
      and res: "results = map (\<lambda>c. result_of c (chunk_at (?resolve fetched) c)) (arrange O1 F request config cands (?resolve fetched))"
    using assms(2,3) by (auto simp: search_def and_then_Inr fail_def Let_def split: if_splits)
  define chunks where "chunks = ?resolve fetched"
  have ch: "distinct (map fst chunks)" "set chunks \<subseteq> (\<lambda>c. (sc_key c, c)) ` set fetched"
    using resolve_fold [of "[]" fetched] by (simp_all add: chunks_def)
  then have "fst ` set chunks \<subseteq> set (map cand_chunk cands)"
    using requested [OF assms(1) f] by fastforce
  note all = all_resolved [OF ch(1) this] len [folded chunks_def]
  have d: "distinct (map cand_chunk cands)" using all by simp
  note arr = arrange_keys [OF d, of O1 F request config chunks]
  have at: "chunk_at chunks c \<in> set fetched \<and> sc_key (chunk_at chunks c) = cand_chunk c"
    if "c \<in> set (arrange O1 F request config cands chunks)" for c
  proof -
    have "cand_chunk c \<in> set (map cand_chunk cands)" using arr(2) that by auto
    then obtain x where "(cand_chunk c, x) \<in> set chunks" "map_of chunks (cand_chunk c) = Some x" using all by auto
    with ch(2) show ?thesis by (auto simp: chunk_at_def)
  qed
  have keys: "map res_chunk_key results = map cand_chunk (arrange O1 F request config cands chunks)"
    using at by (simp add: res chunks_def result_of_def)
  have "\<forall>r \<in> set results. \<exists>c \<in> set fetched. sc_key c = res_chunk_key r \<and> (\<exists>cand. r = result_of cand c)"
  proof
    fix r assume "r \<in> set results"
    then obtain c0 where c0: "c0 \<in> set (arrange O1 F request config cands chunks)" "r = result_of c0 (chunk_at chunks c0)"
      by (auto simp: res chunks_def)
    then show "\<exists>c \<in> set fetched. sc_key c = res_chunk_key r \<and> (\<exists>cand. r = result_of cand c)"
      using at [OF c0(1)] by (intro bexI [of _ "chunk_at chunks c0"]) (auto simp: result_of_def)
  qed
  moreover have "distinct (map res_chunk_key results)" using arr(1) keys by simp
  moreover have "length results \<le> unat (sreq_top_k request)" using arr(3) by (simp add: res chunks_def)
  ultimately show ?thesis
    using f by (intro conjI exI [of _ "map cand_chunk cands"] exI [of _ ?opts] exI [of _ fetched]) simp_all
qed

end

lemma set_map_filter: "x \<in> set (List.map_filter f xs) \<Longrightarrow> \<exists>k \<in> set xs. f k = Some x"
  by (auto simp: List.map_filter_def)

lemma fetched_key: "live_row g k = Some x \<Longrightarrow> sc_key (fetched opts x) = k"
  by (auto simp: fetched_def row_stored_def stored_chunk_of_def live_row_def row_key_def dest!: find_SomeD)

lemma embedded_fetch_requested:
  assumes "backend_wf F be" and "fetch keys opts be = Inr cs"
  shows "sc_key ` set cs \<subseteq> set keys"
proof -
  have "cs = List.map_filter (\<lambda>k. map_option (fetched opts) (live_row (eb_active be) k)) keys"
    using fetch_loop_live [of be F opts keys "[]"] assms by (simp add: fetch_def backend_wf_def)
  then show ?thesis by (auto dest!: set_map_filter simp: fetched_key)
qed

interpretation embedded_chunks: chunk_store "backend_wf F" "\<lambda>be keys opts. fetch keys opts be"
  by unfold_locales (rule embedded_fetch_requested)

text \<open>What it means that a result shows the live passage of a chunk key.\<close>

definition shows_live :: "embedded_backend \<Rightarrow> search_result \<Rightarrow> bool" where
  "shows_live be r \<longleftrightarrow> (\<exists>dk a c. live_row (eb_active be) (res_chunk_key r) = Some (dk, a, c) \<and>
     map_of (gen_documents (eb_active be)) dk = Some a \<and> map_of (eb_latest_revisions be) dk = Some (ad_revision a) \<and>
     res_document_key r = dk \<and> res_uri r = dk \<and> res_revision r = ad_revision a \<and>
     res_title r = pd_title (ad_prepared a) \<and> res_metadata r = pd_metadata (ad_prepared a) \<and>
     res_text r = pc_text c \<and> res_context r = pc_context c \<and>
     res_start_line r = pc_start_line c \<and> res_end_line r = pc_end_line c)"

lemma fetched_shows_live:
  assumes "backend_wf F be" and "live_row (eb_active be) k = Some x" and "fo_include_text opts" and "r = result_of cand (fetched opts x)"
  shows "shows_live be r"
proof -
  obtain dk a c where x: "x = (dk, a, c)" by (cases x)
  have wf: "generation_wf (eb_active be)" "documents_wf F be" using assms(1) by (simp_all add: backend_wf_def)
  note src = live_row_source [OF wf assms(2) [unfolded x]]
  have "res_chunk_key r = k" using fetched_key [OF assms(2)] by (simp add: assms(4) result_of_def)
  moreover have "map_of (eb_latest_revisions be) dk = Some (ad_revision a)" using wf(2) src by (auto simp: documents_wf_def)
  ultimately show ?thesis
    using src assms(2,3) by (auto simp: shows_live_def x assms(4) result_of_def fetched_def row_stored_def stored_chunk_of_def)
qed

text \<open>
  C36: a search on the embedded backend returns live passages: in every state that activations,
  erasures and compactions reach, for every request, scoring arithmetic, lexical engine and approximate
  index, the results are at most as many as asked for, no chunk comes twice, and each shows the text,
  context, lines, title and metadata of a chunk of the active document at the newest revision of its
  key.\<close>
theorem search_returns_live_passages:
  assumes "backend_reachable F A be ss" and "search O1 F (embedded_source F A lx be) request config = Inr results"
  shows "length results \<le> unat (sreq_top_k request) \<and> distinct (map res_chunk_key results) \<and>
    list_all (shows_live be) results"
proof -
  have wf: "backend_wf F be" using reachable_wf [OF assms(1)] by simp
  have source: "cs_fetch (embedded_source F A lx be) = (\<lambda>keys opts. fetch keys opts be)" by (simp add: embedded_source_def)
  note found = embedded_chunks.search_resolved [OF wf source assms(2)]
  from found [THEN conjunct2, THEN conjunct2] obtain keys opts cs where
    k: "fetch keys opts be = Inr cs" "fo_include_text opts"
      "\<forall>r \<in> set results. \<exists>c \<in> set cs. sc_key c = res_chunk_key r \<and> (\<exists>cand. r = result_of cand c)"
    by (elim exE conjE) (rule that)
  have cs: "cs = List.map_filter (\<lambda>k. map_option (fetched opts) (live_row (eb_active be) k)) keys"
    using fetch_loop_live [of be F opts keys "[]"] wf k(1) by (simp add: fetch_def backend_wf_def)
  have "shows_live be r" if r: "r \<in> set results" for r
  proof -
    from bspec [OF k(3) r] obtain c cand where c: "c \<in> set cs" "r = result_of cand c"
      by (elim bexE conjE exE) (rule that)
    then obtain q x where "live_row (eb_active be) q = Some x" "c = fetched opts x"
      unfolding cs by (auto dest!: set_map_filter)
    from fetched_shows_live [OF wf this(1) k(2)] c(2) this(2) show ?thesis by simp
  qed
  with found show ?thesis by (simp add: list_all_iff)
qed

subsection \<open>A concrete search\<close>

definition plain_ops :: score_ops where
  "plain_ops = \<lparr>so_add = (\<lambda>a b. a), so_sub = (\<lambda>a b. a), so_mul = (\<lambda>a b. a), so_div = (\<lambda>a b. a), so_of_size = ucast\<rparr>"

definition first_row :: lex_search where
  "first_row = (\<lambda>rows query k. [\<lparr>hit_chunk = 0, hit_score = f32_one\<rparr>])"

definition lexical_query :: search_request where
  "lexical_query = \<lparr>sreq_query = ''x'', sreq_embedding = None, sreq_mode = Mode_lexical, sreq_top_k = 10,
     sreq_candidate_pool = 60, sreq_filter = filter_none, sreq_profile = ''balanced''\<rparr>"

definition default_config :: runtime_config where
  "default_config = \<lparr>rc_bm25_weight = f32_one, rc_dense_weight = f32_one, rc_mmr_lambda = 0x3F000000,
     rc_rrf_rank_constant = 60, rc_adjacent_line_gap = 1\<rparr>"

lemma single_letter: "tokens default_tokenize ''x'' = []"
  by code_simp

definition sample_candidate :: candidate where
  "sample_candidate = \<lparr>cand_chunk = sample_key, cand_raw_score = f32_one, cand_score_type = Score_bm25\<rparr>"

lemma sample_candidates:
  "lexical_candidates first_row \<lparr>lreq_query = ''x'', lreq_k = 60, lreq_filter = filter_none\<rparr> sample_indexed = Inr [sample_candidate]"
  by (simp add: lexical_candidates_def first_row_def sample_compacted sample_gen_def sample_chunk_key filter_none_def sample_candidate_def)

definition sample_result :: search_result where
  "sample_result = \<lparr>res_chunk_key = sample_key, res_document_key = ''d'', res_revision = 1, res_score = f32_one, res_text = ''x'',
     res_context = [], res_uri = ''d'', res_title = ''t'', res_metadata = [], res_start_line = 1, res_end_line = 1\<rparr>"

definition sample_stored :: stored_chunk where
  "sample_stored = \<lparr>sc_key = sample_key, sc_document = ''d'', sc_revision = 1, sc_ordinal = 0, sc_title = ''t'', sc_text = ''x'',
     sc_context = [], sc_metadata = [], sc_start_line = 1, sc_end_line = 1, sc_embedding = []\<rparr>"

lemma sample_fetch: "fetch [sample_key] \<lparr>fo_include_text = True, fo_include_embedding = False\<rparr> sample_indexed = Inr [sample_stored]"
proof -
  have "stored_chunk_of ''d'' \<lparr>ad_revision = 1, ad_prepared = sample_document [] 0x3F800000\<rparr> (sample_chunk [] 0x3F800000) = sample_stored"
    by (simp add: stored_chunk_of_def sample_chunk_key sample_stored_def) (simp add: sample_chunk_def sample_document_def)
  then show ?thesis by (simp add: fetch_def sample_compacted sample_gen_def sample_chunk_key)
qed

lemma sample_found: "find_candidates plain_ops (embedded_source sample_fp sample_ann first_row sample_indexed) lexical_query default_config
    (unat (max (sreq_top_k lexical_query) (sreq_candidate_pool lexical_query))) = Inr [sample_candidate]"
  by (simp add: find_candidates_def embedded_source_def lexical_query_def sample_candidates max_def)

lemma sample_arrange: "arrange plain_ops sample_fp lexical_query default_config [sample_candidate] chunks = [sample_candidate]"
  by (simp add: arrange_def feature_rerank_def lexical_query_def single_letter Let_def)

lemma lexical_query_fields: "sreq_query lexical_query \<noteq> []" "sreq_top_k lexical_query \<noteq> 0" "sreq_profile lexical_query = ''balanced''"
  by (simp_all add: lexical_query_def)

lemma sample_search:
  "search plain_ops sample_fp (embedded_source sample_fp sample_ann first_row sample_indexed) lexical_query default_config
     = Inr [sample_result]"
proof -
  have keys: "cand_chunk sample_candidate = sample_key" "sc_key sample_stored = sample_key"
    by (simp_all add: sample_candidate_def sample_stored_def)
  have "result_of sample_candidate (chunk_at [(sample_key, sample_stored)] sample_candidate) = sample_result"
    by (simp add: chunk_at_def keys) (simp add: result_of_def sample_candidate_def sample_stored_def sample_result_def)
  moreover have "cs_fetch (embedded_source sample_fp sample_ann first_row sample_indexed) =
      (\<lambda>keys options. fetch keys options sample_indexed)" by (simp add: embedded_source_def)
  ultimately show ?thesis
    using lexical_query_fields unfolding search_def sample_found by (simp add: keys sample_fetch sample_arrange)
qed

theorem search_returns_live_passages_witness:
  "shows_live sample_indexed sample_result"
proof -
  obtain ss where "backend_reachable sample_fp sample_ann sample_indexed ss" using sample_reachable by blast
  from search_returns_live_passages [OF this sample_search] show ?thesis by simp
qed

subsection \<open>A writer between the two reads\<close>

text \<open>
  The search reads the backend twice, and the embedded backend loads its active generation anew in
  each call. The source that a writer has moved from \<open>be\<close> to \<open>be'\<close> between them:
\<close>

definition moved_source :: "fp \<Rightarrow> ann \<Rightarrow> lex_search \<Rightarrow> embedded_backend \<Rightarrow> embedded_backend \<Rightarrow> candidate_source" where
  "moved_source F A lx be be' = (embedded_source F A lx be)\<lparr>cs_fetch := (\<lambda>keys options. fetch keys options be')\<rparr>"

lemma resolve_live:
  assumes "backend_wf F be'" and "fetch keys opts be' = Inr cs" and "c \<in> set cs"
  shows "live_row (eb_active be') (sc_key c) \<noteq> None"
proof -
  have "cs = List.map_filter (\<lambda>k. map_option (fetched opts) (live_row (eb_active be') k)) keys"
    using fetch_loop_live [of be' F opts keys "[]"] assms by (simp add: fetch_def backend_wf_def)
  with assms(3) show ?thesis by (auto dest!: set_map_filter simp: fetched_key)
qed

text \<open>
  A search that races with a writer fails as if the index were corrupt. When a candidate of the
  first read is no longer live at the second, because its document was erased or replaced meanwhile,
  the search reports \<^verbatim>\<open>corrupt_index\<close> although both states of the backend are sound.\<close>
theorem racing_search_reports_corruption:
  assumes "backend_reachable F A be' ss" and "sreq_query request \<noteq> []" and "sreq_top_k request \<noteq> 0"
    and "find_candidates O1 (embedded_source F A lx be) request config
           (unat (max (sreq_top_k request) (sreq_candidate_pool request))) = Inr cands"
    and "c \<in> set cands" and "live_row (eb_active be') (cand_chunk c) = None"
  shows "search O1 F (moved_source F A lx be be') request config =
    fail Errc_corrupt_index ''backend did not resolve every candidate''"
proof -
  let ?opts = "\<lparr>fo_include_text = True, fo_include_embedding = (sreq_profile request = ''quality'')\<rparr>"
  have wf: "backend_wf F be'" using reachable_wf [OF assms(1)] by simp
  have same: "find_candidates O1 (moved_source F A lx be be') request config n =
      find_candidates O1 (embedded_source F A lx be) request config n" for n
    by (simp add: find_candidates_def moved_source_def Let_def cong: option.case_cong search_mode.case_cong)
  obtain fetched where f: "fetch (map cand_chunk cands) ?opts be' = Inr fetched"
    using fetch_loop_live [of be' F ?opts "map cand_chunk cands" "[]"] wf by (simp add: fetch_def backend_wf_def)
  define chunks where "chunks = fold (\<lambda>c m. if map_of m (sc_key c) = None then m @ [(sc_key c, c)] else m) fetched []"
  have ch: "distinct (map fst chunks)" "set chunks \<subseteq> (\<lambda>c. (sc_key c, c)) ` set fetched"
    using resolve_fold [of "[]" fetched] by (simp_all add: chunks_def)
  have sub: "fst ` set chunks \<subseteq> set (map cand_chunk cands)" using embedded_fetch_requested [OF wf f] ch(2) by fastforce
  have "length chunks \<noteq> length (map cand_chunk cands)"
  proof
    assume "length chunks = length (map cand_chunk cands)"
    from all_resolved(2) [OF ch(1) sub this] assms(5) obtain x where "(cand_chunk c, x) \<in> set chunks" by auto
    with ch(2) obtain x where "x \<in> set fetched" "sc_key x = cand_chunk c" by auto
    with resolve_live [OF wf f] assms(6) show False by metis
  qed
  moreover have "cs_fetch (moved_source F A lx be be') = (\<lambda>keys options. fetch keys options be')" by (simp add: moved_source_def)
  ultimately show ?thesis
    using assms(2-4) f by (simp add: search_def same chunks_def Let_def)
qed

definition erased_backend :: embedded_backend where
  "erased_backend = snd (erase sample_fp ''d'' 2 sample_indexed)"

lemma erased_value: "eb_active erased_backend \<noteq> eb_active sample_indexed \<and> live_row (eb_active erased_backend) sample_key = None"
proof -
  have "base_keys (ti_base (tier_base 0x3F800000)) = [sample_key]" "ti_tombstones (tier_base 0x3F800000) = []"
    by (simp_all add: tier_base_def)
  then show ?thesis
    by (simp add: erased_backend_def erase_def sample_compacted sample_gen_def Let_def tombstoned_def sample_fields sample_chunk_key
        contains_base_def omap_del_def build_generation_def build_start_def with_delta_def exact_build_def tier_base_def
        publish_def schedule_maintenance_def sample_policy_fields live_row_def rows_def word_le_nat_alt)
qed

theorem racing_search_reports_corruption_witness:
  "search plain_ops sample_fp (moved_source sample_fp sample_ann first_row sample_indexed erased_backend) lexical_query default_config
     = fail Errc_corrupt_index ''backend did not resolve every candidate''"
proof -
  obtain ss where "backend_reachable sample_fp sample_ann sample_indexed ss" using sample_reachable by blast
  then have "backend_reachable sample_fp sample_ann erased_backend ss" unfolding erased_backend_def by (rule erases)
  from racing_search_reports_corruption [OF this lexical_query_fields(1,2) sample_found, of sample_candidate] erased_value
  show ?thesis by (simp add: sample_candidate_def)
qed

end
