(* ===== verification/Migration_Contract.thy ===== *)
theory Migration_Contract
  imports Embedded_Backend Job_Model
begin

text \<open>
  \<^verbatim>\<open>rag.cpp/src/migration/contract.cpp\<close>: the audit of a corpus, the comparison of a destination with
  its source and the resumable copy between two endpoints. Endpoints are the abstract class
  \<^verbatim>\<open>migration::Endpoint\<close>: a record of operations over a state of their own, which every call may
  change. The loops over an endpoint need not end, so they are partial functions; that they do for
  the endpoints the contract describes is proved. Vector norms and score differences are parameters.
\<close>

subsection \<open>The data plane\<close>

record revisioned_document =
  rd_document :: prepared_document
  rd_revision :: document_revision

record document_batch =
  db_documents :: "revisioned_document list"
  db_next_cursor :: string
  db_complete :: bool

record corpus_audit =
  au_documents :: nat
  au_chunks :: nat
  au_dimension :: nat
  au_embedding_identity :: string
  au_chunking_fingerprint :: string
  au_document_checksum :: string
  au_vector_checksum :: string
  au_fingerprint :: string

record migration_progress =
  mp_run_id :: string
  mp_source_fingerprint :: string
  mp_last_document :: string
  mp_documents :: nat
  mp_chunks :: nat
  mp_complete :: bool

record migration_options =
  mo_batch_size :: nat
  mo_sample_searches :: nat

record migration_report =
  mr_id :: string
  mr_direction :: string
  mr_source :: string
  mr_destination :: string
  mr_resumed :: bool
  mr_complete :: bool
  mr_batches :: nat
  mr_sampled_searches :: nat
  mr_source_audit :: corpus_audit
  mr_destination_audit :: corpus_audit

record 'e endpoint =
  ep_description :: "'e \<Rightarrow> string"
  ep_read_batch :: "'e \<Rightarrow> string \<Rightarrow> nat \<Rightarrow> 'e \<times> document_batch result"
  ep_progress :: "'e \<Rightarrow> string \<Rightarrow> 'e \<times> migration_progress option result"
  ep_write_batch :: "'e \<Rightarrow> string \<Rightarrow> corpus_audit \<Rightarrow> document_batch \<Rightarrow> migration_progress \<Rightarrow> 'e \<times> unit result"
  ep_finish :: "'e \<Rightarrow> string \<Rightarrow> corpus_audit \<Rightarrow> migration_progress \<Rightarrow> 'e \<times> unit result"
  ep_exact :: "'e \<Rightarrow> vec \<Rightarrow> nat \<Rightarrow> 'e \<times> candidate list result"

abbreviation rd_key :: "revisioned_document \<Rightarrow> document_key" where
  "rd_key r \<equiv> pd_key (rd_document r)"

subsection \<open>The audit\<close>

text \<open>The class \<^verbatim>\<open>Hash\<close>: its \<^verbatim>\<open>field\<close> is \<^const>\<open>hash_field\<close>.\<close>

definition hash_number :: "u64 \<Rightarrow> nat \<Rightarrow> u64" where
  "hash_number h n = hash_field h (to_dec n)"

definition hash_real :: "u64 \<Rightarrow> f32 \<Rightarrow> u64" where
  "hash_real h x = hash_number h (unat x)"

definition hash_finish :: "u64 \<Rightarrow> string" where
  "hash_finish h = ''fnv1a64:'' @ hex64 h"

definition hash_chunk :: "prepared_chunk \<Rightarrow> u64 \<Rightarrow> u64" where
  "hash_chunk c h =
     (let h = hash_field h (pc_key c);
          h = hash_number h (unat (pc_ordinal c));
          h = hash_field h (pc_text c);
          h = hash_field h (pc_indexed_text c);
          h = hash_field h (pc_context c);
          h = hash_number h (unat (pc_start_line c))
      in hash_number h (unat (pc_end_line c)))"

definition hash_vector :: "prepared_chunk \<Rightarrow> u64 \<Rightarrow> u64" where
  "hash_vector c h = fold (\<lambda>x h. hash_real h x) (pc_embedding c) (hash_field h (pc_key c))"

definition hash_document :: "revisioned_document \<Rightarrow> u64 \<Rightarrow> u64" where
  "hash_document r h =
     (let d = rd_document r;
          h = hash_field h (pd_key d);
          h = hash_number h (unat (rd_revision r));
          h = hash_field h (pd_content_hash d);
          h = hash_field h (pd_title d);
          h = hash_field h (pd_content d);
          h = hash_field h (pd_embedding_identity d);
          h = hash_field h (pd_chunking_fingerprint d)
      in fold (\<lambda>(k, v) h. hash_field (hash_field h k) v) (pd_metadata d) h)"

text \<open>The running state of an audit: the audit so far, the document hash and the vector hash.\<close>

type_synonym auditing = "corpus_audit \<times> u64 \<times> u64"

fun audit_chunks :: "fp \<Rightarrow> document_key \<Rightarrow> nat \<Rightarrow> prepared_chunk list \<Rightarrow> auditing \<Rightarrow> auditing result" where
  "audit_chunks F key ordinal [] st = Inr st"
| "audit_chunks F key ordinal (c # cs) (au, dh, vh) =
     (let indexed = (if pc_context c = [] then pc_text c else pc_context c @ [LF] @ pc_text c) in
      if pc_ordinal c \<noteq> of_nat ordinal \<or> pc_key c = [] \<or> length (pc_embedding c) \<noteq> au_dimension au \<or>
         pc_indexed_text c \<noteq> indexed \<or>
         pc_key c \<noteq> stable_chunk_key key (pc_start_line c) (pc_end_line c) (pc_text c)
      then fail Errc_dimension_mismatch ''migration chunk ordering or dimension is invalid''
      else if \<not> list_all f32_finite (pc_embedding c)
      then fail Errc_corrupt_index ''migration vector is non-finite''
      else if fp_norm_error F (pc_embedding c) > kEmbeddingTolerance
      then fail Errc_corrupt_index ''migration vector is not normalized''
      else audit_chunks F key (Suc ordinal) cs
             (au\<lparr>au_chunks := au_chunks au + 1\<rparr>, hash_chunk c dh, hash_vector c vh))"

definition validate_document :: "fp \<Rightarrow> revisioned_document \<Rightarrow> auditing \<Rightarrow> auditing result" where
  "validate_document F r st =
     (case st of (au, dh, vh) \<Rightarrow>
      let d = rd_document r in
      if rd_revision r = 0 \<or> pd_key d = [] \<or> pd_chunks d = [] \<or> pd_content_hash d = [] \<or>
         pd_embedding_identity d = [] \<or> pd_chunking_fingerprint d = []
      then fail Errc_corrupt_index ''migration document identity is incomplete''
      else if pd_content d \<noteq> normalize_source_text (pd_content d) \<or>
         pd_content_hash d \<noteq> document_content_hash (pd_title d) (pd_content d) (pd_metadata d)
      then fail Errc_corrupt_index ''migration document content hash is invalid''
      else
        let au = (if au_embedding_identity au = []
                  then au\<lparr>au_embedding_identity := pd_embedding_identity d,
                          au_chunking_fingerprint := pd_chunking_fingerprint d,
                          au_dimension := length (pc_embedding (hd (pd_chunks d)))\<rparr>
                  else au) in
        if pd_embedding_identity d \<noteq> au_embedding_identity au \<or>
           pd_chunking_fingerprint d \<noteq> au_chunking_fingerprint au
        then fail Errc_dimension_mismatch ''migration source contains incompatible corpus identities''
        else and_then (audit_chunks F (pd_key d) 0 (pd_chunks d) (au, hash_document r dh, vh))
          (\<lambda>(au, dh, vh). Inr (au\<lparr>au_documents := au_documents au + 1\<rparr>, dh, vh)))"

fun audit_documents ::
    "fp \<Rightarrow> revisioned_document list \<Rightarrow> string \<Rightarrow> auditing \<Rightarrow> (string \<times> auditing) result" where
  "audit_documents F [] previous st = Inr (previous, st)"
| "audit_documents F (r # rs) previous st =
     (if previous \<noteq> [] \<and> rd_key r \<le> previous
      then fail Errc_corrupt_index ''migration endpoint returned unordered documents''
      else and_then (validate_document F r st) (audit_documents F rs (rd_key r)))"

partial_function (option) audit_loop ::
    "'e endpoint \<Rightarrow> fp \<Rightarrow> nat \<Rightarrow> string \<Rightarrow> auditing \<Rightarrow> 'e \<Rightarrow> ('e \<times> auditing result) option" where
  "audit_loop E F batch_size cursor st e =
     (case ep_read_batch E e cursor batch_size of
        (e, Inl err) \<Rightarrow> Some (e, Inl err)
      | (e, Inr batch) \<Rightarrow>
          (case audit_documents F (db_documents batch) cursor st of
             Inl err \<Rightarrow> Some (e, Inl err)
           | Inr (previous, st) \<Rightarrow>
               if db_next_cursor batch \<noteq> previous \<or> \<not> db_complete batch \<and> db_documents batch = []
               then Some (e, fail Errc_corrupt_index ''migration endpoint returned an invalid cursor'')
               else if db_complete batch then Some (e, Inr st)
               else audit_loop E F batch_size (db_next_cursor batch) st e))"

definition empty_audit :: corpus_audit where
  "empty_audit = \<lparr>au_documents = 0, au_chunks = 0, au_dimension = 0, au_embedding_identity = [],
     au_chunking_fingerprint = [], au_document_checksum = [], au_vector_checksum = [], au_fingerprint = []\<rparr>"

definition finish_audit :: "auditing \<Rightarrow> corpus_audit" where
  "finish_audit st =
     (case st of (au, dh, vh) \<Rightarrow>
      let document_checksum = hash_finish dh; vector_checksum = hash_finish vh;
          h = hash_number fnv_basis (au_documents au);
          h = hash_number h (au_chunks au);
          h = hash_number h (au_dimension au);
          h = hash_field h (au_embedding_identity au);
          h = hash_field h (au_chunking_fingerprint au);
          h = hash_field h document_checksum;
          h = hash_field h vector_checksum
      in au\<lparr>au_document_checksum := document_checksum, au_vector_checksum := vector_checksum,
            au_fingerprint := hash_finish h\<rparr>)"

definition audit :: "'e endpoint \<Rightarrow> fp \<Rightarrow> nat \<Rightarrow> 'e \<Rightarrow> ('e \<times> corpus_audit result) option" where
  "audit E F batch_size e =
     (if batch_size = 0 then Some (e, fail Errc_invalid_argument ''migration batch size must be non-zero'')
      else case audit_loop E F batch_size [] (empty_audit, fnv_basis, fnv_basis) e of
        None \<Rightarrow> None
      | Some (e, Inl err) \<Rightarrow> Some (e, Inl err)
      | Some (e, Inr st) \<Rightarrow> Some (e, Inr (finish_audit st)))"

subsection \<open>Comparing a destination with its source\<close>

definition run_id :: "string \<Rightarrow> string \<Rightarrow> string" where
  "run_id direction fingerprint =
     ''mig_'' @ drop 8 (hash_finish (hash_field (hash_field fnv_basis direction) fingerprint))"

definition same_floats :: "vec \<Rightarrow> vec \<Rightarrow> bool" where
  "same_floats x y \<longleftrightarrow> length x = length y \<and> list_all (\<lambda>(a, b). \<not> f32_neq a b) (zip x y)"

definition same_chunk :: "prepared_chunk \<Rightarrow> prepared_chunk \<Rightarrow> bool" where
  "same_chunk x y \<longleftrightarrow>
     pc_key x = pc_key y \<and> pc_ordinal x = pc_ordinal y \<and> pc_text x = pc_text y \<and>
     pc_indexed_text x = pc_indexed_text y \<and> pc_context x = pc_context y \<and>
     pc_start_line x = pc_start_line y \<and> pc_end_line x = pc_end_line y \<and>
     same_floats (pc_embedding x) (pc_embedding y)"

definition same_record :: "revisioned_document \<Rightarrow> revisioned_document \<Rightarrow> bool" where
  "same_record left right =
     (let a = rd_document left; b = rd_document right in
      rd_revision left = rd_revision right \<and> pd_key a = pd_key b \<and> pd_title a = pd_title b \<and>
      pd_content a = pd_content b \<and> pd_metadata a = pd_metadata b \<and>
      pd_content_hash a = pd_content_hash b \<and>
      pd_chunking_fingerprint a = pd_chunking_fingerprint b \<and>
      pd_embedding_identity a = pd_embedding_identity b \<and>
      length (pd_chunks a) = length (pd_chunks b) \<and>
      list_all (\<lambda>(x, y). same_chunk x y) (zip (pd_chunks a) (pd_chunks b)))"

definition count_batch :: "revisioned_document list \<Rightarrow> migration_progress \<Rightarrow> migration_progress" where
  "count_batch rs p =
     fold (\<lambda>r p. p\<lparr>mp_documents := mp_documents p + 1,
                   mp_chunks := mp_chunks p + length (pd_chunks (rd_document r))\<rparr>) rs p"

text \<open>The loop of \<^verbatim>\<open>reconcile\<close>; both endpoints are read before either answer is looked at.\<close>

partial_function (option) reconcile_loop ::
    "'s endpoint \<Rightarrow> 'd endpoint \<Rightarrow> nat \<Rightarrow> string \<Rightarrow> migration_progress \<Rightarrow> 's \<times> 'd
       \<Rightarrow> (('s \<times> 'd) \<times> migration_progress result) option" where
  "reconcile_loop S D batch_size cursor output w =
     (case (ep_read_batch S (fst w) cursor batch_size, ep_read_batch D (snd w) cursor batch_size) of
        ((s, Inl e), (d, _)) \<Rightarrow> Some ((s, d), Inl e)
      | ((s, Inr expected), (d, Inl e)) \<Rightarrow> Some ((s, d), Inl e)
      | ((s, Inr expected), (d, Inr actual)) \<Rightarrow>
          (if length (db_documents actual) > length (db_documents expected)
           then Some ((s, d), fail Errc_already_exists ''migration destination is not a source prefix'')
           else if \<not> list_all (\<lambda>(x, y). same_record x y) (zip (db_documents expected) (db_documents actual))
           then Some ((s, d), fail Errc_already_exists ''migration destination conflicts with source'')
           else
             let output = count_batch (db_documents actual) output;
                 cursor = (if db_documents actual \<noteq> [] then db_next_cursor actual else cursor);
                 output = output\<lparr>mp_last_document := cursor\<rparr>
             in if db_complete actual
                then Some ((s, d), Inr (output\<lparr>mp_complete :=
                  db_complete expected \<and> length (db_documents actual) = length (db_documents expected)\<rparr>))
                else if db_documents actual = [] \<or> db_complete expected
                then Some ((s, d), fail Errc_already_exists ''migration destination contains extra documents'')
                else reconcile_loop S D batch_size cursor output (s, d)))"

definition start_progress :: "string \<Rightarrow> string \<Rightarrow> migration_progress" where
  "start_progress run fingerprint =
     \<lparr>mp_run_id = run, mp_source_fingerprint = fingerprint, mp_last_document = [],
      mp_documents = 0, mp_chunks = 0, mp_complete = False\<rparr>"

definition reconcile ::
    "'s endpoint \<Rightarrow> 'd endpoint \<Rightarrow> string \<Rightarrow> string \<Rightarrow> nat \<Rightarrow> 's \<times> 'd
       \<Rightarrow> (('s \<times> 'd) \<times> migration_progress result) option" where
  "reconcile S D run fingerprint batch_size w =
     reconcile_loop S D batch_size [] (start_progress run fingerprint) w"

subsection \<open>Sampling, copying and checking\<close>

text \<open>
  The inner loop stops when the sample reaches its size; the loop over the documents around it does
  not.
\<close>

fun sample_chunks :: "nat \<Rightarrow> prepared_chunk list \<Rightarrow> vec list \<Rightarrow> vec list" where
  "sample_chunks n [] samples = samples"
| "sample_chunks n (c # cs) samples =
     (let samples = samples @ [pc_embedding c]
      in if length samples = n then samples else sample_chunks n cs samples)"

definition sample_documents :: "nat \<Rightarrow> revisioned_document list \<Rightarrow> vec list \<Rightarrow> vec list" where
  "sample_documents n rs samples = fold (\<lambda>r. sample_chunks n (pd_chunks (rd_document r))) rs samples"

partial_function (option) sample_loop ::
    "'s endpoint \<Rightarrow> nat \<Rightarrow> nat \<Rightarrow> string \<Rightarrow> vec list \<Rightarrow> 's \<Rightarrow> ('s \<times> vec list result) option" where
  "sample_loop S batch_size n cursor samples s =
     (if \<not> length samples < n then Some (s, Inr samples)
      else case ep_read_batch S s cursor batch_size of
        (s, Inl e) \<Rightarrow> Some (s, Inl e)
      | (s, Inr batch) \<Rightarrow>
          (let samples = sample_documents n (db_documents batch) samples in
           if db_complete batch then Some (s, Inr samples)
           else sample_loop S batch_size n (db_next_cursor batch) samples s))"

partial_function (option) copy_loop ::
    "'s endpoint \<Rightarrow> 'd endpoint \<Rightarrow> nat \<Rightarrow> string \<Rightarrow> corpus_audit \<Rightarrow> migration_progress \<Rightarrow> nat \<Rightarrow> 's \<times> 'd
       \<Rightarrow> (('s \<times> 'd) \<times> (migration_progress \<times> nat) result) option" where
  "copy_loop S D batch_size run au progress batches w =
     (if mp_complete progress then Some (w, Inr (progress, batches))
      else case ep_read_batch S (fst w) (mp_last_document progress) batch_size of
        (s, Inl e) \<Rightarrow> Some ((s, snd w), Inl e)
      | (s, Inr batch) \<Rightarrow>
          (let nxt = count_batch (db_documents batch)
                 (progress\<lparr>mp_last_document := db_next_cursor batch, mp_complete := db_complete batch\<rparr>)
           in case ep_write_batch D (snd w) run au batch nxt of
                (d, Inl e) \<Rightarrow> Some ((s, d), Inl e)
              | (d, Inr _) \<Rightarrow> copy_loop S D batch_size run au nxt (batches + 1) (s, d)))"

fun same_candidates :: "(f32 \<Rightarrow> f32 \<Rightarrow> bool) \<Rightarrow> candidate list \<Rightarrow> candidate list \<Rightarrow> bool" where
  "same_candidates apart (x # xs) (y # ys) \<longleftrightarrow>
     cand_chunk x = cand_chunk y \<and> \<not> apart (cand_raw_score x) (cand_raw_score y) \<and> same_candidates apart xs ys"
| "same_candidates apart [] [] \<longleftrightarrow> True"
| "same_candidates apart xs ys \<longleftrightarrow> False"

fun check_samples ::
    "'s endpoint \<Rightarrow> 'd endpoint \<Rightarrow> (f32 \<Rightarrow> f32 \<Rightarrow> bool) \<Rightarrow> nat \<Rightarrow> vec list \<Rightarrow> nat \<Rightarrow> 's \<times> 'd
       \<Rightarrow> (('s \<times> 'd) \<times> nat result)" where
  "check_samples S D apart k [] sampled w = (w, Inr sampled)"
| "check_samples S D apart k (query # samples) sampled w =
     (case (ep_exact S (fst w) query k, ep_exact D (snd w) query k) of
        ((s, Inl e), (d, _)) \<Rightarrow> ((s, d), Inl e)
      | ((s, Inr expected), (d, Inl e)) \<Rightarrow> ((s, d), Inl e)
      | ((s, Inr expected), (d, Inr actual)) \<Rightarrow>
          (if \<not> same_candidates apart expected actual
           then ((s, d), fail Errc_corrupt_index ''sampled exact search differs after migration'')
           else check_samples S D apart k samples (sampled + 1) (s, d)))"

subsection \<open>The migration\<close>

text \<open>
  A step of the migration works on both endpoints, may not return, and may fail; the first failure
  ends the migration with the endpoints as the step left them.
\<close>

type_synonym ('w, 'a) mig_step = "'w \<Rightarrow> ('w \<times> 'a result) option"

definition mig_then :: "('w, 'a) mig_step \<Rightarrow> ('a \<Rightarrow> ('w, 'b) mig_step) \<Rightarrow> ('w, 'b) mig_step" where
  "mig_then m f = (\<lambda>w. case m w of
       None \<Rightarrow> None
     | Some (w, Inl e) \<Rightarrow> Some (w, Inl e)
     | Some (w, Inr x) \<Rightarrow> f x w)"

definition mig_result :: "'a result \<Rightarrow> ('w, 'a) mig_step" where
  "mig_result r = (\<lambda>w. Some (w, r))"

definition at_source :: "('s, 'a) mig_step \<Rightarrow> ('s \<times> 'd, 'a) mig_step" where
  "at_source m = (\<lambda>(s, d). case m s of None \<Rightarrow> None | Some (s, r) \<Rightarrow> Some ((s, d), r))"

definition at_destination :: "('d, 'a) mig_step \<Rightarrow> ('s \<times> 'd, 'a) mig_step" where
  "at_destination m = (\<lambda>(s, d). case m d of None \<Rightarrow> None | Some (d, r) \<Rightarrow> Some ((s, d), r))"

definition migrate ::
    "'s endpoint \<Rightarrow> 'd endpoint \<Rightarrow> fp \<Rightarrow> (f32 \<Rightarrow> f32 \<Rightarrow> bool) \<Rightarrow> string \<Rightarrow> migration_options
       \<Rightarrow> ('s \<times> 'd, migration_report) mig_step" where
  "migrate S D F apart direction options =
     (let n = mo_batch_size options in
      if direction = [] \<or> n = 0 \<or> n > 10000 \<or> mo_sample_searches options > 1000
      then mig_result (fail Errc_invalid_argument ''migration options are invalid'')
      else
        mig_then (at_source (audit S F n)) (\<lambda>source_audit.
        mig_then (\<lambda>(s, d). Some ((s, d), Inr (ep_description S s, ep_description D d))) (\<lambda>(source, destination).
        let fingerprint = au_fingerprint source_audit; run = run_id direction fingerprint in
        mig_then (at_destination (\<lambda>d. Some (ep_progress D d run))) (\<lambda>prior.
        mig_then (reconcile S D run fingerprint n) (\<lambda>progress.
        if (case prior of None \<Rightarrow> False | Some p \<Rightarrow> mp_source_fingerprint p \<noteq> fingerprint)
        then mig_result (fail Errc_already_exists ''migration progress belongs to a different source'')
        else
          let resumed = (prior \<noteq> None \<or> mp_documents progress \<noteq> 0) in
          mig_then (at_source (sample_loop S n (mo_sample_searches options) [] [])) (\<lambda>samples.
          mig_then (copy_loop S D n run source_audit progress 0) (\<lambda>(progress, batches).
          mig_then (at_destination (\<lambda>d. Some (ep_finish D d run source_audit progress))) (\<lambda>_.
          mig_then (at_source (audit S F n)) (\<lambda>final_source.
          if final_source \<noteq> source_audit
          then mig_result (fail Errc_already_exists ''migration source changed while it was being copied'')
          else
            mig_then (at_destination (audit D F n)) (\<lambda>destination_audit.
            if source_audit \<noteq> destination_audit
            then mig_result (fail Errc_corrupt_index ''migration destination audit does not match the source'')
            else
              mig_then (\<lambda>w. Some (check_samples S D apart (min 10 (au_chunks source_audit)) samples 0 w)) (\<lambda>sampled.
              mig_result (Inr
                \<lparr>mr_id = run, mr_direction = direction, mr_source = source,
                 mr_destination = destination, mr_resumed = resumed, mr_complete = True,
                 mr_batches = batches, mr_sampled_searches = sampled,
                 mr_source_audit = source_audit, mr_destination_audit = destination_audit\<rparr>))))))))))))"

subsection \<open>The report\<close>

definition audit_json :: "corpus_audit \<Rightarrow> json" where
  "audit_json au = json_object
     [(''documents'', JInt (int (au_documents au))),
      (''chunks'', JInt (int (au_chunks au))),
      (''dimension'', JInt (int (au_dimension au))),
      (''embedding_identity'', JStr (au_embedding_identity au)),
      (''chunking_fingerprint'', JStr (au_chunking_fingerprint au)),
      (''document_checksum'', JStr (au_document_checksum au)),
      (''vector_checksum'', JStr (au_vector_checksum au)),
      (''fingerprint'', JStr (au_fingerprint au))]"

definition report_json :: "migration_report \<Rightarrow> json" where
  "report_json report = json_object
     [(''id'', JStr (mr_id report)),
      (''object'', JStr ''rag.migration_report''),
      (''direction'', JStr (mr_direction report)),
      (''source'', JStr (mr_source report)),
      (''destination'', JStr (mr_destination report)),
      (''resumed'', JBool (mr_resumed report)),
      (''complete'', JBool (mr_complete report)),
      (''batches'', JInt (int (mr_batches report))),
      (''sampled_exact_searches'', JInt (int (mr_sampled_searches report))),
      (''source_audit'', audit_json (mr_source_audit report)),
      (''destination_audit'', audit_json (mr_destination_audit report))]"

end
