(* ===== verification/Migration_Correct.thy ===== *)
theory Migration_Correct
  imports Migration_Contract
begin

text \<open>
  What a migration achieves between any two endpoints that keep the contract of
  \<^verbatim>\<open>migration/contract.hpp\<close>: it always returns; a completed report means that the destination holds
  the records of the source; and over endpoints that do not fail it completes, from whatever prefix
  an earlier run left behind. The contract is a locale of the operations with the documents an
  endpoint stands for.
\<close>

subsection \<open>Reading in batches\<close>

definition after_cursor :: "revisioned_document list \<Rightarrow> string \<Rightarrow> revisioned_document list" where
  "after_cursor docs cursor = (if cursor = [] then docs else filter (\<lambda>r. cursor < rd_key r) docs)"

definition batch_from :: "revisioned_document list \<Rightarrow> string \<Rightarrow> nat \<Rightarrow> document_batch" where
  "batch_from docs cursor n =
     (let found = take n (after_cursor docs cursor) in
      \<lparr>db_documents = found, db_next_cursor = (if found = [] then cursor else rd_key (last found)),
       db_complete = (length (after_cursor docs cursor) \<le> n)\<rparr>)"

definition ordered_docs :: "revisioned_document list \<Rightarrow> bool" where
  "ordered_docs docs \<longleftrightarrow> sorted_wrt (<) (map rd_key docs) \<and> list_all (\<lambda>r. rd_key r \<noteq> []) docs"

locale reading_contract =
  fixes E :: "'e endpoint" and docs :: "'e \<Rightarrow> revisioned_document list" and valid :: "'e \<Rightarrow> bool"
  assumes valid_ordered: "valid e \<Longrightarrow> ordered_docs (docs e)"
    and read_batch: "valid e \<Longrightarrow> 0 < n \<Longrightarrow> ep_read_batch E e c n = (e', r) \<Longrightarrow>
      valid e' \<and> docs e' = docs e \<and> (\<forall>b. r = Inr b \<longrightarrow> b = batch_from (docs e) c n)"
    and exact_stays: "valid e \<Longrightarrow> ep_exact E e q k = (e', x) \<Longrightarrow> valid e' \<and> docs e' = docs e"

locale writing_contract = reading_contract +
  assumes progress_stays: "valid e \<Longrightarrow> ep_progress E e run = (e', found) \<Longrightarrow> valid e' \<and> docs e' = docs e"
    and write_appends: "valid e \<Longrightarrow> ordered_docs (docs e @ db_documents b) \<Longrightarrow>
      list_all (\<lambda>r. pd_chunks (rd_document r) \<noteq> []) (db_documents b) \<Longrightarrow>
      ep_write_batch E e run au b p = (e', w) \<Longrightarrow>
      valid e' \<and> (w = Inr () \<longrightarrow> docs e' = docs e @ db_documents b)"
    and finish_stays: "valid e \<Longrightarrow> ep_finish E e run au p = (e', w) \<Longrightarrow> valid e' \<and> docs e' = docs e"

subsection \<open>Positions and cursors\<close>

definition at_pos :: "revisioned_document list \<Rightarrow> nat \<Rightarrow> string \<Rightarrow> bool" where
  "at_pos docs m c \<longleftrightarrow> m \<le> length docs \<and> c = (if m = 0 then [] else rd_key (docs ! (m - 1)))"

lemma at_pos_start [simp]: "at_pos docs 0 []"
  by (simp add: at_pos_def)

lemma filter_above:
  fixes f :: "'a \<Rightarrow> 'b::linorder"
  assumes "sorted_wrt (<) (map f (xs @ x # ys))"
  shows "filter (\<lambda>r. f x < f r) (xs @ x # ys) = ys"
proof -
  have "\<forall>r \<in> set xs. \<not> f x < f r" "\<forall>r \<in> set ys. f x < f r"
    using assms by (auto simp: sorted_wrt_append dest: less_asym)
  then show ?thesis by (simp add: filter_empty_conv)
qed

lemma after_pos:
  assumes "ordered_docs docs" and "at_pos docs m c"
  shows "after_cursor docs c = drop m docs"
proof (cases m)
  case 0
  then show ?thesis using assms(2) by (simp add: at_pos_def after_cursor_def)
next
  case (Suc i)
  then have i: "i < length docs" and c: "c = rd_key (docs ! i)" using assms(2) by (auto simp: at_pos_def)
  have split: "docs = take i docs @ docs ! i # drop m docs" using i Suc by (simp add: id_take_nth_drop)
  have "c \<noteq> []" using assms(1) i c by (simp add: ordered_docs_def list_all_length)
  then have "after_cursor docs c = filter (\<lambda>r. rd_key (docs ! i) < rd_key r) docs" by (simp add: after_cursor_def c)
  also have "\<dots> = filter (\<lambda>r. rd_key (docs ! i) < rd_key r) (take i docs @ docs ! i # drop m docs)"
    using split by simp
  also have "\<dots> = drop m docs" using assms(1) split by (intro filter_above) (simp add: ordered_docs_def)
  finally show ?thesis .
qed

lemma batch_at:
  assumes "ordered_docs docs" and "at_pos docs m c"
  shows "db_documents (batch_from docs c n) = take n (drop m docs)"
    and "db_complete (batch_from docs c n) \<longleftrightarrow> length docs \<le> m + n"
    and "at_pos docs (min (m + n) (length docs)) (db_next_cursor (batch_from docs c n))"
proof -
  note d = after_pos [OF assms]
  show "db_documents (batch_from docs c n) = take n (drop m docs)"
    by (simp add: batch_from_def d Let_def)
  show "db_complete (batch_from docs c n) \<longleftrightarrow> length docs \<le> m + n"
    by (simp add: batch_from_def d Let_def) linarith
  show "at_pos docs (min (m + n) (length docs)) (db_next_cursor (batch_from docs c n))"
  proof (cases "take n (drop m docs) = []")
    case True
    then have "min (m + n) (length docs) = m" using assms(2) by (auto simp: at_pos_def)
    then show ?thesis using True assms(2) by (auto simp: batch_from_def d)
  next
    case False
    then have "last (take n (drop m docs)) = docs ! (min (m + n) (length docs) - 1)" "0 < n" "m < length docs"
      by (auto simp: last_conv_nth min_def not_le intro!: arg_cong [where f = "(!) docs"])
    then show ?thesis using False by (auto simp: batch_from_def d at_pos_def)
  qed
qed

lemma next_at:
  assumes "ordered_docs docs" and "at_pos docs m c"
  shows "db_next_cursor (batch_from docs c n) =
    (if db_documents (batch_from docs c n) = [] then c else rd_key (last (db_documents (batch_from docs c n))))"
  by (simp add: batch_from_def Let_def)

lemma split_at_batch:
  "drop m docs = take n (drop m docs) @ drop (min (m + n) (length docs)) docs"
  by (metis add.commute append_take_drop_id drop_all drop_drop linorder_le_cases min.absorb1 min.absorb2 append_Nil2 take_all)

subsection \<open>The audit does not depend on the batches\<close>

text \<open>The audit of a corpus in one pass, the reference for the batched one.\<close>

definition corpus_audit_of :: "fp \<Rightarrow> revisioned_document list \<Rightarrow> corpus_audit result" where
  "corpus_audit_of F docs =
     and_then (audit_documents F docs [] (empty_audit, fnv_basis, fnv_basis)) (\<lambda>(_, st). Inr (finish_audit st))"

lemma audit_documents_append:
  "audit_documents F (xs @ ys) prev st =
     and_then (audit_documents F xs prev st) (\<lambda>(prev, st). audit_documents F ys prev st)"
proof (induction xs arbitrary: prev st)
  case (Cons r xs)
  then show ?case by (cases "validate_document F r st") (auto simp: fail_def)
qed simp

lemma audit_documents_cursor:
  "audit_documents F xs prev st = Inr (prev', st') \<Longrightarrow> prev' = (if xs = [] then prev else rd_key (last xs))"
proof (induction xs arbitrary: prev st)
  case (Cons r xs)
  then show ?case by (cases "validate_document F r st") (fastforce split: if_splits)+
qed simp

context reading_contract
begin

lemma audit_loop_result:
  assumes "valid e" and "at_pos (docs e) m c" and "0 < n"
  shows "\<exists>e' r. audit_loop E F n c st e = Some (e', r) \<and> valid e' \<and> docs e' = docs e \<and>
    (\<forall>st'. r = Inr st' \<longrightarrow> (\<exists>last. audit_documents F (drop m (docs e)) c st = Inr (last, st')))"
  using assms
proof (induction "length (docs e) - m" arbitrary: e m c st rule: less_induct)
  case less
  obtain e1 r where step: "ep_read_batch E e c n = (e1, r)" by fastforce
  have s: "valid e1" "docs e1 = docs e" "\<And>b. r = Inr b \<Longrightarrow> b = batch_from (docs e) c n"
    using read_batch [OF less.prems(1,3) step] by auto
  note o = valid_ordered [OF less.prems(1)]
  note at1 = batch_at [OF o less.prems(2), of n] and nx = next_at [OF o less.prems(2), of n]
  show ?case
  proof (cases r)
    case (Inl err)
    then show ?thesis using s(1,2) by (subst audit_loop.simps) (simp add: step)
  next
    case (Inr b)
    then have b: "b = batch_from (docs e) c n" by (rule s(3))
    show ?thesis
    proof (cases "audit_documents F (db_documents b) c st")
      case (Inl err)
      then show ?thesis using s(1,2) by (subst audit_loop.simps) (simp add: step Inr)
    next
      case Res: (Inr x)
      obtain prev st1 where x: "x = (prev, st1)" by (cases x)
      have prev: "db_next_cursor b = prev"
        using audit_documents_cursor [OF Res [unfolded x]] nx by (simp add: b)
      have split: "drop m (docs e) = db_documents b @ drop (min (m + n) (length (docs e))) (docs e)"
        using split_at_batch [of m "docs e" n] by (simp add: b at1(1))
      have nonempty: "db_complete b \<or> db_documents b \<noteq> []"
        using less.prems(3) by (auto simp: b at1(1,2))
      show ?thesis
      proof (cases "db_complete b")
        case True
        then have "drop m (docs e) = db_documents b" by (simp add: b at1(1,2))
        then show ?thesis using s(1,2) True prev
          by (subst audit_loop.simps) (simp add: step Inr Res x)
      next
        case False
        then have "m + n < length (docs e)" by (simp add: b at1(2))
        then have less_measure: "length (docs e1) - min (m + n) (length (docs e)) < length (docs e) - m"
          using less.prems(3) s(2) by simp
        from less.hyps [OF less_measure, of "db_next_cursor b" st1] s(1,2) at1(3) less.prems(3)
        obtain e' r' where ih: "audit_loop E F n (db_next_cursor b) st1 e1 = Some (e', r')"
          "valid e'" "docs e' = docs e"
          "\<And>st'. r' = Inr st' \<Longrightarrow> \<exists>last. audit_documents F (drop (min (m + n) (length (docs e))) (docs e)) (db_next_cursor b) st1 = Inr (last, st')"
          by (auto simp: b)
        then show ?thesis using False nonempty prev
          by (subst audit_loop.simps)
            (simp add: step Inr Res x split audit_documents_append)
      qed
    qed
  qed
qed

lemma audit_result:
  assumes "valid e" and "0 < n"
  shows "\<exists>e' r. audit E F n e = Some (e', r) \<and> valid e' \<and> docs e' = docs e \<and>
    (\<forall>a. r = Inr a \<longrightarrow> corpus_audit_of F (docs e) = Inr a)"
proof -
  from audit_loop_result [OF assms(1) at_pos_start assms(2), of F "(empty_audit, fnv_basis, fnv_basis)"]
  obtain e' r where loop: "audit_loop E F n [] (empty_audit, fnv_basis, fnv_basis) e = Some (e', r)"
    "valid e'" "docs e' = docs e"
    "\<And>st'. r = Inr st' \<Longrightarrow> \<exists>last. audit_documents F (docs e) [] (empty_audit, fnv_basis, fnv_basis) = Inr (last, st')"
    by auto
  then show ?thesis using assms(2)
    by (cases r) (auto simp: audit_def corpus_audit_of_def)
qed

end

subsection \<open>Reconciling\<close>

lemma same_record_key: "same_record x y \<Longrightarrow> rd_key x = rd_key y"
  by (simp add: same_record_def Let_def)

lemma same_records_keys: "list_all2 same_record xs ys \<Longrightarrow> map rd_key xs = map rd_key ys"
  by (induction rule: list_all2_induct) (auto dest: same_record_key)

lemma all_zip_list_all2: "length xs = length ys \<Longrightarrow> list_all (\<lambda>(x, y). P x y) (zip xs ys) \<longleftrightarrow> list_all2 P xs ys"
  by (induction xs ys rule: list_induct2) auto

lemma zip_take_shorter: "length ys \<le> length xs \<Longrightarrow> zip xs ys = zip (take (length ys) xs) ys"
  by (induction xs ys rule: list_induct2') auto

lemma at_pos_take:
  assumes "at_pos xs m c" and "map rd_key (take m xs) = map rd_key (take m ys)" and "m \<le> length ys"
  shows "at_pos ys m c"
proof (cases m)
  case (Suc i)
  then show ?thesis using arg_cong [OF assms(2), of "\<lambda>keys. keys ! i"] assms(1,3) by (simp add: at_pos_def)
qed (use assms in \<open>simp add: at_pos_def\<close>)

lemma count_batch_keeps [simp]:
  "mp_run_id (count_batch rs p) = mp_run_id p"
  "mp_source_fingerprint (count_batch rs p) = mp_source_fingerprint p"
  "mp_last_document (count_batch rs p) = mp_last_document p"
  "mp_complete (count_batch rs p) = mp_complete p"
  "mp_documents (count_batch rs p) = mp_documents p + length rs"
  by (induction rs arbitrary: p) (simp_all add: count_batch_def)

lemma extend_prefix:
  assumes "list_all2 R (take m xs) (take m ys)" and "length Y \<le> length X \<and> list_all (\<lambda>(x, y). R x y) (zip X Y)"
    and "X = take n (drop m xs)" and "Y = take n (drop m ys)"
  shows "list_all2 R (take (m + length Y) xs) (take (m + length Y) ys)" "m \<le> length xs \<Longrightarrow> m + length Y \<le> length xs"
proof -
  have "list_all2 R (take (length Y) X) Y"
    using assms(2) zip_take_shorter [of Y X] all_zip_list_all2 [of "take (length Y) X" Y R] by simp
  moreover have "take (length Y) X = take (length Y) (drop m xs)" by (simp add: assms(3,4))
  moreover have "take (length Y) (drop m ys) = Y" by (cases "n \<le> length ys - m") (simp_all add: assms(4))
  ultimately show "list_all2 R (take (m + length Y) xs) (take (m + length Y) ys)"
    using assms(1) by (simp add: take_add list_all2_appendI)
  show "m \<le> length xs \<Longrightarrow> m + length Y \<le> length xs"
    using assms(2) by (simp add: assms(3)) linarith
qed

text \<open>Two endpoints of a migration, each keeping its side of the contract.\<close>

locale migration_pair = source: reading_contract S sdocs svalid + dest: writing_contract D ddocs dvalid
  for S :: "'s endpoint" and sdocs svalid and D :: "'d endpoint" and ddocs dvalid
begin

lemma reconcile_loop_result:
  assumes "svalid (fst w)" and "dvalid (snd w)" and "0 < n"
    and "at_pos (sdocs (fst w)) m c" and "m \<le> length (ddocs (snd w))"
    and "list_all2 same_record (take m (sdocs (fst w))) (take m (ddocs (snd w)))"
  shows "\<exists>s' d' r. reconcile_loop S D n c out0 w = Some ((s', d'), r) \<and>
    svalid s' \<and> dvalid d' \<and> sdocs s' = sdocs (fst w) \<and> ddocs d' = ddocs (snd w) \<and>
    (\<forall>p. r = Inr p \<longrightarrow>
       list_all2 same_record (take (length (ddocs d')) (sdocs s')) (ddocs d') \<and>
       length (ddocs d') \<le> length (sdocs s') \<and>
       at_pos (sdocs s') (length (ddocs d')) (mp_last_document p) \<and>
       (mp_complete p \<longleftrightarrow> length (ddocs d') = length (sdocs s')) \<and>
       mp_run_id p = mp_run_id out0 \<and> mp_source_fingerprint p = mp_source_fingerprint out0)"
  using assms
proof (induction "length (ddocs (snd w)) - m" arbitrary: w m c out0 rule: less_induct)
  case less
  obtain s d where w: "w = (s, d)" by (cases w)
  obtain s1 sr where ss: "ep_read_batch S s c n = (s1, sr)" by fastforce
  obtain d1 dr where dd: "ep_read_batch D d c n = (d1, dr)" by fastforce
  have sv: "svalid s" "dvalid d" and n: "0 < n" and sat: "at_pos (sdocs s) m c" and m: "m \<le> length (ddocs d)"
    and pre: "list_all2 same_record (take m (sdocs s)) (take m (ddocs d))" using less.prems by (simp_all add: w)
  have s1: "svalid s1" "sdocs s1 = sdocs s" "\<And>b. sr = Inr b \<Longrightarrow> b = batch_from (sdocs s) c n"
    using source.read_batch [OF sv(1) n ss] by auto
  have d1: "dvalid d1" "ddocs d1 = ddocs d" "\<And>b. dr = Inr b \<Longrightarrow> b = batch_from (ddocs d) c n"
    using dest.read_batch [OF sv(2) n dd] by auto
  note so = source.valid_ordered [OF sv(1)] and dord = dest.valid_ordered [OF sv(2)]
  have dat: "at_pos (ddocs d) m c"
    by (rule at_pos_take [OF sat same_records_keys [OF pre] m])
  show ?case
  proof (cases sr)
    case (Inl e)
    then show ?thesis using s1(1,2) d1(1,2) by (subst reconcile_loop.simps) (simp add: w ss dd)
  next
    case Sr: (Inr expected)
    show ?thesis
    proof (cases dr)
      case (Inl e)
      then show ?thesis using s1(1,2) d1(1,2) by (subst reconcile_loop.simps) (simp add: w ss dd Sr)
    next
      case Dr: (Inr actual)
      let ?X = "db_documents expected" and ?Y = "db_documents actual"
      have e: "expected = batch_from (sdocs s) c n" and a: "actual = batch_from (ddocs d) c n"
        using s1(3) [OF Sr] d1(3) [OF Dr] by auto
      note X = batch_at [OF so sat, of n, folded e] and Y = batch_at [OF dord dat, of n, folded a]
      define m' where "m' = m + length ?Y"
      have m': "m' = min (m + n) (length (ddocs d))" using m by (simp add: m'_def Y(1))
      show ?thesis
      proof (cases "length ?Y \<le> length ?X \<and> list_all (\<lambda>(x, y). same_record x y) (zip ?X ?Y)")
        case False
        then show ?thesis using s1(1,2) d1(1,2)
          by (subst reconcile_loop.simps) (auto simp: w ss dd Sr Dr)
      next
        case True
        have agree: "list_all2 same_record (take m' (sdocs s)) (take m' (ddocs d))" and short: "m' \<le> length (sdocs s)"
          using extend_prefix [OF pre _ X(1) Y(1)] True sat by (simp_all add: m'_def at_pos_def)
        define c' where "c' = (if ?Y \<noteq> [] then db_next_cursor actual else c)"
        have "at_pos (ddocs d) m' c'"
          using Y(3) next_at [OF dord dat, of n, folded a] by (cases "?Y = []") (simp_all add: m' c'_def)
        from at_pos_take [OF this same_records_keys [OF agree, symmetric] short]
        have at': "at_pos (sdocs s) m' c'" .
        define out where "out = count_batch ?Y out0\<lparr>mp_last_document := c'\<rparr>"
        have out: "mp_run_id out = mp_run_id out0" "mp_source_fingerprint out = mp_source_fingerprint out0"
          "mp_last_document out = c'" by (simp_all add: out_def)
        show ?thesis
        proof (cases "db_complete actual")
          case complete: True
          then have "m' = length (ddocs d)" by (simp add: m' Y(2))
          moreover have "db_complete expected \<and> length ?Y = length ?X \<longleftrightarrow> length (ddocs d) = length (sdocs s)"
            using complete True m sat by (auto simp: X(1,2) Y(1,2) at_pos_def)
          ultimately show ?thesis using s1(1,2) d1(1,2) True complete agree short at' out
            by (subst reconcile_loop.simps) (simp add: w ss dd Sr Dr Let_def flip: c'_def out_def)
        next
          case more: False
          show ?thesis
          proof (cases "?Y = [] \<or> db_complete expected")
            case True': True
            then show ?thesis using s1(1,2) d1(1,2) True more
              by (subst reconcile_loop.simps) (auto simp: w ss dd Sr Dr Let_def)
          next
            case False
            have step: "reconcile_loop S D n c out0 w = reconcile_loop S D n c' out (s1, d1)"
              using False True more by (subst reconcile_loop.simps) (simp add: w ss dd Sr Dr Let_def c'_def out_def)
            have dec: "length (ddocs (snd (s1, d1))) - m' < length (ddocs (snd w)) - m"
              using False more m n by (simp add: d1(2) w m' Y(1,2))
            have "m' \<le> length (ddocs d)" by (simp add: m')
            then show ?thesis
              unfolding step
              using less.hyps [OF dec, of c' out] s1(1,2) d1(1,2) n agree at' by (simp add: w out)
          qed
        qed
      qed
    qed
  qed
qed

end

subsection \<open>Sampling and copying\<close>

lemma ordered_docs_keys:
  "ordered_docs docs \<longleftrightarrow> sorted_wrt (<) (map rd_key docs) \<and> [] \<notin> set (map rd_key docs)"
  by (force simp: ordered_docs_def list_all_iff)

lemma ordered_docs_take: "ordered_docs docs \<Longrightarrow> ordered_docs (take n docs)"
  by (auto simp: ordered_docs_keys take_map [symmetric] sorted_wrt_take dest: in_set_takeD)

definition copyable :: "revisioned_document list \<Rightarrow> bool" where
  "copyable docs \<longleftrightarrow> list_all (\<lambda>r. pd_chunks (rd_document r) \<noteq> [] \<and> same_record r r) docs"

context reading_contract
begin

lemma sample_loop_result:
  assumes "valid e" and "at_pos (docs e) m c" and "0 < n"
  shows "\<exists>e' r. sample_loop E n k c samples e = Some (e', r) \<and> valid e' \<and> docs e' = docs e"
  using assms
proof (induction "length (docs e) - m" arbitrary: e m c samples rule: less_induct)
  case less
  obtain e1 r where step: "ep_read_batch E e c n = (e1, r)" by fastforce
  have s: "valid e1" "docs e1 = docs e" "\<And>b. r = Inr b \<Longrightarrow> b = batch_from (docs e) c n"
    using read_batch [OF less.prems(1,3) step] by auto
  note at1 = batch_at [OF valid_ordered [OF less.prems(1)] less.prems(2), of n]
  show ?case
  proof (cases "length samples < k \<and> (\<exists>b. r = Inr b \<and> \<not> db_complete b)")
    case False
    then show ?thesis using s(1,2) less.prems(1)
      by (subst sample_loop.simps) (cases r; auto simp: step)
  next
    case True
    then obtain b where r: "r = Inr b" "\<not> db_complete b" by auto
    note b = s(3) [OF r(1)]
    have "length (docs e1) - min (m + n) (length (docs e)) < length (docs e) - m"
      using r(2) less.prems(3) by (simp add: b at1(2) s(2))
    from less.hyps [OF this, of "db_next_cursor b" "sample_documents k (db_documents b) samples"] s(1,2) at1(3) less.prems(3)
    show ?thesis using True r(2) by (subst sample_loop.simps) (simp add: step r(1) b)
  qed
qed

end

context migration_pair
begin

lemma copy_loop_result:
  assumes "svalid (fst w)" and "dvalid (snd w)" and "0 < n" and "copyable (sdocs (fst w))"
    and "at_pos (sdocs (fst w)) m (mp_last_document p)"
    and "mp_complete p \<longleftrightarrow> m = length (sdocs (fst w))"
    and "list_all2 same_record (take m (sdocs (fst w))) (ddocs (snd w))"
  shows "\<exists>s' d' r. copy_loop S D n run au p batches w = Some ((s', d'), r) \<and>
    svalid s' \<and> dvalid d' \<and> sdocs s' = sdocs (fst w) \<and>
    (\<forall>x. r = Inr x \<longrightarrow> mp_complete (fst x) \<and> list_all2 same_record (sdocs s') (ddocs d'))"
  using assms
proof (induction "length (sdocs (fst w)) - m" arbitrary: w m p batches rule: less_induct)
  case less
  obtain s d where w: "w = (s, d)" by (cases w)
  show ?case
  proof (cases "mp_complete p")
    case True
    then show ?thesis using less.prems by (subst copy_loop.simps) (simp add: w)
  next
    case False
    obtain s1 r where step: "ep_read_batch S s (mp_last_document p) n = (s1, r)" by fastforce
    have s1: "svalid s1" "sdocs s1 = sdocs s" "\<And>b. r = Inr b \<Longrightarrow> b = batch_from (sdocs s) (mp_last_document p) n"
      using source.read_batch [OF _ less.prems(3) step] less.prems(1) by (auto simp: w)
    show ?thesis
    proof (cases r)
      case (Inl e)
      then show ?thesis using False s1(1,2) less.prems(2) by (subst copy_loop.simps) (simp add: w step)
    next
      case (Inr b)
      have so: "ordered_docs (sdocs s)" using source.valid_ordered less.prems(1) by (simp add: w)
      have sat: "at_pos (sdocs s) m (mp_last_document p)" using less.prems(5) by (simp add: w)
      note X = batch_at [OF so sat, of n, folded s1(3) [OF Inr]]
      define m' where "m' = min (m + n) (length (sdocs s))"
      have m: "m < length (sdocs s)" using False less.prems(6) sat by (auto simp: w at_pos_def)
      have X': "take m' (sdocs s) = take m (sdocs s) @ db_documents b"
        by (simp add: m'_def X(1) take_add min_def)
      have pre: "list_all2 same_record (take m (sdocs s)) (ddocs d)" using less.prems(7) by (simp add: w)
      have keys: "map rd_key (ddocs d @ db_documents b) = map rd_key (take m' (sdocs s))"
        using same_records_keys [OF pre] by (simp add: X')
      have ord: "ordered_docs (ddocs d @ db_documents b)"
        using ordered_docs_take [OF so, of m'] unfolding ordered_docs_keys keys .
      have sub: "set (db_documents b) \<subseteq> set (sdocs s)"
        using set_take_subset [of m' "sdocs s"] by (simp add: X')
      have good: "list_all (\<lambda>r. pd_chunks (rd_document r) \<noteq> []) (db_documents b)"
        "list_all2 same_record (db_documents b) (db_documents b)"
        using less.prems(4) sub by (auto simp: w copyable_def list_all_iff list_all2_same)
      define nxt where "nxt = count_batch (db_documents b)
         (p\<lparr>mp_last_document := db_next_cursor b, mp_complete := db_complete b\<rparr>)"
      obtain d1 wr where wr: "ep_write_batch D d run au b nxt = (d1, wr)" by fastforce
      have d1: "dvalid d1" "wr = Inr () \<Longrightarrow> ddocs d1 = ddocs d @ db_documents b"
        using dest.write_appends [OF _ ord good(1) wr] less.prems(2) by (auto simp: w)
      show ?thesis
      proof (cases wr)
        case Wr: (Inl e)
        then show ?thesis using False s1(1,2) d1(1)
          by (subst copy_loop.simps) (simp add: w step Inr wr flip: nxt_def)
      next
        case Wr: (Inr u)
        have dd: "ddocs d1 = ddocs d @ db_documents b" using d1(2) Wr by simp
        have dec: "length (sdocs (fst (s1, d1))) - m' < length (sdocs (fst w)) - m"
          using m less.prems(3) by (simp add: s1(2) w m'_def)
        have loop: "copy_loop S D n run au p batches w = copy_loop S D n run au nxt (batches + 1) (s1, d1)"
          using False by (subst copy_loop.simps) (simp add: w step Inr wr Wr flip: nxt_def)
        have "at_pos (sdocs s1) m' (mp_last_document nxt)" using X(3) by (simp add: nxt_def m'_def s1(2))
        moreover have "mp_complete nxt \<longleftrightarrow> m' = length (sdocs s1)"
          using X(2) by (auto simp: nxt_def m'_def s1(2))
        moreover have "list_all2 same_record (take m' (sdocs s1)) (ddocs d1)"
          using pre good(2) by (simp add: s1(2) dd X' list_all2_appendI)
        ultimately show ?thesis
          unfolding loop
          using less.hyps [OF dec, of nxt "batches + 1"] s1(1,2) d1(1) less.prems(3,4) by (simp add: w)
      qed
    qed
  qed
qed

lemma check_samples_result:
  assumes "svalid (fst w)" and "dvalid (snd w)"
  shows "\<exists>s' d' r. check_samples S D apart k samples sampled w = ((s', d'), r) \<and>
    svalid s' \<and> dvalid d' \<and> sdocs s' = sdocs (fst w) \<and> ddocs d' = ddocs (snd w)"
  using assms
proof (induction samples arbitrary: sampled w)
  case (Cons q samples)
  obtain s d where w: "w = (s, d)" by (cases w)
  obtain s1 sr where ss: "ep_exact S s q k = (s1, sr)" by fastforce
  obtain d1 dr where dd: "ep_exact D d q k = (d1, dr)" by fastforce
  have s1: "svalid s1" "sdocs s1 = sdocs s" using source.exact_stays [OF _ ss] Cons.prems by (auto simp: w)
  have d1: "dvalid d1" "ddocs d1 = ddocs d" using dest.exact_stays [OF _ dd] Cons.prems by (auto simp: w)
  show ?case
    using s1 d1 Cons.IH [of "(s1, d1)" "sampled + 1"] by (cases sr; cases dr) (auto simp: w ss dd)
qed (simp add: prod_eq_iff)

end

subsection \<open>A migration achieves what its report says\<close>

text \<open>An audited record compares equal to itself: its vectors hold no NaN.\<close>

lemma same_floats_refl: "list_all f32_finite v \<Longrightarrow> same_floats v v"
  by (induction v) (auto simp: same_floats_def f32_neq_def dest: f32_finite_not_nan)

lemma audit_chunks_finite:
  "audit_chunks F key i cs st = Inr st' \<Longrightarrow> list_all (\<lambda>c. list_all f32_finite (pc_embedding c)) cs"
  by (induction F key i cs st rule: audit_chunks.induct) (auto simp: Let_def split: if_splits)

lemma validated_copyable:
  assumes "validate_document F r st = Inr st'"
  shows "pd_chunks (rd_document r) \<noteq> []" "same_record r r"
proof -
  obtain st1 st2 where c: "audit_chunks F (rd_key r) 0 (pd_chunks (rd_document r)) st1 = Inr st2"
      and ne: "pd_chunks (rd_document r) \<noteq> []"
    using assms by (cases st) (auto simp: validate_document_def Let_def and_then_Inr split: if_splits)
  show "pd_chunks (rd_document r) \<noteq> []" by (rule ne)
  have "list_all (\<lambda>(x, y). same_chunk x y) (zip cs cs)"
    if "list_all (\<lambda>c. list_all f32_finite (pc_embedding c)) cs" for cs
    using that by (induction cs) (simp_all add: same_chunk_def same_floats_refl)
  from this [OF audit_chunks_finite [OF c]] show "same_record r r"
    by (simp add: same_record_def)
qed

lemma audited_copyable: "audit_documents F docs prev st = Inr x \<Longrightarrow> copyable docs"
  by (induction docs arbitrary: prev st)
    (auto simp: copyable_def and_then_Inr dest: validated_copyable split: if_splits)

lemma corpus_audit_copyable: "corpus_audit_of F docs = Inr a \<Longrightarrow> copyable docs"
  by (auto simp: corpus_audit_of_def and_then_Inr dest: audited_copyable)

text \<open>A step returns, keeps an invariant of the endpoints and, when it succeeds, establishes a fact.\<close>

definition achieves :: "('w \<Rightarrow> bool) \<Rightarrow> ('w, 'a) mig_step \<Rightarrow> 'w \<Rightarrow> ('a \<Rightarrow> 'w \<Rightarrow> bool) \<Rightarrow> bool" where
  "achieves I m w Q \<longleftrightarrow> (\<exists>w' r. m w = Some (w', r) \<and> I w' \<and> (\<forall>x. r = Inr x \<longrightarrow> Q x w'))"

lemma achieves_then:
  assumes "achieves I m w Q" and "\<And>x w'. I w' \<Longrightarrow> Q x w' \<Longrightarrow> achieves I (f x) w' R"
  shows "achieves I (mig_then m f) w R"
proof -
  obtain w' r where m: "m w = Some (w', r)" "I w'" "\<And>x. r = Inr x \<Longrightarrow> Q x w'"
    using assms(1) by (auto simp: achieves_def)
  show ?thesis
  proof (cases r)
    case (Inl e)
    then show ?thesis using m by (auto simp: achieves_def mig_then_def)
  next
    case (Inr x)
    then have "mig_then m f w = f x w'" by (simp add: mig_then_def m(1))
    then show ?thesis using assms(2) [OF m(2) m(3) [OF Inr]] by (simp add: achieves_def)
  qed
qed

lemma achieves_result: "I w \<Longrightarrow> (\<And>x. r = Inr x \<Longrightarrow> Q x w) \<Longrightarrow> achieves I (mig_result r) w Q"
  by (simp add: achieves_def mig_result_def)

lemma achieves_fail: "I w \<Longrightarrow> achieves I (mig_result (fail c msg)) w Q"
  by (rule achieves_result) simp_all

lemma achievesI:
  "m w = Some (w', r) \<Longrightarrow> I w' \<Longrightarrow> (\<And>x. r = Inr x \<Longrightarrow> Q x w') \<Longrightarrow> achieves I m w Q"
  by (auto simp: achieves_def)

lemma achieves_weaken: "achieves I m w Q \<Longrightarrow> (\<And>x w'. Q x w' \<Longrightarrow> R x w') \<Longrightarrow> achieves I m w R"
  by (auto simp: achieves_def)

lemma achieves_then_pair:
  assumes "achieves I m w Q" and "\<And>x y w'. I w' \<Longrightarrow> Q (x, y) w' \<Longrightarrow> achieves I (f x y) w' R"
  shows "achieves I (mig_then m (\<lambda>(x, y). f x y)) w R"
  by (rule achieves_then [OF assms(1)]) (use assms(2) in auto)

lemma achieves_unless:
  "(\<not> b \<Longrightarrow> achieves I m w Q) \<Longrightarrow> I w \<Longrightarrow> achieves I (if b then mig_result (fail c msg) else m) w Q"
  by (simp add: achieves_fail)

context migration_pair
begin

definition intact :: "revisioned_document list \<Rightarrow> 's \<times> 'd \<Rightarrow> bool" where
  "intact docs w \<longleftrightarrow> svalid (fst w) \<and> dvalid (snd w) \<and> sdocs (fst w) = docs"

lemma audit_source:
  assumes "intact docs w" and "0 < n"
  shows "achieves (intact docs) (at_source (audit S F n)) w
    (\<lambda>a w'. corpus_audit_of F docs = Inr a \<and> ddocs (snd w') = ddocs (snd w))"
  using source.audit_result [of "fst w" n F] assms
  by (cases w) (fastforce simp: achieves_def at_source_def intact_def)

lemma audit_dest:
  assumes "intact docs w" and "0 < n"
  shows "achieves (intact docs) (at_destination (audit D F n)) w
    (\<lambda>a w'. corpus_audit_of F (ddocs (snd w')) = Inr a \<and> ddocs (snd w') = ddocs (snd w))"
  using dest.audit_result [of "snd w" n F] assms
  by (cases w) (fastforce simp: achieves_def at_destination_def intact_def)

lemma ask_progress:
  "intact docs w \<Longrightarrow> achieves (intact docs) (at_destination (\<lambda>d. Some (ep_progress D d run))) w (\<lambda>_ _. True)"
  using dest.progress_stays [of "snd w" run]
  by (cases w; cases "ep_progress D (snd w) run") (auto simp: achieves_def at_destination_def intact_def)

lemma reconciling_full:
  assumes "intact docs w" and "0 < n"
  shows "achieves (intact docs) (reconcile S D run fingerprint n) w
    (\<lambda>p w'. at_pos docs (length (ddocs (snd w'))) (mp_last_document p) \<and>
       (mp_complete p \<longleftrightarrow> length (ddocs (snd w')) = length docs) \<and>
       list_all2 same_record (take (length (ddocs (snd w'))) docs) (ddocs (snd w')) \<and>
       ddocs (snd w') = ddocs (snd w) \<and> mp_run_id p = run \<and> mp_source_fingerprint p = fingerprint)"
proof -
  have "svalid (fst w)" "dvalid (snd w)" "sdocs (fst w) = docs" using assms(1) by (simp_all add: intact_def)
  note v = this
  have pre: "list_all2 same_record (take 0 (sdocs (fst w))) (take 0 (ddocs (snd w)))" by simp
  from reconcile_loop_result [OF v(1,2) assms(2) at_pos_start le0 pre, of "start_progress run fingerprint"]
  obtain s' d' r where r: "reconcile_loop S D n [] (start_progress run fingerprint) w = Some ((s', d'), r)"
    "svalid s'" "dvalid d'" "sdocs s' = docs" "ddocs d' = ddocs (snd w)"
    "\<forall>p. r = Inr p \<longrightarrow> list_all2 same_record (take (length (ddocs d')) (sdocs s')) (ddocs d') \<and>
       length (ddocs d') \<le> length (sdocs s') \<and> at_pos (sdocs s') (length (ddocs d')) (mp_last_document p) \<and>
       (mp_complete p \<longleftrightarrow> length (ddocs d') = length (sdocs s')) \<and>
       mp_run_id p = mp_run_id (start_progress run fingerprint) \<and>
       mp_source_fingerprint p = mp_source_fingerprint (start_progress run fingerprint)"
    unfolding v(3) by (elim exE conjE) (rule that)
  have R: "reconcile S D run fingerprint n w = Some ((s', d'), r)" by (simp only: reconcile_def r(1))
  have I: "intact docs (s', d')" by (simp add: intact_def r(2-4))
  have Q: "at_pos docs (length (ddocs d')) (mp_last_document p) \<and>
      (mp_complete p \<longleftrightarrow> length (ddocs d') = length docs) \<and>
      list_all2 same_record (take (length (ddocs d')) docs) (ddocs d') \<and>
      ddocs d' = ddocs (snd w) \<and> mp_run_id p = run \<and> mp_source_fingerprint p = fingerprint" if "r = Inr p" for p
    using r(6) [rule_format, OF that] r(5) unfolding r(4) by (simp add: start_progress_def)
  show ?thesis by (rule achievesI, rule R, rule I, unfold snd_conv, erule Q)
qed

lemma reconciling:
  assumes "intact docs w" and "0 < n"
  shows "achieves (intact docs) (reconcile S D run fingerprint n) w
    (\<lambda>p w'. at_pos docs (length (ddocs (snd w'))) (mp_last_document p) \<and>
       (mp_complete p \<longleftrightarrow> length (ddocs (snd w')) = length docs) \<and>
       list_all2 same_record (take (length (ddocs (snd w'))) docs) (ddocs (snd w')))"
  by (rule achieves_weaken [OF reconciling_full [OF assms]]) blast

lemma sampling:
  assumes "intact docs w" and "0 < n"
  shows "achieves (intact docs) (at_source (sample_loop S n k [] [])) w (\<lambda>_ w'. ddocs (snd w') = ddocs (snd w))"
  using source.sample_loop_result [of "fst w" 0 "[]" n k "[]"] assms
  by (cases w) (fastforce simp: achieves_def at_source_def intact_def)

lemma copying:
  assumes "intact docs w" and "0 < n" and "copyable docs"
    and "at_pos docs (length (ddocs (snd w))) (mp_last_document p)"
    and "mp_complete p \<longleftrightarrow> length (ddocs (snd w)) = length docs"
    and "list_all2 same_record (take (length (ddocs (snd w))) docs) (ddocs (snd w))"
  shows "achieves (intact docs) (copy_loop S D n run au p batches) w
    (\<lambda>_ w'. list_all2 same_record docs (ddocs (snd w')))"
  using copy_loop_result [of w n "length (ddocs (snd w))" p run au batches] assms
  by (fastforce simp: achieves_def intact_def)

lemma finishing:
  "intact docs w \<Longrightarrow> achieves (intact docs) (at_destination (\<lambda>d. Some (ep_finish D d run au p))) w
     (\<lambda>_ w'. ddocs (snd w') = ddocs (snd w))"
  using dest.finish_stays [of "snd w" run au p]
  by (cases w; cases "ep_finish D (snd w) run au p") (auto simp: achieves_def at_destination_def intact_def)

lemma comparing_samples:
  "intact docs w \<Longrightarrow> achieves (intact docs) (\<lambda>w. Some (check_samples S D apart k samples 0 w)) w
     (\<lambda>_ w'. ddocs (snd w') = ddocs (snd w))"
  using check_samples_result [of w apart k samples 0] by (fastforce simp: achieves_def intact_def)

end

context migration_pair
begin

definition copied :: "fp \<Rightarrow> revisioned_document list \<Rightarrow> migration_report \<Rightarrow> 's \<times> 'd \<Rightarrow> bool" where
  "copied F docs rep w \<longleftrightarrow> list_all2 same_record docs (ddocs (snd w)) \<and> mr_complete rep \<and>
     corpus_audit_of F docs = Inr (mr_source_audit rep) \<and>
     corpus_audit_of F (ddocs (snd w)) = Inr (mr_destination_audit rep) \<and>
     mr_source_audit rep = mr_destination_audit rep"

lemma achieves_conclude:
  assumes "achieves (intact docs) (at_destination (audit D F n)) w
      (\<lambda>a w'. corpus_audit_of F (ddocs (snd w')) = Inr a \<and> ddocs (snd w') = ddocs (snd w))"
    and "list_all2 same_record docs (ddocs (snd w))" and "corpus_audit_of F docs = Inr au"
  shows "achieves (intact docs) (mig_then (at_destination (audit D F n)) (\<lambda>destination_audit.
    if au \<noteq> destination_audit
    then mig_result (fail Errc_corrupt_index ''migration destination audit does not match the source'')
    else mig_then (\<lambda>w. Some (check_samples S D apart k samples 0 w)) (\<lambda>sampled.
      mig_result (Inr \<lparr>mr_id = run, mr_direction = direction, mr_source = source, mr_destination = destination,
        mr_resumed = resumed, mr_complete = True, mr_batches = batches, mr_sampled_searches = sampled,
        mr_source_audit = au, mr_destination_audit = destination_audit\<rparr>)))) w (copied F docs)"
proof (rule achieves_then [OF assms(1)])
  fix a w' assume i: "intact docs w'" and a: "corpus_audit_of F (ddocs (snd w')) = Inr a \<and> ddocs (snd w') = ddocs (snd w)"
  have rec: "list_all2 same_record docs (ddocs (snd w'))" using assms(2) a by simp
  show "achieves (intact docs) (if au \<noteq> a
    then mig_result (fail Errc_corrupt_index ''migration destination audit does not match the source'')
    else mig_then (\<lambda>w. Some (check_samples S D apart k samples 0 w)) (\<lambda>sampled.
      mig_result (Inr \<lparr>mr_id = run, mr_direction = direction, mr_source = source, mr_destination = destination,
        mr_resumed = resumed, mr_complete = True, mr_batches = batches, mr_sampled_searches = sampled,
        mr_source_audit = au, mr_destination_audit = a\<rparr>))) w' (copied F docs)"
    (is "achieves ?I (if _ then ?fail else mig_then ?check ?report) _ _")
  proof (cases "au = a")
    case False
    then show ?thesis using achieves_fail i by simp
  next
    case True
    have "achieves ?I (mig_then ?check ?report) w' (copied F docs)"
    proof (rule achieves_then [OF comparing_samples [OF i]], rule achieves_result)
      fix sampled w'' x assume j: "intact docs w''" "ddocs (snd w'') = ddocs (snd w')"
      show "intact docs w''" by (rule j(1))
      show "Inr \<lparr>mr_id = run, mr_direction = direction, mr_source = source, mr_destination = destination,
          mr_resumed = resumed, mr_complete = True, mr_batches = batches, mr_sampled_searches = sampled,
          mr_source_audit = au, mr_destination_audit = a\<rparr> = Inr x \<Longrightarrow> copied F docs x w''"
        using rec a assms(3) True j(2) by (auto simp: copied_def)
    qed
    then show ?thesis using True by simp
  qed
qed

lemma migrate_achieves:
  assumes "intact docs w"
  shows "achieves (intact docs) (migrate S D F apart direction options) w (copied F docs)"
proof (cases "direction = [] \<or> mo_batch_size options = 0 \<or> mo_batch_size options > 10000 \<or>
    mo_sample_searches options > 1000")
  case True
  then show ?thesis using achieves_fail [of "intact docs" w] assms by (simp add: migrate_def Let_def)
next
  case False
  then have n: "0 < mo_batch_size options" by simp
  have names: "achieves (intact docs) (\<lambda>(s, d). Some ((s, d), Inr (ep_description S s, ep_description D d))) w (\<lambda>_ _. True)"
    if "intact docs w" for w using that by (cases w) (simp add: achieves_def)
  show ?thesis
    unfolding migrate_def Let_def if_not_P [OF False]
    apply (rule achieves_then [OF audit_source [OF assms n]])
    apply (rule achieves_then_pair [OF names], assumption)
    apply (rule achieves_then [OF ask_progress], assumption)
    apply (rule achieves_then [OF reconciling [OF _ n]], assumption)
    apply (rule achieves_unless)
    apply (rule achieves_then [OF sampling [OF _ n]], assumption)
    apply (rule achieves_then_pair [OF copying [OF _ n]], assumption, blast intro: corpus_audit_copyable)
       apply (simp_all only: split_paired_all)
    apply (rule achieves_then [OF finishing], assumption)
    apply (rule achieves_then [OF audit_source [OF _ n]], assumption)
    apply (rule achieves_unless)
    apply (rule achieves_conclude [OF audit_dest [OF _ n]], assumption)
     apply simp_all
    done
qed

end

context migration_pair
begin

lemma migrate_copies:
  assumes "svalid s" and "dvalid d"
  shows "\<exists>s' d' r. migrate S D F apart direction options (s, d) = Some ((s', d'), r) \<and> sdocs s' = sdocs s \<and>
    (\<forall>report. r = Inr report \<longrightarrow>
       list_all2 same_record (sdocs s) (ddocs d') \<and> mr_complete report \<and>
       corpus_audit_of F (sdocs s) = Inr (mr_source_audit report) \<and>
       mr_destination_audit report = mr_source_audit report)"
proof -
  have "intact (sdocs s) (s, d)" using assms by (simp add: intact_def)
  from migrate_achieves [OF this, of F apart direction options]
  obtain w' r where "migrate S D F apart direction options (s, d) = Some (w', r)" "intact (sdocs s) w'"
      "\<And>report. r = Inr report \<Longrightarrow> copied F (sdocs s) report w'"
    by (auto simp: achieves_def)
  then show ?thesis by (cases w') (auto simp: intact_def copied_def)
qed

end

subsection \<open>Over endpoints that do not fail a migration completes\<close>

text \<open>
  Endpoints whose calls succeed: \<open>fits\<close> tells which corpora the destination can store, \<open>found\<close> what
  the exact search over a corpus returns.
\<close>

locale reliable_pair = migration_pair S sdocs svalid D ddocs dvalid
  for S :: "'s endpoint" and sdocs svalid and D :: "'d endpoint" and ddocs dvalid +
  fixes fits :: "corpus_audit \<Rightarrow> revisioned_document list \<Rightarrow> bool"
    and found :: "revisioned_document list \<Rightarrow> vec \<Rightarrow> nat \<Rightarrow> candidate list result"
  assumes source_reads: "svalid s \<Longrightarrow> 0 < n \<Longrightarrow> \<exists>b. snd (ep_read_batch S s c n) = Inr b"
    and dest_reads: "dvalid d \<Longrightarrow> 0 < n \<Longrightarrow> \<exists>b. snd (ep_read_batch D d c n) = Inr b"
    and writes: "dvalid d \<Longrightarrow> ordered_docs (ddocs d @ db_documents b) \<Longrightarrow>
      list_all (\<lambda>r. pd_chunks (rd_document r) \<noteq> []) (db_documents b) \<Longrightarrow>
      fits au (ddocs d @ db_documents b) \<Longrightarrow> mp_run_id p = run \<Longrightarrow> mp_source_fingerprint p = au_fingerprint au \<Longrightarrow>
      snd (ep_write_batch D d run au b p) = Inr ()"
    and finishes: "dvalid d \<Longrightarrow> mp_complete p \<Longrightarrow> mp_run_id p = run \<Longrightarrow>
      mp_source_fingerprint p = au_fingerprint au \<Longrightarrow> snd (ep_finish D d run au p) = Inr ()"
    and source_exact: "svalid s \<Longrightarrow> snd (ep_exact S s q k) = found (sdocs s) q k"
    and dest_exact: "dvalid d \<Longrightarrow> snd (ep_exact D d q k) = found (ddocs d) q k"
begin

lemma source_read_step:
  assumes "svalid s" and "0 < n"
  shows "\<exists>s'. ep_read_batch S s c n = (s', Inr (batch_from (sdocs s) c n)) \<and> svalid s' \<and> sdocs s' = sdocs s"
proof -
  obtain s' r where step: "ep_read_batch S s c n = (s', r)" by fastforce
  then show ?thesis using source_reads [OF assms, of c] source.read_batch [OF assms step] by auto
qed

lemma dest_read_step:
  assumes "dvalid d" and "0 < n"
  shows "\<exists>d'. ep_read_batch D d c n = (d', Inr (batch_from (ddocs d) c n)) \<and> dvalid d' \<and> ddocs d' = ddocs d"
proof -
  obtain d' r where step: "ep_read_batch D d c n = (d', r)" by fastforce
  then show ?thesis using dest_reads [OF assms, of c] dest.read_batch [OF assms step] by auto
qed

end

lemma audit_loop_returns:
  assumes "\<And>e c. valid e \<Longrightarrow> \<exists>e'. ep_read_batch E e c n = (e', Inr (batch_from (docs e) c n)) \<and> valid e' \<and> docs e' = docs e"
    and "valid e" and "ordered_docs (docs e)" and "at_pos (docs e) m c" and "0 < n"
    and "audit_documents F (drop m (docs e)) c st = Inr (final, st')"
  shows "\<exists>e'. audit_loop E F n c st e = Some (e', Inr st') \<and> valid e' \<and> docs e' = docs e"
  using assms(2-)
proof (induction "length (docs e) - m" arbitrary: e m c st rule: less_induct)
  case less
  let ?b = "batch_from (docs e) c n"
  obtain e1 where e1: "ep_read_batch E e c n = (e1, Inr ?b)" "valid e1" "docs e1 = docs e"
    using assms(1) [OF less.prems(1), of c] by auto
  note X = batch_at [OF less.prems(2,3), of n] and nx = next_at [OF less.prems(2,3), of n]
  have "audit_documents F (db_documents ?b @ drop (min (m + n) (length (docs e))) (docs e)) c st = Inr (final, st')"
    using less.prems(5) split_at_batch [of m "docs e" n] by (simp add: X(1))
  then obtain prev st1 where a: "audit_documents F (db_documents ?b) c st = Inr (prev, st1)"
    "audit_documents F (drop (min (m + n) (length (docs e))) (docs e)) prev st1 = Inr (final, st')"
    by (auto simp: audit_documents_append and_then_Inr)
  have prev: "db_next_cursor ?b = prev" using audit_documents_cursor [OF a(1)] nx by simp
  show ?case
  proof (cases "db_complete ?b")
    case True
    then have "drop (min (m + n) (length (docs e))) (docs e) = []" by (simp add: X(2))
    then show ?thesis using True a e1 prev by (subst audit_loop.simps) simp
  next
    case False
    then have "length (docs e1) - min (m + n) (length (docs e)) < length (docs e) - m"
      using less.prems(4) by (simp add: X(2) e1(3))
    from less.hyps [OF this e1(2), of prev st1] e1(3) X(3) prev less.prems(2,4) a(2)
    show ?thesis using False a(1) e1(1) prev less.prems(4)
      by (subst audit_loop.simps) (simp add: X(1,2))
  qed
qed

context reliable_pair
begin

lemma source_audit_returns:
  assumes "svalid s" and "0 < n" and "corpus_audit_of F (sdocs s) = Inr a"
  shows "\<exists>s'. audit S F n s = Some (s', Inr a) \<and> svalid s' \<and> sdocs s' = sdocs s"
proof -
  obtain final st' where "audit_documents F (drop 0 (sdocs s)) [] (empty_audit, fnv_basis, fnv_basis) = Inr (final, st')"
    and a: "a = finish_audit st'" using assms(3) by (auto simp: corpus_audit_of_def and_then_Inr)
  from audit_loop_returns [of svalid S n sdocs, OF source_read_step assms(1) source.valid_ordered [OF assms(1)] at_pos_start assms(2) this(1)]
  show ?thesis using assms(2) by (auto simp: audit_def a)
qed

lemma dest_audit_returns:
  assumes "dvalid d" and "0 < n" and "corpus_audit_of F (ddocs d) = Inr a"
  shows "\<exists>d'. audit D F n d = Some (d', Inr a) \<and> dvalid d' \<and> ddocs d' = ddocs d"
proof -
  obtain final st' where "audit_documents F (drop 0 (ddocs d)) [] (empty_audit, fnv_basis, fnv_basis) = Inr (final, st')"
    and a: "a = finish_audit st'" using assms(3) by (auto simp: corpus_audit_of_def and_then_Inr)
  from audit_loop_returns [of dvalid D n ddocs, OF dest_read_step assms(1) dest.valid_ordered [OF assms(1)] at_pos_start assms(2) this(1)]
  show ?thesis using assms(2) by (auto simp: audit_def a)
qed

end

definition corpus_vectors :: "revisioned_document list \<Rightarrow> vec set" where
  "corpus_vectors docs = pc_embedding ` (\<Union>r \<in> set docs. set (pd_chunks (rd_document r)))"

lemma corpus_vectors_mono: "set xs \<subseteq> set ys \<Longrightarrow> corpus_vectors xs \<subseteq> corpus_vectors ys"
  by (auto simp: corpus_vectors_def)

lemma sample_chunks_subset: "set (sample_chunks n cs samples) \<subseteq> set samples \<union> pc_embedding ` set cs"
  by (induction n cs samples rule: sample_chunks.induct) (auto simp: Let_def)

lemma sample_documents_subset: "set (sample_documents n rs samples) \<subseteq> set samples \<union> corpus_vectors rs"
proof (induction rs arbitrary: samples)
  case (Cons r rs)
  then show ?case
    using sample_chunks_subset [of n "pd_chunks (rd_document r)" samples]
    by (fastforce simp: sample_documents_def corpus_vectors_def)
qed (simp add: sample_documents_def)

lemma batch_of_prefix:
  assumes "ys = take (length ys) xs"
  shows "length (take n (drop m ys)) \<le> length (take n (drop m xs))"
    and "take n (drop m ys) = take (length (take n (drop m ys))) (take n (drop m xs))"
proof -
  obtain zs where xs: "xs = ys @ zs" using append_take_drop_id [of "length ys" xs] assms by metis
  then have "take n (drop m xs) = take n (drop m ys) @ take (n - (length ys - m)) (drop (m - length ys) zs)"
    by simp
  then obtain Z where X: "take n (drop m xs) = take n (drop m ys) @ Z" by blast
  show "length (take n (drop m ys)) \<le> length (take n (drop m xs))" unfolding X by simp
  show "take n (drop m ys) = take (length (take n (drop m ys))) (take n (drop m xs))"
    unfolding X by (rule take_len_append [OF refl, symmetric])
qed

lemma zip_same_records:
  "list_all (\<lambda>r. same_record r r) ys \<Longrightarrow> length ys \<le> length xs \<Longrightarrow> ys = take (length ys) xs \<Longrightarrow>
     list_all (\<lambda>(x, y). same_record x y) (zip xs ys)"
  by (induction xs ys rule: list_induct2') auto

context reliable_pair
begin

lemma reconcile_loop_returns:
  assumes "svalid (fst w)" and "dvalid (snd w)" and "0 < n" and "copyable (sdocs (fst w))"
    and "ddocs (snd w) = take (length (ddocs (snd w))) (sdocs (fst w))"
    and "at_pos (sdocs (fst w)) m c" and "m \<le> length (ddocs (snd w))"
  shows "\<exists>w' p. reconcile_loop S D n c out0 w = Some (w', Inr p)"
  using assms
proof (induction "length (ddocs (snd w)) - m" arbitrary: w m c out0 rule: less_induct)
  case less
  obtain s d where w: "w = (s, d)" by (cases w)
  have v: "svalid s" "dvalid d" "ddocs d = take (length (ddocs d)) (sdocs s)" "m \<le> length (ddocs d)"
    using less.prems by (simp_all add: w)
  obtain s1 where s1: "ep_read_batch S s c n = (s1, Inr (batch_from (sdocs s) c n))" "svalid s1" "sdocs s1 = sdocs s"
    using source_read_step [OF v(1) less.prems(3), of c] by auto
  obtain d1 where d1: "ep_read_batch D d c n = (d1, Inr (batch_from (ddocs d) c n))" "dvalid d1" "ddocs d1 = ddocs d"
    using dest_read_step [OF v(2) less.prems(3), of c] by auto
  have sat: "at_pos (sdocs s) m c" using less.prems(6) by (simp add: w)
  have "take m (ddocs d) = take m (sdocs s)" using v(3,4) by (metis take_take min.absorb1)
  then have dat: "at_pos (ddocs d) m c" using at_pos_take [OF sat, of "ddocs d"] v(4) by simp
  let ?X = "batch_from (sdocs s) c n" and ?Y = "batch_from (ddocs d) c n"
  note X = batch_at [OF source.valid_ordered [OF v(1)] sat, of n]
  note Y = batch_at [OF dest.valid_ordered [OF v(2)] dat, of n]
  have len: "length (ddocs d) \<le> length (sdocs s)" by (metis v(3) length_take min.cobounded1)
  have YX: "length (db_documents ?Y) \<le> length (db_documents ?X)"
      "db_documents ?Y = take (length (db_documents ?Y)) (db_documents ?X)"
    using batch_of_prefix [OF v(3), of n m] by (simp_all only: X(1) Y(1))
  have "set (db_documents ?Y) \<subseteq> set (sdocs s)"
    using YX(2) by (metis X(1) set_take_subset set_drop_subset subset_trans)
  then have "list_all (\<lambda>r. same_record r r) (db_documents ?Y)"
    using less.prems(4) by (auto simp: copyable_def list_all_iff w)
  then have agree: "list_all (\<lambda>(x, y). same_record x y) (zip (db_documents ?X) (db_documents ?Y))"
    by (rule zip_same_records [OF _ YX])
  show ?case
  proof (cases "db_complete ?Y")
    case True
    then show ?thesis using agree YX(1) by (subst reconcile_loop.simps) (simp add: w s1(1) d1(1) Let_def)
  next
    case False
    then have more: "db_documents ?Y \<noteq> []" "\<not> db_complete ?X" "m + n < length (ddocs d)"
      using less.prems(3) len by (auto simp: X(2) Y(1,2))
    then have dec: "length (ddocs (snd (s1, d1))) - (m + n) < length (ddocs (snd w)) - m"
      using less.prems(3) by (simp add: d1(3) w)
    have "at_pos (ddocs d) (m + n) (db_next_cursor ?Y)" using Y(3) more(3) by simp
    then have at': "at_pos (sdocs s) (m + n) (db_next_cursor ?Y)"
      using at_pos_take [of "ddocs d" "m + n" _ "sdocs s"] v(3) more(3) len by (metis take_take min.absorb1 less_imp_le order_trans)
    from less.hyps [OF dec, of "db_next_cursor ?Y"] s1(2,3) d1(2,3) less.prems(3,4) v(3) at' more(3)
    show ?thesis using False agree YX(1) more by (subst reconcile_loop.simps) (simp add: w s1(1) d1(1) Let_def)
  qed
qed

lemma sample_loop_returns:
  assumes "svalid s" and "at_pos (sdocs s) m c" and "0 < n" and "set samples \<subseteq> corpus_vectors (sdocs s)"
  shows "\<exists>s' x. sample_loop S n k c samples s = Some (s', Inr x) \<and> set x \<subseteq> corpus_vectors (sdocs s)"
  using assms
proof (induction "length (sdocs s) - m" arbitrary: s m c samples rule: less_induct)
  case less
  let ?b = "batch_from (sdocs s) c n"
  obtain s1 where s1: "ep_read_batch S s c n = (s1, Inr ?b)" "svalid s1" "sdocs s1 = sdocs s"
    using source_read_step [OF less.prems(1,3), of c] by auto
  note X = batch_at [OF source.valid_ordered [OF less.prems(1)] less.prems(2), of n]
  have "set (db_documents ?b) \<subseteq> set (sdocs s)" by (metis X(1) set_take_subset set_drop_subset subset_trans)
  then have sampled: "set (sample_documents k (db_documents ?b) samples) \<subseteq> corpus_vectors (sdocs s)"
    using sample_documents_subset [of k "db_documents ?b" samples] less.prems(4) corpus_vectors_mono by blast
  show ?case
  proof (cases "length samples < k \<and> \<not> db_complete ?b")
    case False
    then show ?thesis using sampled less.prems(4) by (subst sample_loop.simps) (auto simp: s1(1))
  next
    case True
    then have "length (sdocs s1) - min (m + n) (length (sdocs s)) < length (sdocs s) - m"
      using less.prems(3) by (auto simp: s1(3) X(2))
    from less.hyps [OF this, of "db_next_cursor ?b" "sample_documents k (db_documents ?b) samples"] s1(2,3) X(3) less.prems(3) sampled
    show ?thesis using True by (subst sample_loop.simps) (simp add: s1(1))
  qed
qed

lemma copy_loop_returns:
  assumes "svalid (fst w)" and "dvalid (snd w)" and "0 < n" and "copyable (sdocs (fst w))"
    and "at_pos (sdocs (fst w)) m (mp_last_document p)"
    and "mp_complete p \<longleftrightarrow> m = length (sdocs (fst w))"
    and "ddocs (snd w) = take m (sdocs (fst w))"
    and "\<And>k. fits au (take k (sdocs (fst w)))"
    and "mp_run_id p = run" and "mp_source_fingerprint p = au_fingerprint au"
  shows "\<exists>s' d' p' b'. copy_loop S D n run au p batches w = Some ((s', d'), Inr (p', b')) \<and>
    ddocs d' = sdocs (fst w) \<and> mp_run_id p' = run \<and> mp_source_fingerprint p' = au_fingerprint au"
  using assms
proof (induction "length (sdocs (fst w)) - m" arbitrary: w m p batches rule: less_induct)
  case less
  obtain s d where w: "w = (s, d)" by (cases w)
  show ?case
  proof (cases "mp_complete p")
    case True
    then show ?thesis using less.prems by (subst copy_loop.simps) (simp add: w)
  next
    case False
    have v: "svalid s" "dvalid d" using less.prems by (simp_all add: w)
    let ?b = "batch_from (sdocs s) (mp_last_document p) n"
    obtain s1 where s1: "ep_read_batch S s (mp_last_document p) n = (s1, Inr ?b)" "svalid s1" "sdocs s1 = sdocs s"
      using source_read_step [OF v(1) less.prems(3), of "mp_last_document p"] by auto
    have so: "ordered_docs (sdocs s)" by (rule source.valid_ordered [OF v(1)])
    have sat: "at_pos (sdocs s) m (mp_last_document p)" using less.prems(5) by (simp add: w)
    note X = batch_at [OF so sat, of n]
    define m' where "m' = min (m + n) (length (sdocs s))"
    have m: "m < length (sdocs s)" using False less.prems(6) sat by (auto simp: w at_pos_def)
    have X': "ddocs d @ db_documents ?b = take m' (sdocs s)"
      using less.prems(7) by (simp add: m'_def X(1) take_add min_def w)
    have sub: "set (db_documents ?b) \<subseteq> set (sdocs s)"
      by (metis X(1) set_take_subset set_drop_subset subset_trans)
    have good: "list_all (\<lambda>r. pd_chunks (rd_document r) \<noteq> []) (db_documents ?b)"
      using less.prems(4) sub by (auto simp: w copyable_def list_all_iff)
    have ord: "ordered_docs (ddocs d @ db_documents ?b)" unfolding X' by (rule ordered_docs_take [OF so])
    define nxt where "nxt = count_batch (db_documents ?b)
       (p\<lparr>mp_last_document := db_next_cursor ?b, mp_complete := db_complete ?b\<rparr>)"
    have ids: "mp_run_id nxt = run" "mp_source_fingerprint nxt = au_fingerprint au"
      using less.prems(9,10) by (simp_all add: nxt_def)
    have "fits au (ddocs d @ db_documents ?b)" unfolding X' using less.prems(8) [of m'] by (simp add: w)
    from writes [OF v(2) ord good this ids] obtain d1 where wr: "ep_write_batch D d run au ?b nxt = (d1, Inr ())"
      by (cases "ep_write_batch D d run au ?b nxt") auto
    have d1: "dvalid d1" "ddocs d1 = take m' (sdocs s)"
      using dest.write_appends [OF v(2) ord good wr] by (simp_all add: X')
    have dec: "length (sdocs (fst (s1, d1))) - m' < length (sdocs (fst w)) - m"
      using m less.prems(3) by (simp add: s1(3) w m'_def)
    have loop: "copy_loop S D n run au p batches w = copy_loop S D n run au nxt (batches + 1) (s1, d1)"
      using False by (subst copy_loop.simps) (simp add: w s1(1) wr flip: nxt_def)
    have "at_pos (sdocs s1) m' (mp_last_document nxt)" using X(3) by (simp add: nxt_def m'_def s1(3))
    moreover have "mp_complete nxt \<longleftrightarrow> m' = length (sdocs s1)" using X(2) by (auto simp: nxt_def m'_def s1(3))
    ultimately show ?thesis
      unfolding loop
      using less.hyps [OF dec, of nxt "batches + 1"] s1(2,3) d1 less.prems(3,4,8) ids by (simp add: w)
  qed
qed

lemma same_candidates_refl: "(\<And>x. \<not> apart x x) \<Longrightarrow> same_candidates apart xs xs"
  by (induction xs) simp_all

lemma check_samples_returns:
  assumes "svalid (fst w)" and "dvalid (snd w)" and "ddocs (snd w) = sdocs (fst w)"
    and "\<And>x. \<not> apart x x" and "\<forall>q \<in> set samples. \<exists>xs. found (sdocs (fst w)) q k = Inr xs"
  shows "\<exists>s' d' x. check_samples S D apart k samples sampled w = ((s', d'), Inr x) \<and> ddocs d' = sdocs (fst w)"
  using assms
proof (induction samples arbitrary: sampled w)
  case (Cons q samples)
  obtain s d where w: "w = (s, d)" by (cases w)
  obtain xs where xs: "found (sdocs s) q k = Inr xs" using Cons.prems(5) by (auto simp: w)
  obtain s1 where s1: "ep_exact S s q k = (s1, Inr xs)" "svalid s1" "sdocs s1 = sdocs s"
    using source.exact_stays [of s q k] source_exact [of s q k] Cons.prems(1) xs
    by (cases "ep_exact S s q k") (auto simp: w)
  obtain d1 where d1: "ep_exact D d q k = (d1, Inr xs)" "dvalid d1" "ddocs d1 = ddocs d"
    using dest.exact_stays [of d q k] dest_exact [of d q k] Cons.prems(2,3) xs
    by (cases "ep_exact D d q k") (auto simp: w)
  show ?case
    using Cons.IH [of "(s1, d1)" "sampled + 1"] Cons.prems s1 d1
    by (simp add: w same_candidates_refl)
qed (simp add: prod_eq_iff)

end

context reliable_pair
begin

lemma reconcile_returns:
  assumes "intact docs w" and "0 < n" and "copyable docs" and "ddocs (snd w) = take (length (ddocs (snd w))) docs"
  shows "\<exists>w' p. reconcile S D run fingerprint n w = Some (w', Inr p) \<and> intact docs w' \<and>
    at_pos docs (length (ddocs (snd w'))) (mp_last_document p) \<and>
    (mp_complete p \<longleftrightarrow> length (ddocs (snd w')) = length docs) \<and>
    ddocs (snd w') = ddocs (snd w) \<and> mp_run_id p = run \<and> mp_source_fingerprint p = fingerprint"
proof -
  have v: "svalid (fst w)" "dvalid (snd w)" "sdocs (fst w) = docs" using assms(1) by (simp_all add: intact_def)
  obtain w' p where "reconcile S D run fingerprint n w = Some (w', Inr p)"
    using reconcile_loop_returns [OF v(1,2) assms(2), unfolded v(3), OF assms(3,4) at_pos_start le0]
    unfolding reconcile_def by blast
  with reconciling_full [OF assms(1,2), of run fingerprint] show ?thesis
    unfolding achieves_def by (elim exE conjE) (intro exI conjI, assumption, auto)
qed

text \<open>
  Over reliable endpoints a migration whose source passes its audit, and whose destination holds a
  prefix of the source, completes.
\<close>

lemma migrate_completes:
  assumes "svalid s" and "dvalid d" and "corpus_audit_of F (sdocs s) = Inr a"
    and "ddocs d = take k (sdocs s)"
    and "snd (ep_progress D d (run_id direction (au_fingerprint a))) = Inr prior"
    and "prior = None \<or> mp_source_fingerprint (the prior) = au_fingerprint a"
    and "\<And>k. fits a (take k (sdocs s))" and "\<And>x. \<not> apart x x"
    and "\<And>q k. q \<in> corpus_vectors (sdocs s) \<Longrightarrow> \<exists>xs. found (sdocs s) q k = Inr xs"
    and "direction \<noteq> []" and "0 < mo_batch_size options" and "mo_batch_size options \<le> 10000"
    and "mo_sample_searches options \<le> 1000"
  shows "\<exists>s' d' rep. migrate S D F apart direction options (s, d) = Some ((s', d'), Inr rep) \<and>
    ddocs d' = sdocs s \<and> mr_complete rep \<and> mr_source_audit rep = a"
proof -
  let ?n = "mo_batch_size options" and ?run = "run_id direction (au_fingerprint a)"
  define docs where "docs = sdocs s"
  obtain s1 where s1: "audit S F ?n s = Some (s1, Inr a)" "svalid s1" "sdocs s1 = docs"
    using source_audit_returns [OF assms(1,11,3)] by (auto simp: docs_def)
  obtain d1 where d1: "ep_progress D d ?run = (d1, Inr prior)" "dvalid d1" "ddocs d1 = take k docs"
    using dest.progress_stays [OF assms(2), of ?run] assms(4,5) by (cases "ep_progress D d ?run") (auto simp: docs_def)
  have cp: "copyable docs" using corpus_audit_copyable [OF assms(3)] by (simp add: docs_def)
  have i1: "intact docs (s1, d1)" by (simp add: intact_def s1 d1)
  have pre1: "ddocs (snd (s1, d1)) = take (length (ddocs (snd (s1, d1)))) docs"
    by (cases "k \<le> length docs") (simp_all add: d1(3))
  from reconcile_returns [OF i1 assms(11) cp pre1, of ?run "au_fingerprint a"]
  obtain w2 p where r2': "reconcile S D ?run (au_fingerprint a) ?n (s1, d1) = Some (w2, Inr p)" "intact docs w2"
    and p2': "at_pos docs (length (ddocs (snd w2))) (mp_last_document p)"
      "mp_complete p \<longleftrightarrow> length (ddocs (snd w2)) = length docs" "ddocs (snd w2) = ddocs (snd (s1, d1))"
      "mp_run_id p = ?run" "mp_source_fingerprint p = au_fingerprint a" by blast
  obtain s2 d2 where w2: "w2 = (s2, d2)" by (cases w2)
  note r2 = r2'(1) [unfolded w2] and p2 = p2'(1,2,4,5) [unfolded w2 snd_conv]
  have i2: "svalid s2" "dvalid d2" "sdocs s2 = docs" using r2'(2) by (simp_all add: w2 intact_def)
  have dd2: "ddocs d2 = take k docs" using p2'(3) by (simp add: w2 d1(3))
  obtain s3 x where s3: "sample_loop S ?n (mo_sample_searches options) [] [] s2 = Some (s3, Inr x)"
    and x: "set x \<subseteq> corpus_vectors docs"
    using sample_loop_returns [OF i2(1) at_pos_start assms(11), of "[]" "mo_sample_searches options"] by (auto simp: i2(3))
  have i3: "svalid s3" "sdocs s3 = docs"
    using source.sample_loop_result [OF i2(1) at_pos_start assms(11), of "mo_sample_searches options" "[]"] s3
    by (simp_all add: i2(3))
  have dd2': "ddocs d2 = take (length (ddocs d2)) docs" using pre1 p2'(3) by (simp add: w2)
  from copy_loop_returns [of "(s3, d2)" ?n "length (ddocs d2)" p a ?run 0] i2(2) i3 assms(7,11) cp p2 dd2'
  obtain s4 d4 p4 b4 where r4: "copy_loop S D ?n ?run a p 0 (s3, d2) = Some ((s4, d4), Inr (p4, b4))"
    and d4: "ddocs d4 = docs" "mp_run_id p4 = ?run" "mp_source_fingerprint p4 = au_fingerprint a"
    by (auto simp: docs_def)
  have pre4: "list_all2 same_record (take (length (ddocs d2)) docs) (ddocs d2)"
    unfolding dd2' [symmetric] using cp set_take_subset [of k docs]
    by (auto simp: dd2 list_all2_same copyable_def list_all_iff)
  have i4: "svalid s4" "dvalid d4" "sdocs s4 = docs" "mp_complete p4"
    using copy_loop_result [of "(s3, d2)" ?n "length (ddocs d2)" p ?run a 0] i2(2) i3 assms(11) cp p2(1,2) pre4 r4
    by auto
  obtain d5 where d5: "ep_finish D d4 ?run a p4 = (d5, Inr ())"
    using finishes [OF i4(2,4) d4(2,3)] by (cases "ep_finish D d4 ?run a p4") auto
  have i5: "dvalid d5" "ddocs d5 = docs" using dest.finish_stays [OF i4(2) d5] d4(1) by auto
  obtain s6 where s6: "audit S F ?n s4 = Some (s6, Inr a)" "svalid s6" "sdocs s6 = docs"
    using source_audit_returns [OF i4(1) assms(11), of F a] assms(3) by (auto simp: i4(3) docs_def)
  obtain d6 where d6: "audit D F ?n d5 = Some (d6, Inr a)" "dvalid d6" "ddocs d6 = docs"
    using dest_audit_returns [OF i5(1) assms(11), of F a] assms(3) by (auto simp: i5(2) docs_def)
  have answered: "\<forall>q \<in> set x. \<exists>xs. found docs q (min 10 (au_chunks a)) = Inr xs"
    using x assms(9) unfolding docs_def by blast
  obtain s7 d7 n7 where r7: "check_samples S D apart (min 10 (au_chunks a)) x 0 (s6, d6) = ((s7, d7), Inr n7)" "ddocs d7 = docs"
    using check_samples_returns [of "(s6, d6)" apart x "min 10 (au_chunks a)" 0] s6(2,3) d6(2,3) assms(8) answered
    by auto
  have "\<not> (direction = [] \<or> ?n = 0 \<or> ?n > 10000 \<or> mo_sample_searches options > 1000)" using assms(10-13) by auto
  moreover have "\<not> (case prior of None \<Rightarrow> False | Some p \<Rightarrow> mp_source_fingerprint p \<noteq> au_fingerprint a)"
    using assms(6) by (auto split: option.split)
  ultimately show ?thesis
    by (simp add: migrate_def Let_def mig_then_def at_source_def at_destination_def mig_result_def
        s1(1) d1(1) r2 s3 r4 d5 s6(1) d6(1) r7 flip: docs_def)
qed

end

end
