(* ===== verification/Migration_Embedded.thy ===== *)
theory Migration_Embedded
  imports Migration_Correct Backend_Restart Job_Log
begin

text \<open>
  \<^verbatim>\<open>rag.cpp/src/migration/embedded_endpoint.cpp\<close>: the embedded checkpoint and its job log as an endpoint
  of a migration, over the checkpoint, container and job-log models. It keeps the contract of the
  endpoints; a destination interrupted at any point of a batch reopens as a prefix of the source; and
  a source is its checkpoint overlaid by the ready jobs of its log, in the order of their creation.
\<close>

subsection \<open>The active documents\<close>

record active_record =
  ar_document :: prepared_document
  ar_revision :: document_revision

type_synonym active_map = "(document_key \<times> active_record) list"

text \<open>
  The libraries and the operating system as the endpoint meets them. \<open>ne_dot\<close> is the scalar product
  loop of \<^verbatim>\<open>exact_candidates\<close>; \<open>ne_saves\<close> is what happens to the \<open>i\<close>-th file the endpoint writes.
\<close>

record endpoint_env =
  ne_lib :: checkpoint_lib
  ne_fp :: fp
  ne_dot :: "vec \<Rightarrow> vec \<Rightarrow> f32"
  ne_view :: view_env
  ne_sort :: "section_range list \<Rightarrow> section_range list"
  ne_job_os :: job_os
  ne_saves :: "nat \<Rightarrow> write_env"

definition same_document :: "active_record \<Rightarrow> revisioned_document \<Rightarrow> bool" where
  "same_document existing incoming =
     (let left = ar_document existing; right = rd_document incoming in
      ar_revision existing = rd_revision incoming \<and> pd_key left = pd_key right \<and>
      pd_title left = pd_title right \<and> pd_content left = pd_content right \<and>
      pd_metadata left = pd_metadata right \<and> pd_content_hash left = pd_content_hash right \<and>
      pd_chunking_fingerprint left = pd_chunking_fingerprint right \<and>
      pd_embedding_identity left = pd_embedding_identity right \<and>
      length (pd_chunks left) = length (pd_chunks right) \<and>
      list_all (\<lambda>(a, b). same_chunk a b) (zip (pd_chunks left) (pd_chunks right)))"

fun checkpoint_active :: "checkpoint_document list \<Rightarrow> active_map \<Rightarrow> active_map result" where
  "checkpoint_active [] acts = Inr acts"
| "checkpoint_active (entry # entries) acts =
     (case cd_prepared entry of
        None \<Rightarrow> fail Errc_corrupt_index ''embedded migration checkpoint document is missing''
      | Some d \<Rightarrow> checkpoint_active entries
          (fst (omap_emplace (pd_key d) \<lparr>ar_document = d, ar_revision = cd_revision entry\<rparr> acts)))"

fun ready_jobs :: "ingestion_job list \<Rightarrow> active_map \<Rightarrow> active_map result" where
  "ready_jobs [] acts = Inr acts"
| "ready_jobs (job # jobs) acts =
     (if job_status job \<noteq> Job_ready then ready_jobs jobs acts
      else
        let key = in_document (job_input job);
            current = (case map_of acts key of None \<Rightarrow> 0 | Some found \<Rightarrow> ar_revision found)
        in if job_revision job \<le> current then ready_jobs jobs acts
           else if job_operation job = Op_erase then ready_jobs jobs (omap_del key acts)
           else case job_prepared job of
             None \<Rightarrow> fail Errc_corrupt_index ''ready embedded migration job has invalid prepared data''
           | Some d \<Rightarrow>
               (if pd_key d \<noteq> key \<or> pd_content_hash d \<noteq> job_content_hash job
                then fail Errc_corrupt_index ''ready embedded migration job has invalid prepared data''
                else ready_jobs jobs (omap_put key \<lparr>ar_document = d, ar_revision = job_revision job\<rparr> acts)))"

definition load_active :: "endpoint_env \<Rightarrow> string \<Rightarrow> bool \<Rightarrow> fs \<Rightarrow> active_map result" where
  "load_active N path include_jobs fs =
     and_then (if fs path = None then Inr []
               else and_then (checkpoint_load (ne_lib N) (ne_fp N) (ne_view N) (ne_sort N) path fs) (\<lambda>cp.
                 checkpoint_active (cp_documents cp) [])) (\<lambda>acts.
       if \<not> include_jobs then Inr acts
       else and_then (load_ingestion_jobs_read_only (cl_json (ne_lib N)) (ne_job_os N) (path @ ''.jobs'') fs) (\<lambda>jobs.
         ready_jobs jobs acts))"

subsection \<open>Progress\<close>

definition progress_path :: "string \<Rightarrow> string" where
  "progress_path path = path @ ''.migration''"

definition progress_json :: "migration_progress \<Rightarrow> json" where
  "progress_json p = json_object
     [(''version'', JInt 1),
      (''run_id'', JStr (mp_run_id p)),
      (''source_fingerprint'', JStr (mp_source_fingerprint p)),
      (''last_document'', JStr (mp_last_document p)),
      (''documents'', JInt (int (mp_documents p))),
      (''chunks'', JInt (int (mp_chunks p))),
      (''complete'', JBool (mp_complete p))]"

definition progress_of_json :: "json_lib \<Rightarrow> json \<Rightarrow> exn + migration_progress" where
  "progress_of_json L v =
     ebind (ebind (json_at ''run_id'' v) get_string) (\<lambda>run.
     ebind (ebind (json_at ''source_fingerprint'' v) get_string) (\<lambda>fingerprint.
     ebind (ebind (json_at ''last_document'' v) get_string) (\<lambda>last_document.
     ebind (ebind (json_at ''documents'' v) (get_u64 L)) (\<lambda>documents.
     ebind (ebind (json_at ''chunks'' v) (get_u64 L)) (\<lambda>chunks.
     ebind (ebind (json_at ''complete'' v) get_bool) (\<lambda>complete.
       Inr \<lparr>mp_run_id = run, mp_source_fingerprint = fingerprint, mp_last_document = last_document,
            mp_documents = unat documents, mp_chunks = unat chunks, mp_complete = complete\<rparr>))))))"

definition load_progress :: "endpoint_env \<Rightarrow> string \<Rightarrow> string \<Rightarrow> fs \<Rightarrow> migration_progress option result" where
  "load_progress N path run fs =
     (if fs path = None then Inr None
      else and_then (view_open_file (ne_view N) (ne_sort N) path fs) (\<lambda>v.
        case view_get Tag_meta v of
          None \<Rightarrow> fail Errc_corrupt_index ''embedded migration progress is missing''
        | Some payload \<Rightarrow>
            (let L = cl_json (ne_lib N) in
             case (case jl_parse L payload of None \<Rightarrow> Inl Parse_error | Some j \<Rightarrow> progress_of_json L j) of
               Inl e \<Rightarrow> fail Errc_corrupt_index (''embedded migration progress is invalid: '' @ what L e)
             | Inr p \<Rightarrow>
                 (if mp_run_id p \<noteq> run
                  then fail Errc_already_exists ''embedded destination belongs to another migration run''
                  else Inr (Some p)))))"

text \<open>
  \<^verbatim>\<open>save_progress\<close> has no handler for the exception of a document key that is not UTF-8: it ends the
  migration, here as a failure.
\<close>

definition save_progress ::
    "json_lib \<Rightarrow> write_env \<Rightarrow> string \<Rightarrow> migration_progress \<Rightarrow> fs \<Rightarrow> fs list \<times> unit result" where
  "save_progress L env path p fs =
     (case jl_dump L (progress_json p) of
        None \<Rightarrow> ([fs], fail Errc_io_error (what L Type_error))
      | Some meta \<Rightarrow> write_file env path (container_put Tag_meta meta container_new) fs)"

subsection \<open>The endpoint\<close>

record embedded_endpoint =
  ee_path :: string
  ee_active :: active_map
  ee_writable :: bool
  ee_fs :: fs
  ee_saved :: nat   \<comment> \<open>files written so far\<close>

abbreviation as_record :: "document_key \<times> active_record \<Rightarrow> revisioned_document" where
  "as_record \<equiv> (\<lambda>(key, a). \<lparr>rd_document = ar_document a, rd_revision = ar_revision a\<rparr>)"

definition ee_read_batch :: "embedded_endpoint \<Rightarrow> string \<Rightarrow> nat \<Rightarrow> document_batch result" where
  "ee_read_batch e after limit =
     (if limit = 0 then fail Errc_invalid_argument ''migration batch limit is zero''
      else
        let rest = (if after = [] then ee_active e else dropWhile (\<lambda>p. \<not> after < fst p) (ee_active e));
            found = map as_record (take limit rest)
        in Inr \<lparr>db_documents = found,
                db_next_cursor = (if found \<noteq> [] then rd_key (last found) else after),
                db_complete = (drop limit rest = [])\<rparr>)"

definition ee_progress :: "endpoint_env \<Rightarrow> embedded_endpoint \<Rightarrow> string \<Rightarrow> migration_progress option result" where
  "ee_progress N e run =
     (if \<not> ee_writable e then Inr None else load_progress N (progress_path (ee_path e)) run (ee_fs e))"

fun ee_insert :: "revisioned_document list \<Rightarrow> active_map \<Rightarrow> active_map \<times> unit result" where
  "ee_insert [] acts = (acts, Inr ())"
| "ee_insert (r # rs) acts =
     (case map_of acts (rd_key r) of
        Some found \<Rightarrow>
          (if \<not> same_document found r
           then (acts, fail Errc_already_exists ''embedded destination contains conflicting document'')
           else ee_insert rs acts)
      | None \<Rightarrow> ee_insert rs
          (fst (omap_emplace (rd_key r) \<lparr>ar_document = rd_document r, ar_revision = rd_revision r\<rparr> acts)))"

definition active_checkpoint :: "active_map \<Rightarrow> migration_progress \<Rightarrow> checkpoint" where
  "active_checkpoint acts p =
     \<lparr>cp_documents = map (\<lambda>(key, a). \<lparr>cd_prepared = Some (ar_document a), cd_revision = ar_revision a\<rparr>) acts,
      cp_revisions = map (\<lambda>(key, a). (key, ar_revision a)) acts,
      cp_generation = of_nat (mp_documents p), cp_wal_position = 0\<rparr>"

definition identity_differs :: "active_map \<Rightarrow> corpus_audit \<Rightarrow> bool" where
  "identity_differs acts source =
     (acts \<noteq> [] \<and>
      (let d = ar_document (snd (hd acts)) in
       pd_embedding_identity d \<noteq> au_embedding_identity source \<or>
       pd_chunking_fingerprint d \<noteq> au_chunking_fingerprint source \<or>
       length (pc_embedding (hd (pd_chunks d))) \<noteq> au_dimension source))"

text \<open>The file-system states a batch passes through, the endpoint after it and its result.\<close>

definition ee_write ::
    "endpoint_env \<Rightarrow> embedded_endpoint \<Rightarrow> string \<Rightarrow> corpus_audit \<Rightarrow> document_batch \<Rightarrow> migration_progress
       \<Rightarrow> fs list \<times> embedded_endpoint \<times> unit result" where
  "ee_write N e run source batch p =
     (if \<not> ee_writable e
      then ([ee_fs e], e, fail Errc_invalid_argument ''embedded migration source is read-only'')
      else if mp_run_id p \<noteq> run \<or> mp_source_fingerprint p \<noteq> au_fingerprint source
      then ([ee_fs e], e, fail Errc_invalid_argument ''embedded migration progress is inconsistent'')
      else if identity_differs (ee_active e) source
      then ([ee_fs e], e, fail Errc_dimension_mismatch ''embedded destination corpus identity differs from source'')
      else case ee_insert (db_documents batch) (ee_active e) of
        (acts, Inl err) \<Rightarrow> ([ee_fs e], e\<lparr>ee_active := acts\<rparr>, Inl err)
      | (acts, Inr _) \<Rightarrow>
          (let e = e\<lparr>ee_active := acts\<rparr> in
           case checkpoint_save (ne_lib N) (ne_saves N (ee_saved e)) (ee_path e) (active_checkpoint acts p) (ee_fs e) of
             (states, Inl err) \<Rightarrow> (states, e\<lparr>ee_fs := last states, ee_saved := ee_saved e + 1\<rparr>, Inl err)
           | (states, Inr _) \<Rightarrow>
               (case save_progress (cl_json (ne_lib N)) (ne_saves N (ee_saved e + 1)) (progress_path (ee_path e)) p
                       (last states) of
                  (states', r) \<Rightarrow>
                    (states @ states', e\<lparr>ee_fs := last states', ee_saved := ee_saved e + 2\<rparr>, r))))"

definition ee_finish ::
    "endpoint_env \<Rightarrow> embedded_endpoint \<Rightarrow> string \<Rightarrow> corpus_audit \<Rightarrow> migration_progress
       \<Rightarrow> embedded_endpoint \<times> unit result" where
  "ee_finish N e run source p =
     (if \<not> mp_complete p \<or> mp_run_id p \<noteq> run \<or> mp_source_fingerprint p \<noteq> au_fingerprint source
      then (e, fail Errc_invalid_argument ''embedded migration cannot finish early'')
      else case save_progress (cl_json (ne_lib N)) (ne_saves N (ee_saved e)) (progress_path (ee_path e)) p (ee_fs e) of
        (states, r) \<Rightarrow> (e\<lparr>ee_fs := last states, ee_saved := ee_saved e + 1\<rparr>, r))"

fun score_chunks ::
    "(vec \<Rightarrow> vec \<Rightarrow> f32) \<Rightarrow> vec \<Rightarrow> prepared_chunk list \<Rightarrow> candidate list result" where
  "score_chunks dot query [] = Inr []"
| "score_chunks dot query (c # cs) =
     (if length (pc_embedding c) \<noteq> length query
      then fail Errc_dimension_mismatch ''migration query dimension differs''
      else and_then (score_chunks dot query cs) (\<lambda>scored.
        Inr (\<lparr>cand_chunk = pc_key c, cand_raw_score = dot query (pc_embedding c), cand_score_type = Score_cosine\<rparr> # scored)))"

definition ee_exact :: "endpoint_env \<Rightarrow> embedded_endpoint \<Rightarrow> vec \<Rightarrow> nat \<Rightarrow> candidate list result" where
  "ee_exact N e query k =
     and_then (score_chunks (ne_dot N) query (concat (map (\<lambda>(key, a). pd_chunks (ar_document a)) (ee_active e)))) (\<lambda>found.
       Inr (take k (sort_key cand_key found)))"

definition embedded_endpoint_ops :: "endpoint_env \<Rightarrow> embedded_endpoint endpoint" where
  "embedded_endpoint_ops N =
     \<lparr>ep_description = (\<lambda>e. ''embedded:'' @ ee_path e),
      ep_read_batch = (\<lambda>e after limit. (e, ee_read_batch e after limit)),
      ep_progress = (\<lambda>e run. (e, ee_progress N e run)),
      ep_write_batch = (\<lambda>e run source batch p. snd (ee_write N e run source batch p)),
      ep_finish = ee_finish N,
      ep_exact = (\<lambda>e query k. (e, ee_exact N e query k))\<rparr>"

definition open_embedded_source :: "endpoint_env \<Rightarrow> string \<Rightarrow> fs \<Rightarrow> embedded_endpoint result" where
  "open_embedded_source N path fs =
     (if path = [] \<or> fs path = None
      then fail Errc_not_found ''embedded migration source does not exist''
      else and_then (load_active N path True fs) (\<lambda>acts.
        Inr \<lparr>ee_path = path, ee_active = acts, ee_writable = False, ee_fs = fs, ee_saved = 0\<rparr>))"

text \<open>\<open>directories\<close>: the message of the exception when the parent directory cannot be created.\<close>

definition open_embedded_destination ::
    "endpoint_env \<Rightarrow> string option \<Rightarrow> string \<Rightarrow> fs \<Rightarrow> embedded_endpoint result" where
  "open_embedded_destination N directories path fs =
     (if path = [] then fail Errc_invalid_argument ''embedded migration destination is required''
      else case directories of
        Some msg \<Rightarrow> fail Errc_io_error (''embedded migration destination directory failed: '' @ msg)
      | None \<Rightarrow> and_then (load_active N path False fs) (\<lambda>acts.
          Inr \<lparr>ee_path = path, ee_active = acts, ee_writable = True, ee_fs = fs, ee_saved = 0\<rparr>))"

subsection \<open>The endpoint keeps the contract\<close>

definition ee_docs :: "embedded_endpoint \<Rightarrow> revisioned_document list" where
  "ee_docs e = map as_record (ee_active e)"

definition acts_ok :: "active_map \<Rightarrow> bool" where
  "acts_ok m \<longleftrightarrow> omap_wf m \<and>
     list_all (\<lambda>(k, a). pd_key (ar_document a) = k \<and> k \<noteq> [] \<and> pd_chunks (ar_document a) \<noteq> []) m"

definition ee_ok :: "embedded_endpoint \<Rightarrow> bool" where
  "ee_ok e \<longleftrightarrow> acts_ok (ee_active e)"

lemma keys_as_record: "acts_ok m \<Longrightarrow> map rd_key (map as_record m) = map fst m"
  by (auto simp: acts_ok_def list_all_iff)

lemma as_record_simps [simp]:
  "rd_document (as_record p) = ar_document (snd p)" "rd_revision (as_record p) = ar_revision (snd p)"
  by (simp_all add: split_beta)

lemma ordered_as_record: "acts_ok m \<Longrightarrow> ordered_docs (map as_record m)"
  unfolding ordered_docs_keys keys_as_record by (force simp: acts_ok_def omap_wf_def list_all_iff)

lemma dropWhile_above:
  fixes k :: "'k::linorder"
  shows "sorted_wrt (<) (map fst m) \<Longrightarrow> dropWhile (\<lambda>p. \<not> k < fst p) m = filter (\<lambda>p. k < fst p) m"
proof (induction m)
  case (Cons p m)
  show ?case
  proof (cases "k < fst p")
    case True
    then have "\<forall>q \<in> set m. k < fst q" using Cons.prems by (auto intro: less_trans)
    then show ?thesis using True by simp
  qed (use Cons in simp)
qed simp

lemma after_cursor_acts:
  assumes "acts_ok m"
  shows "after_cursor (map as_record m) c = map as_record (if c = [] then m else dropWhile (\<lambda>p. \<not> c < fst p) m)"
proof -
  have "filter (\<lambda>r. c < rd_key r) (map as_record m) = map as_record (filter (\<lambda>p. c < fst p) m)"
    unfolding filter_map
    by (rule arg_cong [where f = "map as_record"], rule filter_cong)
      (use assms in \<open>auto simp: acts_ok_def list_all_iff\<close>)
  then show ?thesis using assms
    by (simp add: after_cursor_def acts_ok_def omap_wf_def dropWhile_above)
qed

lemma ee_read_batch_from:
  assumes "ee_ok e" and "0 < n"
  shows "ee_read_batch e c n = Inr (batch_from (ee_docs e) c n)"
  using assms
  by (simp add: ee_read_batch_def batch_from_def ee_docs_def ee_ok_def after_cursor_acts Let_def take_map
      del: as_record_simps)

definition acts_of :: "revisioned_document list \<Rightarrow> active_map" where
  "acts_of rs = map (\<lambda>r. (rd_key r, \<lparr>ar_document = rd_document r, ar_revision = rd_revision r\<rparr>)) rs"

lemma acts_of_append: "acts_of (xs @ ys) = acts_of xs @ acts_of ys"
  by (simp add: acts_of_def)

lemma as_record_acts_of: "map as_record (acts_of rs) = rs"
  by (induction rs) (simp_all add: acts_of_def)

lemma acts_ok_append:
  assumes "acts_ok m" and "ordered_docs (map as_record m @ rs)"
    and "list_all (\<lambda>r. pd_chunks (rd_document r) \<noteq> []) rs"
  shows "acts_ok (m @ acts_of rs)"
proof -
  have "map fst (m @ acts_of rs) = map rd_key (map as_record m @ rs)"
    using keys_as_record [OF assms(1)] by (simp add: acts_of_def)
  with assms show ?thesis
    by (auto simp: acts_ok_def omap_wf_def ordered_docs_def acts_of_def list_all_iff simp del: map_append)
qed

lemma ee_insert_new:
  "acts_ok m \<Longrightarrow> ordered_docs (map as_record m @ rs) \<Longrightarrow> list_all (\<lambda>r. pd_chunks (rd_document r) \<noteq> []) rs \<Longrightarrow>
     ee_insert rs m = (m @ acts_of rs, Inr ())"
proof (induction rs arbitrary: m)
  case (Cons r rs)
  let ?a = "\<lparr>ar_document = rd_document r, ar_revision = rd_revision r\<rparr>"
  have ok: "acts_ok (m @ acts_of [r])"
    using acts_ok_append [OF Cons.prems(1), of "[r]"] Cons.prems(2,3) ordered_docs_take [OF Cons.prems(2), of "Suc (length m)"]
    by simp
  then have above: "omap_wf (m @ [(rd_key r, ?a)])" by (simp add: acts_ok_def acts_of_def)
  have new: "map_of m (rd_key r) = None" "fst (omap_emplace (rd_key r) ?a m) = m @ acts_of [r]"
    using omap_emplace_above [OF above] by (simp_all add: acts_of_def)
  have "map as_record (m @ acts_of [r]) @ rs = map as_record m @ r # rs"
    by (simp add: as_record_acts_of del: as_record_simps)
  then have "ee_insert rs (m @ acts_of [r]) = ((m @ acts_of [r]) @ acts_of rs, Inr ())"
    using Cons.IH [OF ok] Cons.prems(2,3) by simp
  then show ?case by (simp add: new acts_of_def)
qed (simp add: acts_of_def)

lemma ee_write_active:
  assumes "ee_write N e run au b p = (states, e', r)"
  shows "ee_active e' \<in> {ee_active e, fst (ee_insert (db_documents b) (ee_active e))}"
    and "r = Inr () \<Longrightarrow> ee_active e' = fst (ee_insert (db_documents b) (ee_active e))"
  using assms by (auto simp: ee_write_def Let_def split: if_splits prod.splits sum.splits)

lemma ee_write_contract:
  assumes "ee_ok e" and "ordered_docs (ee_docs e @ db_documents b)"
    and "list_all (\<lambda>r. pd_chunks (rd_document r) \<noteq> []) (db_documents b)"
    and "ee_write N e run au b p = (states, e', r)"
  shows "ee_ok e'" and "r = Inr () \<Longrightarrow> ee_docs e' = ee_docs e @ db_documents b"
proof -
  have ok: "acts_ok (ee_active e)" "ordered_docs (map as_record (ee_active e) @ db_documents b)"
    using assms(1,2) by (simp_all add: ee_ok_def ee_docs_def)
  have ins: "fst (ee_insert (db_documents b) (ee_active e)) = ee_active e @ acts_of (db_documents b)"
    by (simp add: ee_insert_new [OF ok assms(3)])
  note effect = ee_write_active [OF assms(4), unfolded ins]
  show "ee_ok e'" using effect(1) ok(1) acts_ok_append [OF ok assms(3)] by (auto simp: ee_ok_def)
  show "ee_docs e' = ee_docs e @ db_documents b" if "r = Inr ()"
    using effect(2) [OF that] by (simp add: ee_docs_def as_record_acts_of del: as_record_simps)
qed

lemma ee_finish_active: "ee_finish N e run au p = (e', r) \<Longrightarrow> ee_active e' = ee_active e"
  by (auto simp: ee_finish_def split: if_splits prod.splits)

interpretation ee: writing_contract "embedded_endpoint_ops N" ee_docs ee_ok for N
proof
  fix e b run au p e' and w :: "unit result"
  assume "ee_ok e" "ordered_docs (ee_docs e @ db_documents b)" "list_all (\<lambda>r. pd_chunks (rd_document r) \<noteq> []) (db_documents b)"
    and w: "ep_write_batch (embedded_endpoint_ops N) e run au b p = (e', w)"
  from w obtain states where "ee_write N e run au b p = (states, e', w)"
    by (cases "ee_write N e run au b p") (simp add: embedded_endpoint_ops_def)
  with \<open>ee_ok e\<close> \<open>ordered_docs _\<close> \<open>list_all _ _\<close> ee_write_contract
  show "ee_ok e' \<and> (w = Inr () \<longrightarrow> ee_docs e' = ee_docs e @ db_documents b)" by blast
qed (auto simp: embedded_endpoint_ops_def ee_read_batch_from ee_ok_def ee_docs_def ordered_as_record
    dest!: ee_finish_active simp del: as_record_simps)

interpretation embedded_pair: migration_pair "embedded_endpoint_ops N" ee_docs ee_ok "embedded_endpoint_ops M" ee_docs ee_ok for N M ..

subsection \<open>When nothing fails\<close>

text \<open>The libraries accept every value and every file write succeeds.\<close>

definition env_ok :: "endpoint_env \<Rightarrow> bool" where
  "env_ok N \<longleftrightarrow> (\<forall>i. write_ok (ne_saves N i)) \<and> (\<forall>j. jl_dump (cl_json (ne_lib N)) j \<noteq> None)"

text \<open>A corpus the destination can store under an audit: of its identity, and valid as a checkpoint.\<close>

definition storable_corpus :: "corpus_audit \<Rightarrow> revisioned_document list \<Rightarrow> bool" where
  "storable_corpus au docs \<longleftrightarrow> \<not> identity_differs (acts_of docs) au \<and>
     (\<forall>p. validate_for_save (active_checkpoint (acts_of docs) p) = Inr ())"

definition ee_ready :: "endpoint_env \<Rightarrow> embedded_endpoint \<Rightarrow> bool" where
  "ee_ready N e \<longleftrightarrow> env_ok N \<and> ee_writable e \<and> ee_ok e"

definition found_in :: "endpoint_env \<Rightarrow> revisioned_document list \<Rightarrow> vec \<Rightarrow> nat \<Rightarrow> candidate list result" where
  "found_in N docs query k =
     and_then (score_chunks (ne_dot N) query (concat (map (\<lambda>r. pd_chunks (rd_document r)) docs))) (\<lambda>found.
       Inr (take k (sort_key cand_key found)))"

lemma ee_exact_found: "ee_exact N e query k = found_in N (ee_docs e) query k"
proof -
  have "map (\<lambda>(key, a). pd_chunks (ar_document a)) m = map (\<lambda>r. pd_chunks (rd_document r)) (map as_record m)" for m
    by (induction m) auto
  then show ?thesis by (simp only: ee_exact_def found_in_def ee_docs_def)
qed

lemma acts_of_as_record: "acts_ok m \<Longrightarrow> acts_of (map as_record m) = m"
  by (induction m) (auto simp: acts_of_def acts_ok_def list_all_iff omap_wf_Cons)

lemma ee_active_docs: "ee_ok e \<Longrightarrow> ee_active e = acts_of (ee_docs e)"
  by (simp add: ee_ok_def ee_docs_def acts_of_as_record del: as_record_simps)

lemma save_progress_ok:
  "env_ok N \<Longrightarrow> snd (save_progress (cl_json (ne_lib N)) (ne_saves N i) path p fs) = Inr ()"
  by (cases "jl_dump (cl_json (ne_lib N)) (progress_json p)") (auto simp: save_progress_def env_ok_def write_file_result simp del: not_None_eq)

lemma checkpoint_save_ok:
  "env_ok N \<Longrightarrow> validate_for_save cp = Inr () \<Longrightarrow> snd (checkpoint_save (ne_lib N) (ne_saves N i) path cp fs) = Inr ()"
  by (cases "jl_dump (cl_json (ne_lib N)) runtime_meta") (auto simp: checkpoint_save_def env_ok_def write_file_result simp del: not_None_eq)

lemma identity_prefix: "\<not> identity_differs (acts_of (xs @ ys)) au \<Longrightarrow> \<not> identity_differs (acts_of xs) au"
  by (cases xs) (auto simp: identity_differs_def acts_of_def)

lemma ee_write_ok:
  assumes "ee_ready N e" and "ordered_docs (ee_docs e @ db_documents b)"
    and "list_all (\<lambda>r. pd_chunks (rd_document r) \<noteq> []) (db_documents b)"
    and "storable_corpus au (ee_docs e @ db_documents b)"
    and "mp_run_id p = run" and "mp_source_fingerprint p = au_fingerprint au"
  shows "snd (snd (ee_write N e run au b p)) = Inr ()"
proof -
  have ok: "acts_ok (ee_active e)" "ordered_docs (map as_record (ee_active e) @ db_documents b)"
    using assms(1,2) by (simp_all add: ee_ready_def ee_ok_def ee_docs_def)
  have env: "env_ok N" and w: "ee_writable e" using assms(1) by (simp_all add: ee_ready_def)
  have acts: "ee_active e = acts_of (ee_docs e)" using assms(1) by (simp add: ee_ready_def ee_active_docs)
  have all: "ee_active e @ acts_of (db_documents b) = acts_of (ee_docs e @ db_documents b)"
    by (simp add: acts acts_of_def)
  have same: "\<not> identity_differs (ee_active e) au"
    unfolding acts by (rule identity_prefix [of _ "db_documents b"]) (use assms(4) in \<open>simp add: storable_corpus_def\<close>)
  have "validate_for_save (active_checkpoint (ee_active e @ acts_of (db_documents b)) p) = Inr ()"
    unfolding all using assms(4) by (simp add: storable_corpus_def)
  from checkpoint_save_ok [OF env this] save_progress_ok [OF env] show ?thesis
    using w same assms(5,6)
    by (auto simp: ee_write_def ee_insert_new [OF ok assms(3)] Let_def split: sum.splits prod.splits)
      (metis snd_conv sum.distinct(1))+
qed

lemma ee_finish_ok:
  "env_ok N \<Longrightarrow> mp_complete p \<Longrightarrow> mp_run_id p = run \<Longrightarrow> mp_source_fingerprint p = au_fingerprint au \<Longrightarrow>
     snd (ee_finish N e run au p) = Inr ()"
  using save_progress_ok [of N "ee_saved e" "progress_path (ee_path e)" p "ee_fs e"]
  by (auto simp: ee_finish_def split: prod.split)

interpretation ready: reliable_pair "embedded_endpoint_ops (N\<lparr>ne_saves := saves\<rparr>)" ee_docs ee_ok "embedded_endpoint_ops N" ee_docs "ee_ready N"
  storable_corpus "found_in N" for N saves
proof
  fix d and b :: document_batch and run and au :: corpus_audit and p :: migration_progress and d' and w :: "unit result"
  assume d: "ee_ready N d" "ordered_docs (ee_docs d @ db_documents b)" "list_all (\<lambda>r. pd_chunks (rd_document r) \<noteq> []) (db_documents b)"
  {
    assume w: "ep_write_batch (embedded_endpoint_ops N) d run au b p = (d', w)"
    then obtain states where ws: "ee_write N d run au b p = (states, d', w)"
      by (cases "ee_write N d run au b p") (simp add: embedded_endpoint_ops_def)
    have "ee_writable d'" using d(1) ws
      by (auto simp: ee_write_def ee_ready_def Let_def split: if_splits prod.splits sum.splits)
    then show "ee_ready N d' \<and> (w = Inr () \<longrightarrow> ee_docs d' = ee_docs d @ db_documents b)"
      using ee.write_appends [OF _ d(2,3) w] d(1) by (auto simp: ee_ready_def)
  }
  {
    assume "storable_corpus au (ee_docs d @ db_documents b)" "mp_run_id p = run" "mp_source_fingerprint p = au_fingerprint au"
    from ee_write_ok [OF d this] show "snd (ep_write_batch (embedded_endpoint_ops N) d run au b p) = Inr ()"
      by (simp add: embedded_endpoint_ops_def)
  }
next
  fix d run and au :: corpus_audit and p :: migration_progress and d' and w :: "unit result"
  assume d: "ee_ready N d"
  {
    assume f: "ep_finish (embedded_endpoint_ops N) d run au p = (d', w)"
    then have "ee_writable d'" using d
      by (auto simp: ee_finish_def ee_ready_def embedded_endpoint_ops_def split: if_splits prod.splits)
    then show "ee_ready N d' \<and> ee_docs d' = ee_docs d"
      using ee.finish_stays [OF _ f] d by (auto simp: ee_ready_def)
  }
qed (auto simp: embedded_endpoint_ops_def ee_ready_def ee_read_batch_from ee_finish_ok ee_exact_found found_in_def
    ee_ok_def ee_docs_def ordered_as_record simp del: as_record_simps)

subsection \<open>A batch interrupted anywhere\<close>

lemma load_active_at: "st path = st' path \<Longrightarrow> load_active N path False st = load_active N path False st'"
  by (simp add: load_active_def checkpoint_load_def view_open_file_def)

lemma checkpoint_active_append:
  "omap_wf (acc @ m) \<Longrightarrow> list_all (\<lambda>(k, a). pd_key (ar_document a) = k) m \<Longrightarrow>
     checkpoint_active (map (\<lambda>(key, a). \<lparr>cd_prepared = Some (ar_document a), cd_revision = ar_revision a\<rparr>) m) acc =
       Inr (acc @ m)"
proof (induction m arbitrary: acc)
  case (Cons p m)
  obtain k d r where p: "p = (k, \<lparr>ar_document = d, ar_revision = r\<rparr>)" by (metis surj_pair active_record.cases)
  let ?a = "\<lparr>ar_document = d, ar_revision = r\<rparr>"
  have "fst (omap_emplace k ?a acc) = acc @ [(k, ?a)]" using omap_emplace_above [of acc k ?a m] Cons.prems(1) p by simp
  then show ?case using Cons by (simp add: p)
qed simp

lemma load_written_active:
  assumes "acts_ok m" and "snd (checkpoint_save (ne_lib N) sample_env path (active_checkpoint m p) fs) = Inr ()"
    and "st path = last (fst (checkpoint_save (ne_lib N) sample_env path (active_checkpoint m p) fs)) path"
    and "st path \<noteq> None" and "checkpoint_wf (ne_fp N) n (active_checkpoint m p)"
    and "std_sort_spec (ne_sort N)" and "lexical_roundtrip (ne_lib N)" and "ne_view N = view_ok"
    and "\<And>s. jl_dump (cl_json (ne_lib N)) runtime_meta = Some s \<Longrightarrow>
       s \<noteq> [] \<and> jl_parse (cl_json (ne_lib N)) s = Some runtime_meta \<and>
       length (serialize (checkpoint_container (ne_lib N) s (active_checkpoint m p) (map (ar_document \<circ> snd) m))) < 2 ^ 64"
  shows "load_active N path False st = Inr m"
proof -
  have docs: "map (the \<circ> cd_prepared) (cp_documents (active_checkpoint m p)) = map (ar_document \<circ> snd) m"
    by (simp add: active_checkpoint_def split_beta)
  have "checkpoint_load (ne_lib N) (ne_fp N) view_ok (ne_sort N) path
      (last (fst (checkpoint_save (ne_lib N) sample_env path (active_checkpoint m p) fs))) = Inr (active_checkpoint m p)"
    by (rule checkpoint_roundtrip [OF assms(2,5-7)]) (use assms(9) in \<open>simp add: docs\<close>)
  then have "checkpoint_load (ne_lib N) (ne_fp N) view_ok (ne_sort N) path st = Inr (active_checkpoint m p)"
    by (simp add: checkpoint_load_def view_open_file_def assms(3))
  moreover have "checkpoint_active (cp_documents (active_checkpoint m p)) [] = Inr m"
    using checkpoint_active_append [of "[]" m] assms(1) by (auto simp: acts_ok_def active_checkpoint_def list_all_iff)
  ultimately show ?thesis using assms(4,8) by (auto simp: load_active_def)
qed

lemma progress_file_apart:
  assumes "st \<in> set (fst (save_progress L env (progress_path path) p fs))"
  shows "st path = fs path"
proof (cases "jl_dump L (progress_json p)")
  case (Some meta)
  have "path \<noteq> temp_name env (progress_path path)" "path \<noteq> progress_path path"
    by (simp_all add: temp_name_def progress_path_def)
  moreover have "\<not> is_orphan (we_exists env) (progress_path path) path"
    by (simp add: is_orphan_def progress_path_def Let_def)
  ultimately show ?thesis
    using write_file_others [of st env "progress_path path" "container_put Tag_meta meta container_new" fs path] assms Some
    by (auto simp: save_progress_def)
qed (use assms in \<open>simp add: save_progress_def\<close>)

lemma checkpoint_save_states:
  assumes "st \<in> set (fst (checkpoint_save L env path cp fs))"
  shows "st path = fs path \<or>
    snd (checkpoint_save L sample_env path cp fs) = Inr () \<and>
    st path = last (fst (checkpoint_save L sample_env path cp fs)) path \<and> st path \<noteq> None"
proof (cases "validate_for_save cp = Inr () \<and> jl_dump (cl_json L) runtime_meta \<noteq> None")
  case False
  then have "fst (checkpoint_save L env path cp fs) = [fs]"
    by (cases "validate_for_save cp") (auto simp: checkpoint_save_def)
  then show ?thesis using assms by simp
next
  case True
  then obtain meta where meta: "jl_dump (cl_json L) runtime_meta = Some meta" by auto
  let ?c = "checkpoint_container L meta cp (map (the \<circ> cd_prepared) (cp_documents cp))"
  have save: "checkpoint_save L e path cp fs = write_file e path ?c fs" for e
    using True by (simp add: checkpoint_save_def meta)
  show ?thesis
    using write_file_states [OF assms [unfolded save]]
    by (auto simp: save write_file_result write_file_final sample_env_ok)
qed

text \<open>What the destination's file system and libraries have to provide for its files to be read back.\<close>

definition readable :: "endpoint_env \<Rightarrow> nat \<Rightarrow> active_map \<Rightarrow> migration_progress \<Rightarrow> bool" where
  "readable N n m p \<longleftrightarrow>
     checkpoint_wf (ne_fp N) n (active_checkpoint m p) \<and> std_sort_spec (ne_sort N) \<and>
     lexical_roundtrip (ne_lib N) \<and> ne_view N = view_ok \<and>
     (\<forall>s. jl_dump (cl_json (ne_lib N)) runtime_meta = Some s \<longrightarrow>
        s \<noteq> [] \<and> jl_parse (cl_json (ne_lib N)) s = Some runtime_meta \<and>
        length (serialize (checkpoint_container (ne_lib N) s (active_checkpoint m p) (map (ar_document \<circ> snd) m))) < 2 ^ 64)"

lemma load_saved_active:
  assumes "acts_ok m" and "readable N n m p" and "load_active N path False fs = Inr m0"
    and "st \<in> set (fst (checkpoint_save (ne_lib N) env path (active_checkpoint m p) fs))"
  shows "load_active N path False st \<in> {Inr m0, Inr m}"
  using checkpoint_save_states [OF assms(4)]
proof (elim disjE conjE)
  assume "st path = fs path"
  then show ?thesis using load_active_at [of st path fs N] assms(3) by simp
next
  assume s: "snd (checkpoint_save (ne_lib N) sample_env path (active_checkpoint m p) fs) = Inr ()"
    "st path = last (fst (checkpoint_save (ne_lib N) sample_env path (active_checkpoint m p) fs)) path" "st path \<noteq> None"
  have r: "checkpoint_wf (ne_fp N) n (active_checkpoint m p)" "std_sort_spec (ne_sort N)" "lexical_roundtrip (ne_lib N)"
    "ne_view N = view_ok" using assms(2) by (simp_all add: readable_def)
  have "load_active N path False st = Inr m"
    by (rule load_written_active [where st = st and path = path and fs = fs, OF assms(1) s r]) (use assms(2) in \<open>simp add: readable_def\<close>)
  then show ?thesis by simp
qed

text \<open>The states of the two files a batch writes.\<close>

lemma ee_write_states:
  assumes "ee_write N e run au b p = (states, e', r)" and "st \<in> set states"
  shows "st (ee_path e) = ee_fs e (ee_path e) \<or>
    (\<exists>st' \<in> set (fst (checkpoint_save (ne_lib N) (ne_saves N (ee_saved e)) (ee_path e)
        (active_checkpoint (fst (ee_insert (db_documents b) (ee_active e))) p) (ee_fs e))). st (ee_path e) = st' (ee_path e))"
proof -
  let ?save = "checkpoint_save (ne_lib N) (ne_saves N (ee_saved e)) (ee_path e)
        (active_checkpoint (fst (ee_insert (db_documents b) (ee_active e))) p) (ee_fs e)"
  have ne: "fst ?save \<noteq> []"
    by (auto simp: checkpoint_save_def write_file_def Let_def split: sum.splits option.splits)
  show ?thesis
    using assms ne last_in_set [OF ne]
      progress_file_apart [of st "cl_json (ne_lib N)" "ne_saves N (Suc (ee_saved e))" "ee_path e" p "last (fst ?save)"]
    by (auto simp: ee_write_def Let_def split: if_splits prod.splits sum.splits)
qed

lemma checkpoint_save_done:
  assumes "snd (checkpoint_save L env path cp fs) = Inr ()"
  shows "snd (checkpoint_save L sample_env path cp fs) = Inr () \<and>
    last (fst (checkpoint_save L env path cp fs)) path = last (fst (checkpoint_save L sample_env path cp fs)) path \<and>
    last (fst (checkpoint_save L env path cp fs)) path \<noteq> None"
  using assms
  by (auto simp: checkpoint_save_def write_file_result write_file_final sample_env_ok fail_def split: sum.splits option.splits)

lemma load_completed_active:
  assumes "acts_ok m" and "readable N n m p" and "load_active N path False fs = Inr m0"
    and "snd (checkpoint_save (ne_lib N) env path (active_checkpoint m p) fs) = Inr ()"
    and "st path = last (fst (checkpoint_save (ne_lib N) env path (active_checkpoint m p) fs)) path"
  shows "load_active N path False st = Inr m"
proof -
  have s: "snd (checkpoint_save (ne_lib N) sample_env path (active_checkpoint m p) fs) = Inr ()"
    "st path = last (fst (checkpoint_save (ne_lib N) sample_env path (active_checkpoint m p) fs)) path" "st path \<noteq> None"
    unfolding assms(5) using checkpoint_save_done [OF assms(4)] by blast+
  have r: "checkpoint_wf (ne_fp N) n (active_checkpoint m p)" "std_sort_spec (ne_sort N)" "lexical_roundtrip (ne_lib N)"
    "ne_view N = view_ok" using assms(2) by (simp_all add: readable_def)
  show ?thesis
    by (rule load_written_active [where st = st and path = path and fs = fs, OF assms(1) s r])
      (use assms(2) in \<open>simp add: readable_def\<close>)
qed

lemma ee_write_done:
  assumes "ee_write N e run au b p = (states, e', r)" and "r = Inr ()"
    and "ee_insert (db_documents b) (ee_active e) = (m, Inr ())"
  shows "snd (checkpoint_save (ne_lib N) (ne_saves N (ee_saved e)) (ee_path e) (active_checkpoint m p) (ee_fs e)) = Inr ()"
    and "last states (ee_path e) =
      last (fst (checkpoint_save (ne_lib N) (ne_saves N (ee_saved e)) (ee_path e) (active_checkpoint m p) (ee_fs e))) (ee_path e)"
proof -
  let ?save = "checkpoint_save (ne_lib N) (ne_saves N (ee_saved e)) (ee_path e) (active_checkpoint m p) (ee_fs e)"
  obtain states1 states2 where s: "?save = (states1, Inr ())"
      "save_progress (cl_json (ne_lib N)) (ne_saves N (Suc (ee_saved e))) (progress_path (ee_path e)) p (last states1) = (states2, r)"
      "states = states1 @ states2"
    using assms by (auto simp: ee_write_def Let_def split: if_splits prod.splits sum.splits)
  have "states2 \<noteq> []" using s(2)
    by (auto simp: save_progress_def write_file_def Let_def split: option.splits if_splits)
  then have "last states \<in> set states2" by (simp add: s(3))
  then show "last states (ee_path e) = last (fst ?save) (ee_path e)"
    using progress_file_apart [of "last states" "cl_json (ne_lib N)" "ne_saves N (Suc (ee_saved e))" "ee_path e" p "last states1"] s(1,2)
    by simp
  show "snd ?save = Inr ()" by (simp add: s(1))
qed

text \<open>
  C34: A destination survives a crash. Take an embedded destination whose file holds its documents,
  and a batch whose documents follow them; in every state the file system passes through while the
  batch is written, and whatever fails, the destination opens again, and holds either the documents
  it held before or those and the whole batch; it holds the batch once the write has reported success.\<close>
theorem migration_batch_crash_safe:
  assumes "ee_ok e" and "ee_path e \<noteq> []" and "load_active N (ee_path e) False (ee_fs e) = Inr (ee_active e)"
    and "ordered_docs (ee_docs e @ db_documents b)"
    and "list_all (\<lambda>r. pd_chunks (rd_document r) \<noteq> []) (db_documents b)"
    and "readable N n (acts_of (ee_docs e @ db_documents b)) p"
    and "ee_write N e run au b p = (states, e', r)" and "st \<in> set states"
  shows "\<exists>e''. open_embedded_destination N None (ee_path e) st = Inr e'' \<and>
      ee_docs e'' \<in> {ee_docs e, ee_docs e @ db_documents b} \<and>
      (r = Inr () \<and> st = last states \<longrightarrow> ee_docs e'' = ee_docs e @ db_documents b)"
proof -
  let ?m = "ee_active e @ acts_of (db_documents b)"
  have ok: "acts_ok (ee_active e)" "ordered_docs (map as_record (ee_active e) @ db_documents b)"
    using assms(1,4) by (simp_all add: ee_ok_def ee_docs_def)
  have m: "acts_of (ee_docs e @ db_documents b) = ?m" "map as_record ?m = ee_docs e @ db_documents b"
    using ee_active_docs [OF assms(1)]
    by (simp_all add: acts_of_append ee_docs_def as_record_acts_of del: as_record_simps)
  have ins: "ee_insert (db_documents b) (ee_active e) = (?m, Inr ())" by (rule ee_insert_new [OF ok assms(5)])
  have r: "readable N n ?m p" using assms(6) by (simp only: m(1))
  note good = acts_ok_append [OF ok assms(5)]
  let ?save = "checkpoint_save (ne_lib N) (ne_saves N (ee_saved e)) (ee_path e) (active_checkpoint ?m p) (ee_fs e)"
  have loaded: "load_active N (ee_path e) False st \<in> {Inr (ee_active e), Inr ?m}"
    using ee_write_states [OF assms(7,8)] unfolding ins fst_conv
  proof (elim disjE bexE)
    assume "st (ee_path e) = ee_fs e (ee_path e)"
    then show ?thesis using load_active_at [of st "ee_path e" "ee_fs e" N] assms(3) by simp
  next
    fix st' assume "st' \<in> set (fst ?save)" "st (ee_path e) = st' (ee_path e)"
    then show ?thesis using load_saved_active [OF good r assms(3)] load_active_at [of st "ee_path e" st' N] by simp
  qed
  have final: "load_active N (ee_path e) False st = Inr ?m" if "r = Inr ()" "st = last states"
    using load_completed_active [OF good r assms(3)] ee_write_done [OF assms(7) that(1) ins] that(2) by simp
  obtain m1 where m1: "load_active N (ee_path e) False st = Inr m1" "m1 = ee_active e \<or> m1 = ?m"
      "r = Inr () \<and> st = last states \<longrightarrow> m1 = ?m" using loaded final by blast
  have "map as_record m1 \<in> {ee_docs e, ee_docs e @ db_documents b}" using m1(2) m(2) by (auto simp: ee_docs_def simp del: map_append as_record_simps)
  moreover have "r = Inr () \<and> st = last states \<longrightarrow> map as_record m1 = ee_docs e @ db_documents b" using m1(3) m(2) by simp
  ultimately show ?thesis using m1(1) assms(2) by (simp add: open_embedded_destination_def ee_docs_def [of "\<lparr>ee_path = _, ee_active = _, ee_writable = _, ee_fs = _, ee_saved = _\<rparr>"] del: as_record_simps)
qed

subsection \<open>Audited vectors have one dimension\<close>

lemma audit_chunks_dimension:
  "audit_chunks F key i cs st = Inr st' \<Longrightarrow>
     au_dimension (fst st') = au_dimension (fst st) \<and> au_embedding_identity (fst st') = au_embedding_identity (fst st) \<and>
     list_all (\<lambda>c. length (pc_embedding c) = au_dimension (fst st)) cs"
  by (induction F key i cs st rule: audit_chunks.induct) (auto simp: Let_def split: if_splits)

lemma validated_dimension:
  assumes "validate_document F r st = Inr st'"
  shows "au_embedding_identity (fst st') \<noteq> []"
    and "au_embedding_identity (fst st) \<noteq> [] \<longrightarrow> au_dimension (fst st') = au_dimension (fst st)"
    and "list_all (\<lambda>c. length (pc_embedding c) = au_dimension (fst st')) (pd_chunks (rd_document r))"
  using assms
  by (cases st; auto simp: validate_document_def Let_def and_then_Inr dest!: audit_chunks_dimension split: if_splits)+

lemma audited_dimension:
  "audit_documents F docs prev st = Inr (final, st') \<Longrightarrow>
     (au_embedding_identity (fst st) \<noteq> [] \<longrightarrow> au_dimension (fst st') = au_dimension (fst st)) \<and>
     (\<forall>v \<in> corpus_vectors docs. length v = au_dimension (fst st'))"
proof (induction docs arbitrary: prev st)
  case (Cons r docs)
  then obtain st1 where "validate_document F r st = Inr st1" "audit_documents F docs (rd_key r) st1 = Inr (final, st')"
    by (auto simp: and_then_Inr split: if_splits)
  with Cons.IH [OF this(2)] validated_dimension [OF this(1)] show ?case
    by (auto simp: corpus_vectors_def list_all_iff)
qed (auto simp: corpus_vectors_def)

lemma corpus_audit_dimension:
  "corpus_audit_of F docs = Inr a \<Longrightarrow> v \<in> corpus_vectors docs \<Longrightarrow> length v = au_dimension a"
  by (auto simp: corpus_audit_of_def and_then_Inr finish_audit_def Let_def dest!: audited_dimension)

lemma score_chunks_Inr:
  "list_all (\<lambda>c. length (pc_embedding c) = length q) cs \<Longrightarrow> \<exists>xs. score_chunks dot q cs = Inr xs"
  by (induction cs) auto

lemma found_in_answers:
  assumes "corpus_audit_of F docs = Inr a" and "q \<in> corpus_vectors docs"
  shows "\<exists>xs. found_in N docs q k = Inr xs"
proof -
  have "list_all (\<lambda>c. length (pc_embedding c) = length q) (concat (map (\<lambda>r. pd_chunks (rd_document r)) docs))"
    using corpus_audit_dimension [OF assms(1)] assms(2) by (fastforce simp: list_all_iff corpus_vectors_def)
  from score_chunks_Inr [OF this, of "ne_dot N"] show ?thesis by (auto simp: found_in_def)
qed

subsection \<open>What a migration achieves\<close>

text \<open>
  C32: A migration copies its source. Between any two endpoints that keep the contract of
  \<^verbatim>\<open>contract.hpp\<close> (documents in strictly increasing key order, read in batches, appended by a
  successful write; any call may fail), \<^verbatim>\<open>migrate\<close> always returns and leaves the source as it was.
  When it returns a report, the destination holds exactly the records of the source, in order, each
  equal field by field and vector by vector, whatever prefix it held before; the report is marked
  complete, and both audits in it are the one-pass audit of the source, whatever the batch size.\<close>
theorem migration_copies_source:
  assumes "migration_pair S sdocs svalid D ddocs dvalid" and "svalid s" and "dvalid d"
  shows "\<exists>s' d' r. migrate S D F apart direction options (s, d) = Some ((s', d'), r) \<and> sdocs s' = sdocs s \<and>
    (\<forall>report. r = Inr report \<longrightarrow>
       list_all2 same_record (sdocs s) (ddocs d') \<and> mr_complete report \<and>
       corpus_audit_of F (sdocs s) = Inr (mr_source_audit report) \<and>
       mr_destination_audit report = mr_source_audit report)"
  by (rule migration_pair.migrate_copies [OF assms])

text \<open>
  C33: A migration completes, and an interrupted one can be resumed. Take an embedded source that
  passes its audit and an embedded destination that holds any prefix of it (nothing, or what an
  interrupted run left), with progress of this run or none; when the corpus can be stored and no file
  write fails, \<^verbatim>\<open>migrate\<close> returns a completed report under the audit of the source, and the
  destination holds the source's documents.\<close>
theorem migration_completes:
  assumes "ee_ok s" and "ee_ready N d" and "corpus_audit_of F (ee_docs s) = Inr a"
    and "ee_docs d = take k (ee_docs s)"
    and "ee_progress N d (run_id direction (au_fingerprint a)) = Inr prior"
    and "prior = None \<or> mp_source_fingerprint (the prior) = au_fingerprint a"
    and "\<And>k. storable_corpus a (take k (ee_docs s))" and "\<And>x. \<not> apart x x"
    and "direction \<noteq> []" and "0 < mo_batch_size options" and "mo_batch_size options \<le> 10000"
    and "mo_sample_searches options \<le> 1000"
  shows "\<exists>s' d' report. migrate (embedded_endpoint_ops (N\<lparr>ne_saves := saves\<rparr>)) (embedded_endpoint_ops N) F apart
      direction options (s, d) = Some ((s', d'), Inr report) \<and>
    ee_docs d' = ee_docs s \<and> mr_complete report \<and> mr_source_audit report = a"
proof (rule ready.migrate_completes [OF assms(1-4) _ assms(6-8) _ assms(9-12)])
  show "snd (ep_progress (embedded_endpoint_ops N) d (run_id direction (au_fingerprint a))) = Inr prior"
    using assms(5) by (simp add: embedded_endpoint_ops_def)
  show "\<exists>xs. found_in N (ee_docs s) q k = Inr xs" if "q \<in> corpus_vectors (ee_docs s)" for q k
    by (rule found_in_answers [OF assms(3) that])
qed

definition total_lib :: checkpoint_lib where
  "total_lib = plain_lexical\<lparr>cl_json := (cl_json plain_lexical)\<lparr>jl_dump := \<lambda>_. Some ''M''\<rparr>\<rparr>"

definition sample_endpoint_env :: endpoint_env where
  "sample_endpoint_env = \<lparr>ne_lib = total_lib, ne_fp = sample_fp, ne_dot = (\<lambda>q v. hd v), ne_view = view_ok,
     ne_sort = stable_sort, ne_job_os = sample_job_os, ne_saves = (\<lambda>_. sample_env)\<rparr>"

definition migrated_document :: prepared_document where
  "migrated_document = \<lparr>pd_key = ''d'', pd_title = [], pd_content = ''c'', pd_metadata = [],
     pd_content_hash = document_content_hash [] ''c'' [], pd_chunking_fingerprint = ''f'', pd_embedding_identity = ''e'',
     pd_chunks = [\<lparr>pc_key = stable_chunk_key ''d'' 1 1 ''c'', pc_ordinal = 0, pc_text = ''c'', pc_indexed_text = ''c'',
                   pc_context = [], pc_start_line = 1, pc_end_line = 1, pc_embedding = unit_vector\<rparr>]\<rparr>"

definition sample_source :: embedded_endpoint where
  "sample_source = \<lparr>ee_path = ''s'', ee_active = [(''d'', \<lparr>ar_document = migrated_document, ar_revision = 1\<rparr>)],
     ee_writable = False, ee_fs = (\<lambda>_. None), ee_saved = 0\<rparr>"

definition sample_destination :: embedded_endpoint where
  "sample_destination = \<lparr>ee_path = ''t'', ee_active = [], ee_writable = True, ee_fs = (\<lambda>_. None), ee_saved = 0\<rparr>"

lemma sample_endpoints_ok:
  "ee_ok sample_source" "ee_ok sample_destination" "ee_ready sample_endpoint_env sample_destination"
  by (simp_all add: ee_ready_def ee_ok_def acts_ok_def sample_source_def sample_destination_def omap_wf_def migrated_document_def
      env_ok_def sample_endpoint_env_def total_lib_def sample_env_ok)

theorem migration_copies_source_witness:
  "\<exists>s' d' r. migrate (embedded_endpoint_ops sample_endpoint_env) (embedded_endpoint_ops sample_endpoint_env) sample_fp (\<noteq>)
      ''embedded-to-embedded'' \<lparr>mo_batch_size = 2, mo_sample_searches = 1\<rparr> (sample_source, sample_destination) =
    Some ((s', d'), r) \<and> ee_docs s' = ee_docs sample_source"
  using migration_copies_source [OF embedded_pair.migration_pair_axioms sample_endpoints_ok(1,2)] by blast

definition sample_corpus_audit :: corpus_audit where
  "sample_corpus_audit = (case corpus_audit_of sample_fp (ee_docs sample_source) of Inr a \<Rightarrow> a)"

lemma sample_audited: "corpus_audit_of sample_fp (ee_docs sample_source) = Inr sample_corpus_audit"
  by (simp add: sample_corpus_audit_def corpus_audit_of_def ee_docs_def sample_source_def validate_document_def
      migrated_document_def Let_def empty_audit_def stable_chunk_key_def document_content_hash_def unit_vector_def f32_finite_def
      sample_fp_def kEmbeddingTolerance_def finish_audit_def)

lemma sample_corpus_storable: "storable_corpus sample_corpus_audit (take k (ee_docs sample_source))"
proof (cases k)
  case 0
  then show ?thesis
    by (simp add: storable_corpus_def acts_of_def identity_differs_def validate_for_save_def active_checkpoint_def)
next
  case (Suc i)
  have au: "au_embedding_identity sample_corpus_audit = ''e''" "au_chunking_fingerprint sample_corpus_audit = ''f''"
      "au_dimension sample_corpus_audit = 1"
    by (simp_all add: sample_corpus_audit_def corpus_audit_of_def ee_docs_def sample_source_def validate_document_def
      migrated_document_def Let_def empty_audit_def stable_chunk_key_def document_content_hash_def unit_vector_def f32_finite_def
      sample_fp_def kEmbeddingTolerance_def finish_audit_def)
  show ?thesis
    using au
    by (simp add: Suc storable_corpus_def acts_of_def identity_differs_def validate_for_save_def active_checkpoint_def
        ee_docs_def sample_source_def migrated_document_def unit_vector_def valid_string_def stable_chunk_key_def
        document_content_hash_def kMaxDocuments_def kMaxChunks_def kMaxMetadataEntries_def kMaxVectorDimension_def Let_def)
qed

theorem migration_completes_witness:
  "\<exists>s' d' report. migrate (embedded_endpoint_ops (sample_endpoint_env\<lparr>ne_saves := \<lambda>_. sample_env\<rparr>))
      (embedded_endpoint_ops sample_endpoint_env) sample_fp (\<noteq>) ''embedded-to-embedded''
      \<lparr>mo_batch_size = 2, mo_sample_searches = 1\<rparr> (sample_source, sample_destination) = Some ((s', d'), Inr report) \<and>
    ee_docs d' = ee_docs sample_source \<and> mr_complete report \<and> mr_source_audit report = sample_corpus_audit"
  by (rule migration_completes [OF sample_endpoints_ok(1,3) sample_audited _ _ _ sample_corpus_storable, of 0 _ None])
    (simp_all add: sample_destination_def ee_docs_def ee_progress_def load_progress_def)

text \<open>The crash-safety of a batch on the sample corpus.\<close>

lemma sample_readable:
  "readable sample_endpoint_env 1 (acts_of (ee_docs sample_destination @ ee_docs sample_source)) p"
proof -
  have lex: "lexical_roundtrip total_lib"
    using plain_lexical_roundtrip by (simp add: lexical_roundtrip_def total_lib_def)
  have key: "length (stable_chunk_key ''d'' 1 1 ''c'') = 20" "length (document_content_hash [] ''c'' []) = 24"
    by (simp_all add: stable_chunk_key_def document_content_hash_def)
  show ?thesis
    using lex std_sort_examples(1)
    by (simp add: readable_def sample_endpoint_env_def ee_docs_def sample_source_def sample_destination_def acts_of_def
        active_checkpoint_def checkpoint_wf_def document_storable_def migrated_document_def vector_storable_def
        unit_vector_def f32_finite_def sample_fp_def kEmbeddingTolerance_def omap_wf_def valid_string_def key
        kMaxDocuments_def kMaxChunks_def kMaxMetadataEntries_def kMaxVectorDimension_def chunk_rows_def total_lib_def
        plain_lexical_def table_lib_def length_serialize payload_size_def checkpoint_container_def container_put_def
        container_set_flags_def container_new_def documents_section_def chunks_section_def embeddings_section_def
        runtime_section_def wr_document_def wr_metadata_def wr_chunk_def wr_vector_def wr_runtime_document_def
        wr_runtime_chunk_def wr_revision_def wr_str_def)
qed

lemma ee_write_states_nonempty: "ee_write N e run au b p = (states, e', r) \<Longrightarrow> states \<noteq> []"
proof -
  have "fst (checkpoint_save L env path cp fs) \<noteq> []" for L env path cp fs
    by (auto simp: checkpoint_save_def write_file_def Let_def split: sum.splits option.splits)
  then show "ee_write N e run au b p = (states, e', r) \<Longrightarrow> states \<noteq> []"
    by (auto simp: ee_write_def Let_def split: if_splits prod.splits sum.splits) (metis fst_conv)+
qed

definition sample_batch :: document_batch where
  "sample_batch = \<lparr>db_documents = ee_docs sample_source, db_next_cursor = ''d'', db_complete = True\<rparr>"

definition sample_progress :: migration_progress where
  "sample_progress = (start_progress ''r'' (au_fingerprint sample_corpus_audit))\<lparr>mp_documents := 1, mp_complete := True\<rparr>"

theorem migration_batch_crash_safe_witness:
  "\<exists>e. open_embedded_destination sample_endpoint_env None ''t''
      (last (fst (ee_write sample_endpoint_env sample_destination ''r'' sample_corpus_audit sample_batch sample_progress))) = Inr e \<and>
    ee_docs e = ee_docs sample_source"
proof -
  obtain states e' r where w: "ee_write sample_endpoint_env sample_destination ''r'' sample_corpus_audit sample_batch sample_progress
      = (states, e', r)" by (metis prod_cases3)
  have empty: "ee_docs sample_destination @ db_documents sample_batch = ee_docs sample_source"
    by (simp add: ee_docs_def sample_destination_def sample_batch_def)
  have ord: "ordered_docs (ee_docs sample_destination @ db_documents sample_batch)"
    unfolding empty using ordered_as_record sample_endpoints_ok(1) by (simp add: ee_ok_def ee_docs_def)
  have good: "list_all (\<lambda>r. pd_chunks (rd_document r) \<noteq> []) (db_documents sample_batch)"
    by (simp add: sample_batch_def ee_docs_def sample_source_def migrated_document_def)
  have "storable_corpus sample_corpus_audit (ee_docs sample_destination @ db_documents sample_batch)"
    unfolding empty using sample_corpus_storable [of 1] by (simp add: ee_docs_def sample_source_def)
  moreover have "mp_run_id sample_progress = ''r''" "mp_source_fingerprint sample_progress = au_fingerprint sample_corpus_audit"
    by (simp_all add: sample_progress_def start_progress_def)
  ultimately have "snd (snd (states, e', r)) = Inr ()"
    using ee_write_ok [OF sample_endpoints_ok(3) ord good] by (metis w)
  then have "r = Inr ()" by simp
  moreover have "ee_path sample_destination \<noteq> []"
    "load_active sample_endpoint_env (ee_path sample_destination) False (ee_fs sample_destination) = Inr (ee_active sample_destination)"
    by (simp_all add: sample_destination_def load_active_def)
  moreover have "readable sample_endpoint_env 1 (acts_of (ee_docs sample_destination @ db_documents sample_batch)) sample_progress"
    using sample_readable by (simp add: sample_batch_def)
  ultimately show ?thesis
    using migration_batch_crash_safe [OF sample_endpoints_ok(2) _ _ ord good _ w last_in_set [OF ee_write_states_nonempty [OF w]]] empty
    by (auto simp: w sample_destination_def [THEN arg_cong, of ee_path, simplified])
qed

subsection \<open>The source is its checkpoint overlaid by the ready jobs of its log\<close>

definition ready_for :: "document_key \<Rightarrow> ingestion_job \<Rightarrow> bool" where
  "ready_for k j \<longleftrightarrow> job_status j = Job_ready \<and> in_document (job_input j) = k"

fun in_revision_order :: "ingestion_job list \<Rightarrow> bool" where
  "in_revision_order [] \<longleftrightarrow> True"
| "in_revision_order (j # js) \<longleftrightarrow>
     (job_status j = Job_ready \<longrightarrow>
        list_all (\<lambda>i. ready_for (in_document (job_input j)) i \<longrightarrow> job_revision j < job_revision i) js) \<and>
     in_revision_order js"

definition overlaid :: "active_record option \<Rightarrow> ingestion_job option \<Rightarrow> active_record option" where
  "overlaid current newest =
     (case newest of
        None \<Rightarrow> current
      | Some j \<Rightarrow>
          (if job_revision j \<le> (case current of None \<Rightarrow> 0 | Some a \<Rightarrow> ar_revision a) then current
           else if job_operation j = Op_erase then None
           else Some \<lparr>ar_document = the (job_prepared j), ar_revision = job_revision j\<rparr>))"

lemma overlaid_None [simp]: "overlaid current None = current"
  by (simp add: overlaid_def)

lemma find_snoc: "find P (xs @ [x]) = (case find P xs of None \<Rightarrow> if P x then Some x else None | Some y \<Rightarrow> Some y)"
  by (induction xs) auto

text \<open>
  C35: What a migration reads from an embedded source. When the ready jobs of each document stand in
  the log's creation order in the order of their revisions, the documents are the checkpoint overlaid,
  document by document, by the last ready job: it replaces the document, or removes it when it is an
  erasure, exactly when its revision is newer than the checkpoint's.\<close>
theorem migration_source_overlay:
  assumes "ready_jobs js m = Inr m'" and "in_revision_order js"
  shows "map_of m' k = overlaid (map_of m k) (find (ready_for k) (rev js))"
  using assms
proof (induction js arbitrary: m)
  case (Cons j js)
  let ?key = "in_document (job_input j)"
  show ?case
  proof (cases "job_status j = Job_ready")
    case False
    then have "\<not> ready_for k j" by (simp add: ready_for_def)
    then show ?thesis using Cons False by (simp add: find_snoc split: option.split)
  next
    case True
    let ?current = "case map_of m ?key of None \<Rightarrow> 0 | Some a \<Rightarrow> ar_revision a"
    show ?thesis
    proof (cases "job_revision j \<le> ?current")
      case stale: True
      then have "map_of m' k = overlaid (map_of m k) (find (ready_for k) (rev js))" using Cons True by simp
      moreover have "overlaid (map_of m k) (Some j) = map_of m k" if "ready_for k j"
        using that stale by (simp add: overlaid_def ready_for_def)
      ultimately show ?thesis by (cases "find (ready_for k) (rev js)") (simp_all add: find_snoc)
    next
      case False
      define m1 where "m1 = (if job_operation j = Op_erase then omap_del ?key m
        else omap_put ?key \<lparr>ar_document = the (job_prepared j), ar_revision = job_revision j\<rparr> m)"
      have "ready_jobs js m1 = Inr m'"
        using Cons.prems(1) True False by (auto simp: m1_def Let_def fail_def split: if_splits option.splits)
      then have ih: "map_of m' k = overlaid (map_of m1 k) (find (ready_for k) (rev js))"
        using Cons.IH Cons.prems(2) by simp
      show ?thesis
      proof (cases "k = ?key")
        case other: False
        then have "map_of m1 k = map_of m k" "\<not> ready_for k j" by (auto simp: m1_def ready_for_def)
        then show ?thesis using ih by (simp add: find_snoc split: option.split)
      next
        case same: True
        have now: "map_of m1 k = overlaid (map_of m k) (Some j)" "ready_for k j"
          using False True same by (auto simp: m1_def overlaid_def ready_for_def)
        show ?thesis
        proof (cases "find (ready_for k) (rev js)")
          case None
          then show ?thesis using ih now by (simp add: find_snoc overlaid_def)
        next
          case (Some x)
          have x: "ready_for ?key x" "x \<in> set js" using find_SomeD [OF Some] same by auto
          then have newer: "job_revision j < job_revision x" using Cons.prems(2) True by (auto simp: list_all_iff)
          then have "\<not> job_revision x \<le> ?current" "job_revision x \<noteq> 0" using False by auto
          then show ?thesis using ih Some newer False same True
            by (auto simp: find_snoc overlaid_def m1_def split: option.splits)
        qed
      qed
    qed
  qed
qed (simp add: overlaid_def)

definition ready_job :: "job_operation \<Rightarrow> document_revision \<Rightarrow> int \<Rightarrow> ingestion_job" where
  "ready_job oper revision created =
     \<lparr>job_id = ''job_'' @ to_dec (unat revision), job_operation = oper,
      job_input = \<lparr>in_document = ''d'', in_title = [], in_content = [], in_metadata = []\<rparr>,
      job_revision = revision, job_content_hash = pd_content_hash migrated_document, job_status = Job_ready,
      job_created_at_ms = created, job_updated_at_ms = created, job_error = None,
      job_prepared = (if oper = Op_erase then None else Some migrated_document), job_mutation_applied = None\<rparr>"

theorem migration_source_overlay_witness:
  "\<exists>m'. ready_jobs [ready_job Op_upsert 1 10, ready_job Op_erase 2 20] [] = Inr m' \<and> map_of m' ''d'' = None"
proof -
  have order: "in_revision_order [ready_job Op_upsert 1 10, ready_job Op_erase 2 20]"
    by (simp add: ready_job_def)
  have run: "ready_jobs [ready_job Op_upsert 1 10, ready_job Op_erase 2 20] [] = Inr []"
    by (simp add: ready_job_def migrated_document_def omap_del_def Let_def word_le_nat_alt)
  show ?thesis
    using migration_source_overlay [OF run order, of "''d''"] run
    by (simp add: ready_job_def ready_for_def overlaid_def)
qed

text \<open>
  The order is needed. Jobs are sorted by the wall clock of their creation, and an erasure leaves no
  trace of its revision: when the clock was set back between the two, a document whose erasure is the
  newest ready job is migrated at its old revision.
\<close>

lemma erased_document_migrated:
  "ready_jobs (sort_jobs [ready_job Op_upsert 1 20, ready_job Op_erase 2 10]) [] =
     Inr [(''d'', \<lparr>ar_document = migrated_document, ar_revision = 1\<rparr>)]"
  by (simp add: sort_jobs_def ready_job_def migrated_document_def omap_del_def Let_def word_le_nat_alt)

text \<open>The sampling loop overshoots the requested sample from the second document of a batch on.\<close>

lemma sampling_overshoots:
  "length (sample_documents 1 [\<lparr>rd_document = migrated_document, rd_revision = 1\<rparr>,
     \<lparr>rd_document = migrated_document, rd_revision = 2\<rparr>] []) = 2"
  by (simp add: sample_documents_def migrated_document_def)

end
