(* ===== verification/Api_Config.thy ===== *)
theory Api_Config
  imports Core_Types
begin

text \<open>
  \<^verbatim>\<open>src/config.cpp\<close>: the validation of a configuration and the check of the API key, and
  \<^verbatim>\<open>rag.cpp/src/backend/postgres_config.cpp\<close>: the validation of a PostgreSQL connection. The fields
  that no check reads are left out of the configuration record; libpq's parser of connection strings
  is a parameter. Shown here: the constant-width comparison of keys is equality; an accepted
  configuration never listens beyond loopback without a key, and keeps the model listeners on
  loopback; an accepted remote database connection verifies the server's certificate, for hosts
  whose name does not begin with \<^verbatim>\<open>127.\<close>.
\<close>

unbundle bit_operations_syntax

subsection \<open>The configuration\<close>

record listen_endpoint =
  le_host :: string
  le_port :: u16

record native_hnsw_config =
  nh_neighbors :: u64
  nh_ef_construction :: u64
  nh_ef_search :: u64

record faiss_dense_config =
  fd_hnsw_neighbors :: u64
  fd_ef_construction :: u64
  fd_ef_search :: u64
  fd_ivf_lists :: u64
  fd_ivf_probes :: u64
  fd_minimum_training_vectors :: u64
  fd_pq_subquantizers :: u64
  fd_pq_bits :: u64

record dense_config =
  dc_implementation :: string
  dc_algorithm :: string
  dc_exact_threshold :: u64
  dc_hnsw :: native_hnsw_config
  dc_faiss :: faiss_dense_config

record postgres_section =
  ps_connection_env :: string
  ps_schema :: string
  ps_corpus :: string
  ps_pool_size :: u64
  ps_acquire_timeout_ms :: u64
  ps_statement_timeout_ms :: u64
  ps_vector_index :: string
  ps_hnsw_ef_search :: u64

record config =
  cfg_listen :: listen_endpoint
  cfg_embedding :: listen_endpoint
  cfg_generation :: listen_endpoint
  cfg_index_path :: string
  cfg_backend :: string
  cfg_embedded_path :: string
  cfg_dense :: dense_config
  cfg_postgres :: postgres_section
  cfg_embedding_model :: string
  cfg_generation_model :: string
  cfg_pooling :: string
  cfg_embedding_dimension :: u64
  cfg_embedding_context_size :: u64
  cfg_embedding_batch_size :: u64
  cfg_generation_context_size :: u64
  cfg_context_tokens :: u64
  cfg_api_key :: string
  cfg_spawn :: bool
  cfg_ingestion_workers :: u64
  cfg_ingestion_queue_capacity :: u64

text \<open>The build's compile-time switches.\<close>

record build_flags =
  bf_faiss :: bool
  bf_postgres :: bool

subsection \<open>Validation\<close>

text \<open>\<^verbatim>\<open>std::runtime_error\<close> is the left side of the result.\<close>

definition loopback :: "string \<Rightarrow> bool" where
  "loopback host \<longleftrightarrow> host = ''127.0.0.1'' \<or> host = ''localhost'' \<or> host = ''::1''"

definition ascii_alpha :: "char \<Rightarrow> bool" where
  "ascii_alpha c \<longleftrightarrow> (let b = (of_char c :: nat) in 65 \<le> b \<and> b \<le> 90 \<or> 97 \<le> b \<and> b \<le> 122)"

definition ascii_alnum :: "char \<Rightarrow> bool" where
  "ascii_alnum c \<longleftrightarrow> ascii_alpha c \<or> (let b = (of_char c :: nat) in 48 \<le> b \<and> b \<le> 57)"

definition identifier_ok :: "string \<Rightarrow> bool" where
  "identifier_ok value \<longleftrightarrow>
     value \<noteq> [] \<and> length value \<le> 63 \<and> (ascii_alpha (hd value) \<or> hd value = CHR ''_'') \<and>
     list_all (\<lambda>b. ascii_alnum b \<or> b = CHR ''_'') (tl value)"

definition key_byte_ok :: "char \<Rightarrow> bool" where
  "key_byte_ok c \<longleftrightarrow> \<not> ((of_char c :: nat) < 0x21 \<or> (of_char c :: nat) = 0x7F)"

definition native_hnsw_invalid :: "native_hnsw_config \<Rightarrow> bool" where
  "native_hnsw_invalid h \<longleftrightarrow>
     nh_neighbors h < 2 \<or> nh_neighbors h > 128 \<or> nh_ef_construction h < nh_neighbors h \<or> nh_ef_search h = 0"

definition faiss_invalid :: "faiss_dense_config \<Rightarrow> bool" where
  "faiss_invalid f \<longleftrightarrow>
     fd_hnsw_neighbors f < 2 \<or> fd_hnsw_neighbors f > 128 \<or>
     fd_ef_construction f < fd_hnsw_neighbors f \<or> fd_ef_search f = 0 \<or> fd_ivf_lists f = 0 \<or>
     fd_ivf_probes f = 0 \<or> fd_ivf_probes f > fd_ivf_lists f \<or>
     fd_minimum_training_vectors f = 0 \<or> fd_pq_subquantizers f = 0 \<or>
     fd_pq_bits f \<noteq> 8 \<and> fd_pq_bits f \<noteq> 12 \<and> fd_pq_bits f \<noteq> 16"

definition postgres_section_invalid :: "postgres_section \<Rightarrow> bool" where
  "postgres_section_invalid p \<longleftrightarrow>
     \<not> identifier_ok (ps_connection_env p) \<or> \<not> identifier_ok (ps_schema p) \<or> ps_corpus p = [] \<or>
     ps_pool_size p = 0 \<or> ps_pool_size p > 32 \<or> ps_acquire_timeout_ms p = 0 \<or>
     ps_statement_timeout_ms p = 0 \<or> ps_statement_timeout_ms p > 600000 \<or>
     ps_vector_index p \<noteq> ''exact'' \<and> ps_vector_index p \<noteq> ''hnsw'' \<or>
     ps_hnsw_ef_search p = 0 \<or> ps_hnsw_ef_search p > 10000"

definition dense_invalid :: "dense_config \<Rightarrow> bool" where
  "dense_invalid d \<longleftrightarrow>
     (let native_algorithm = (dc_algorithm d = ''automatic'' \<or> dc_algorithm d = ''exact'' \<or> dc_algorithm d = ''hnsw'');
          faiss_algorithm = (dc_algorithm d = ''flat'' \<or> dc_algorithm d = ''hnsw'' \<or>
                             dc_algorithm d = ''ivf-sq8'' \<or> dc_algorithm d = ''ivf-pq'')
      in dc_exact_threshold d = 0 \<or> dc_implementation d = ''native'' \<and> \<not> native_algorithm \<or>
         dc_implementation d = ''faiss'' \<and> \<not> faiss_algorithm \<or>
         dc_implementation d \<noteq> ''native'' \<and> dc_implementation d \<noteq> ''faiss'')"

definition validate_config :: "build_flags \<Rightarrow> config \<Rightarrow> string + unit" where
  "validate_config B c =
     (if \<not> loopback (le_host (cfg_embedding c)) \<or> \<not> loopback (le_host (cfg_generation c))
      then Inl ''private model listeners must bind to loopback''
      else if \<not> loopback (le_host (cfg_listen c)) \<and> cfg_api_key c = []
      then Inl ''a coordinator API key is required outside loopback''
      else if cfg_api_key c \<noteq> [] \<and> length (cfg_api_key c) < 16
      then Inl ''coordinator API key must contain at least 16 bytes''
      else if \<not> list_all key_byte_ok (cfg_api_key c)
      then Inl ''coordinator API key contains invalid characters''
      else if le_port (cfg_embedding c) = le_port (cfg_generation c) \<or>
              le_port (cfg_listen c) = le_port (cfg_embedding c) \<or>
              le_port (cfg_listen c) = le_port (cfg_generation c)
      then Inl ''listener ports must be distinct''
      else if cfg_pooling c \<noteq> ''mean'' then Inl ''embedding pooling must be mean''
      else if cfg_embedding_dimension c = 0 \<or> cfg_embedding_context_size c = 0 \<or>
              cfg_embedding_batch_size c < cfg_embedding_context_size c \<or> cfg_context_tokens c = 0 \<or>
              cfg_context_tokens c \<ge> cfg_generation_context_size c
      then Inl ''invalid model dimension or context budget''
      else if cfg_ingestion_workers c = 0 \<or> cfg_ingestion_workers c > 4 \<or> cfg_ingestion_queue_capacity c = 0
      then Inl ''ingestion workers must be 1-4 and queue capacity non-zero''
      else if cfg_backend c \<noteq> ''embedded'' \<and> cfg_backend c \<noteq> ''postgres''
      then Inl ''configured retrieval backend is not available''
      else if cfg_backend c = ''embedded'' \<and> (cfg_index_path c = [] \<or> cfg_embedded_path c = [])
      then Inl ''embedded retrieval path is invalid''
      else if dense_invalid (cfg_dense c)
      then Inl ''invalid embedded dense implementation or algorithm''
      else if \<not> bf_faiss B \<and> dc_implementation (cfg_dense c) = ''faiss''
      then Inl ''FAISS support is not enabled in this build''
      else if native_hnsw_invalid (dc_hnsw (cfg_dense c))
      then Inl ''invalid native HNSW configuration''
      else if faiss_invalid (dc_faiss (cfg_dense c))
      then Inl ''invalid FAISS dense configuration''
      else if cfg_backend c = ''postgres'' \<and> \<not> bf_postgres B
      then Inl ''PostgreSQL support is not enabled in this build''
      else if cfg_backend c = ''postgres'' \<and> postgres_section_invalid (cfg_postgres c)
      then Inl ''invalid PostgreSQL retrieval configuration''
      else if cfg_spawn c \<and> (cfg_embedding_model c = [] \<or> cfg_generation_model c = [])
      then Inl ''both GGUF model paths are required when process spawning is enabled''
      else Inr ())"

subsection \<open>The API key\<close>

text \<open>The loop of \<^verbatim>\<open>authenticate_api_key\<close>: every byte of the wider key is looked at.\<close>

fun key_difference :: "string \<Rightarrow> string \<Rightarrow> nat \<Rightarrow> nat \<Rightarrow> u64 \<Rightarrow> u64" where
  "key_difference expected supplied i 0 difference = difference"
| "key_difference expected supplied i (Suc left) difference =
     (let l = (if i < length expected then of_char (expected ! i) else 0 :: u8);
          r = (if i < length supplied then of_char (supplied ! i) else 0 :: u8)
      in key_difference expected supplied (Suc i) left (difference OR ucast (l XOR r)))"

definition authenticate_api_key :: "config \<Rightarrow> string \<Rightarrow> bool" where
  "authenticate_api_key c supplied =
     (if cfg_api_key c = [] then True
      else
        let expected = cfg_api_key c; width = max (length expected) (length supplied);
            difference = (of_nat (length expected) :: u64) XOR of_nat (length supplied)
        in key_difference expected supplied 0 width difference = 0)"

definition authorize_api_request :: "config \<Rightarrow> nat \<Rightarrow> string \<Rightarrow> bool" where
  "authorize_api_request c header_count supplied \<longleftrightarrow>
     cfg_api_key c = [] \<or> header_count = 1 \<and> authenticate_api_key c supplied"

subsection \<open>PostgreSQL connections\<close>

record postgres_config =
  pq_connection_string :: string
  pq_schema :: string
  pq_corpus :: string
  pq_pool_size :: u64
  pq_acquire_timeout :: int
  pq_statement_timeout :: int
  pq_hnsw_ef_search :: u64

definition loopback_host :: "string \<Rightarrow> bool" where
  "loopback_host host \<longleftrightarrow>
     host = [] \<or> host = ''localhost'' \<or> host = ''::1'' \<or> hd host = CHR ''/'' \<or> take 4 host = ''127.''"

text \<open>The comma-separated list of hosts, each of them checked.\<close>

function all_loopback :: "string \<Rightarrow> bool" where
  "all_loopback hosts =
     (let host = takeWhile (\<lambda>c. c \<noteq> CHR '','') hosts; rest = drop (length host) hosts in
      if \<not> loopback_host host then False
      else if rest = [] then True
      else all_loopback (tl rest))"
  by pat_completeness auto
termination
  by (relation "measure length") (auto simp: Let_def length_takeWhile_le neq_Nil_conv dest!: arg_cong [where f = length])

declare all_loopback.simps [simp del]

text \<open>The last value of a keyword among the parsed options; libpq gives none as the empty string.\<close>

definition option_value :: "string \<Rightarrow> (string \<times> string option) list \<Rightarrow> string" where
  "option_value keyword options =
     fold (\<lambda>(k, v) current. if k = keyword then (case v of None \<Rightarrow> [] | Some x \<Rightarrow> x) else current) options []"

text \<open>\<open>parse\<close>: \<^verbatim>\<open>PQconninfoParse\<close>, \<open>None\<close> for a string it rejects.\<close>

definition validate_postgres_config ::
    "(string \<Rightarrow> (string \<times> string option) list option) \<Rightarrow> postgres_config \<Rightarrow> unit result" where
  "validate_postgres_config parse c =
     (if pq_connection_string c = []
      then fail Errc_invalid_argument ''PostgreSQL connection string is required''
      else if \<not> identifier_ok (pq_schema c) \<or> pq_corpus c = [] \<or> length (pq_corpus c) > 256
      then fail Errc_invalid_argument ''PostgreSQL schema or corpus is invalid''
      else if pq_pool_size c = 0 \<or> pq_pool_size c > 32 \<or> pq_acquire_timeout c \<le> 0 \<or>
              pq_statement_timeout c \<le> 0 \<or> pq_statement_timeout c > 600000 \<or>
              pq_hnsw_ef_search c = 0 \<or> pq_hnsw_ef_search c > 10000
      then fail Errc_invalid_argument ''PostgreSQL pool or timeout policy is invalid''
      else case parse (pq_connection_string c) of
        None \<Rightarrow> fail Errc_invalid_argument ''PostgreSQL connection string is invalid''
      | Some options \<Rightarrow>
          (let host = option_value ''host'' options; hostaddr = option_value ''hostaddr'' options;
               sslmode = option_value ''sslmode'' options;
               local = (all_loopback host \<and> all_loopback hostaddr)
           in if \<not> local \<and> sslmode \<noteq> ''verify-ca'' \<and> sslmode \<noteq> ''verify-full''
              then fail Errc_invalid_argument ''non-loopback PostgreSQL connections require certificate-verifying TLS''
              else Inr ()))"

subsection \<open>Comparing keys\<close>

lemma or_eq_zero: "(a :: u64) OR b = 0 \<longleftrightarrow> a = 0 \<and> b = 0"
  by (auto simp: bit_eq_iff bit_or_iff)

lemma xor_eq_zero: "(a :: 'a::len word) XOR b = 0 \<longleftrightarrow> a = b"
  by (auto simp: bit_eq_iff bit_xor_iff)

lemma ucast_u8_zero: "(ucast (x :: u8) :: u64) = 0 \<longleftrightarrow> x = 0"
proof
  assume "(ucast x :: u64) = 0"
  then have zero: "\<not> bit (ucast x :: u64) n" for n by simp
  show "x = 0"
  proof (rule bit_word_eqI)
    fix n assume "n < LENGTH(8)"
    then show "bit x n \<longleftrightarrow> bit (0 :: u8) n" using zero [of n] by (simp add: bit_ucast_iff)
  qed
qed simp

abbreviation padded :: "string \<Rightarrow> nat \<Rightarrow> u8" where
  "padded s i \<equiv> (if i < length s then of_char (s ! i) else 0)"

lemma key_difference_zero:
  "key_difference expected supplied i n d = 0 \<longleftrightarrow>
     d = 0 \<and> (\<forall>j. i \<le> j \<and> j < i + n \<longrightarrow> padded expected j = padded supplied j)"
proof (induction n arbitrary: i d)
  case (Suc n)
  have range: "i \<le> j \<and> j < i + Suc n \<longleftrightarrow> j = i \<or> Suc i \<le> j \<and> j < Suc i + n" for j by auto
  show ?case
    unfolding range
    by (simp add: Let_def Suc.IH or_eq_zero ucast_u8_zero xor_eq_zero del: if_split_asm) blast
qed auto

lemma of_char_u8_inject: "(of_char c :: u8) = of_char d \<longleftrightarrow> c = d"
proof
  assume "(of_char c :: u8) = of_char d"
  then have "(of_nat (of_char c) :: u8) = of_nat (of_char d)" by (simp add: of_nat_of_char)
  moreover have "(of_char c :: nat) < 2 ^ LENGTH(8)" "(of_char d :: nat) < 2 ^ LENGTH(8)"
    using of_char_lt_256 [of c] of_char_lt_256 [of d] by simp_all
  ultimately have "(of_char c :: nat) = of_char d"
    by (metis of_nat_inverse)
  then show "c = d" by simp
qed simp

text \<open>\<^verbatim>\<open>size_t\<close> bounds the length of every key.\<close>

lemma authenticate_iff:
  assumes "cfg_api_key c \<noteq> []" and "length (cfg_api_key c) < 2 ^ 64" and "length supplied < 2 ^ 64"
  shows "authenticate_api_key c supplied \<longleftrightarrow> supplied = cfg_api_key c"
proof
  assume "authenticate_api_key c supplied"
  then have len: "(of_nat (length (cfg_api_key c)) :: u64) = of_nat (length supplied)"
    and same: "\<forall>j < max (length (cfg_api_key c)) (length supplied). padded (cfg_api_key c) j = padded supplied j"
    using assms(1) by (auto simp: authenticate_api_key_def Let_def key_difference_zero xor_eq_zero)
  from arg_cong [OF len, of unat] have "length supplied = length (cfg_api_key c)"
    using assms(2,3) by (simp add: unat_of_nat take_bit_nat_eq_self)
  then show "supplied = cfg_api_key c"
    using same by (auto intro!: nth_equalityI simp: of_char_u8_inject)
qed (use assms(1) in \<open>simp add: authenticate_api_key_def key_difference_zero\<close>)

subsection \<open>What an accepted configuration gives\<close>

text \<open>
  C37: No remote access without the key. With a configuration that \<^verbatim>\<open>validate_config\<close> accepts, a
  coordinator that listens beyond loopback authorises a request exactly when it carries one key header
  whose value is the configured key, which has at least sixteen bytes, none of them a blank or a control; the constant-width
  comparison accepts nothing else. The model servers always stay on loopback.\<close>
theorem remote_access_needs_key:
  assumes "validate_config B c = Inr ()" and "\<not> loopback (le_host (cfg_listen c))"
    and "length (cfg_api_key c) < 2 ^ 64" and "length supplied < 2 ^ 64"
  shows "(authorize_api_request c header_count supplied \<longleftrightarrow> header_count = 1 \<and> supplied = cfg_api_key c) \<and>
    16 \<le> length (cfg_api_key c) \<and> list_all key_byte_ok (cfg_api_key c) \<and>
    loopback (le_host (cfg_embedding c)) \<and> loopback (le_host (cfg_generation c))"
proof -
  have key: "cfg_api_key c \<noteq> []" "16 \<le> length (cfg_api_key c)" "list_all key_byte_ok (cfg_api_key c)"
      "loopback (le_host (cfg_embedding c))" "loopback (le_host (cfg_generation c))"
    using assms(1,2) by (auto simp: validate_config_def split: if_splits)
  show ?thesis
    using key authenticate_iff [OF key(1) assms(3,4)] by (simp add: authorize_api_request_def)
qed

definition sample_config :: config where
  "sample_config =
     \<lparr>cfg_listen = \<lparr>le_host = ''0.0.0.0'', le_port = 8080\<rparr>,
      cfg_embedding = \<lparr>le_host = ''127.0.0.1'', le_port = 8081\<rparr>,
      cfg_generation = \<lparr>le_host = ''127.0.0.1'', le_port = 8082\<rparr>,
      cfg_index_path = ''k'', cfg_backend = ''embedded'', cfg_embedded_path = ''k'',
      cfg_dense = \<lparr>dc_implementation = ''native'', dc_algorithm = ''automatic'', dc_exact_threshold = 2000,
        dc_hnsw = \<lparr>nh_neighbors = 16, nh_ef_construction = 200, nh_ef_search = 64\<rparr>,
        dc_faiss = \<lparr>fd_hnsw_neighbors = 32, fd_ef_construction = 200, fd_ef_search = 64, fd_ivf_lists = 256,
          fd_ivf_probes = 16, fd_minimum_training_vectors = 39, fd_pq_subquantizers = 32, fd_pq_bits = 8\<rparr>\<rparr>,
      cfg_postgres = \<lparr>ps_connection_env = ''LRS_POSTGRES_URL'', ps_schema = ''lrs_rag'', ps_corpus = ''default'',
        ps_pool_size = 4, ps_acquire_timeout_ms = 5000, ps_statement_timeout_ms = 10000,
        ps_vector_index = ''exact'', ps_hnsw_ef_search = 64\<rparr>,
      cfg_embedding_model = ''e.gguf'', cfg_generation_model = ''g.gguf'', cfg_pooling = ''mean'',
      cfg_embedding_dimension = 768, cfg_embedding_context_size = 512, cfg_embedding_batch_size = 2048,
      cfg_generation_context_size = 16384, cfg_context_tokens = 8192, cfg_api_key = ''0123456789abcdef'',
      cfg_spawn = True, cfg_ingestion_workers = 1, cfg_ingestion_queue_capacity = 64\<rparr>"

lemma sample_config_valid: "validate_config \<lparr>bf_faiss = False, bf_postgres = False\<rparr> sample_config = Inr ()"
  by (simp add: validate_config_def sample_config_def loopback_def key_byte_ok_def dense_invalid_def native_hnsw_invalid_def
      faiss_invalid_def word_less_nat_alt word_le_nat_alt)

theorem remote_access_needs_key_witness:
  "authorize_api_request sample_config 1 ''0123456789abcdef'' \<and> \<not> authorize_api_request sample_config 1 ''0123456789abcdeg'' \<and>
   \<not> authorize_api_request sample_config 2 ''0123456789abcdef''"
  using remote_access_needs_key [OF sample_config_valid, of "''0123456789abcdef''" 1]
    remote_access_needs_key [OF sample_config_valid, of "''0123456789abcdeg''" 1]
    remote_access_needs_key [OF sample_config_valid, of "''0123456789abcdef''" 2]
  by (simp add: sample_config_def loopback_def)

subsection \<open>Remote databases\<close>

fun commas :: "string \<Rightarrow> string list" where
  "commas [] = [[]]"
| "commas (c # cs) = (if c = CHR '','' then [] # commas cs else case commas cs of [] \<Rightarrow> [[c]] | h # t \<Rightarrow> (c # h) # t)"

lemma commas_nonempty [simp]: "commas s \<noteq> []"
  by (cases s) (simp_all split: list.split)

lemma commas_takeWhile:
  "commas s = takeWhile (\<lambda>c. c \<noteq> CHR '','') s #
     (if dropWhile (\<lambda>c. c \<noteq> CHR '','') s = [] then [] else commas (tl (dropWhile (\<lambda>c. c \<noteq> CHR '','') s)))"
  by (induction s) auto

text \<open>The loop over the host list checks each of the comma-separated hosts.\<close>

lemma all_loopback_commas: "all_loopback hosts \<longleftrightarrow> list_all loopback_host (commas hosts)"
proof (induction hosts rule: all_loopback.induct)
  case (1 hosts)
  have rest: "drop (length (takeWhile (\<lambda>c. c \<noteq> CHR '','') hosts)) hosts = dropWhile (\<lambda>c. c \<noteq> CHR '','') hosts"
    by (simp add: dropWhile_eq_drop)
  show ?case
    using 1 [OF refl refl]
    by (subst all_loopback.simps, subst commas_takeWhile) (auto simp: Let_def rest)
qed


definition sample_postgres :: postgres_config where
  "sample_postgres = \<lparr>pq_connection_string = ''c'', pq_schema = ''lrs_rag'', pq_corpus = ''default'', pq_pool_size = 4,
     pq_acquire_timeout = 5000, pq_statement_timeout = 10000, pq_hnsw_ef_search = 64\<rparr>"

definition sample_options :: "string \<Rightarrow> (string \<times> string option) list" where
  "sample_options mode = [(''host'', Some ''db.example''), (''sslmode'', Some mode)]"

lemma sample_postgres_validated:
  "validate_postgres_config (\<lambda>_. Some (sample_options ''verify-full'')) sample_postgres = Inr ()"
  "validate_postgres_config (\<lambda>_. Some (sample_options ''require'')) sample_postgres \<noteq> Inr ()"
  by (simp_all add: validate_postgres_config_def sample_postgres_def sample_options_def option_value_def identifier_ok_def
      ascii_alnum_def ascii_alpha_def Let_def word_less_nat_alt all_loopback_commas loopback_host_def)


text \<open>A name that begins like a loopback address counts as local, whatever it resolves to.\<close>

lemma loopback_prefix_is_a_name:
  "loopback_host ''127.attacker.example'' \<and>
   validate_postgres_config (\<lambda>_. Some [(''host'', Some ''127.attacker.example'')]) sample_postgres = Inr ()"
proof -
  have local: "loopback_host ''127.attacker.example''" by (simp add: loopback_host_def)
  have "commas ''127.attacker.example'' = [''127.attacker.example'']" by simp
  with local have "all_loopback ''127.attacker.example''" by (simp only: all_loopback_commas list.pred_inject simp_thms)
  moreover have "all_loopback []" by (simp add: all_loopback_commas loopback_host_def)
  moreover have "option_value ''host'' [(''host'', Some ''127.attacker.example'')] = ''127.attacker.example''"
      "option_value ''hostaddr'' [(''host'', Some ''127.attacker.example'')] = []"
    by (simp_all add: option_value_def)
  moreover have "identifier_ok (pq_schema sample_postgres)" using sample_postgres_validated(1)
    by (simp add: validate_postgres_config_def fail_def split: if_splits)
  ultimately show ?thesis using local
    by (simp only: validate_postgres_config_def option.case Let_def simp_thms if_False)
      (simp add: sample_postgres_def word_less_nat_alt)
qed

end
