(* ===== verification/Spec2Isabelle.thy ===== *)
theory Spec2Isabelle
  imports Core_Keys Store_Wal Store_Container Coordinator_Outcomes Document_Preparer Backend_Restart Retrieval Migration_Embedded Api_Config
begin

text \<open>
  Verification of the retrieval runtime \<^verbatim>\<open>rag.cpp\<close>.
\<close>

end
